(* ===== verification/CpuPrelude.thy ===== *)
theory CpuPrelude
  imports Main "HOL-Library.Word" "HOL-Library.While_Combinator"
begin

text \<open>
  Shared ground of the development: the byte and 32-bit integer types of the C++ code,
  the outcome of a call (a value, an exception or undefined behaviour, a wait on a mutex,
  or no return at all) with its sequencing operator, loops over outcomes, the operations on
  \<^verbatim>\<open>std::vector\<close> that the code uses, and the generic lemmas on lists and words that the
  components share.
\<close>

unbundle bit_operations_syntax

section \<open>Types of the code\<close>

type_synonym byte = "8 word"
type_synonym u32 = "32 word"

text \<open>\<^verbatim>\<open>using CpuCommand = std::pair<uint8_t, uint8_t>\<close>: command and sub command.\<close>

type_synonym CpuCommand = "byte \<times> byte"

text \<open>
  What ends a call abnormally: \<^verbatim>\<open>std::out_of_range\<close> from an \<^verbatim>\<open>at()\<close>, a failed
  \<^verbatim>\<open>assert\<close>, a lock or unlock of a \<^verbatim>\<open>std::mutex\<close> that the C++ standard does not
  define, or any other undefined behaviour (an iterator outside its container, a null pointer);
  \<^verbatim>\<open>std::invalid_argument\<close> from a number parser, a call of \<^verbatim>\<open>std::terminate\<close>, or an exception of a library that the
  development takes as a parameter.
\<close>

datatype fault = Out_of_range | Assertion_failed | Mutex_misuse | Undefined_behaviour
  | Invalid_argument | Terminated | Library_error

text \<open>
  The outcome of a call: it returns, it throws, it waits for a mutex that another thread
  holds, or it never returns.
\<close>

datatype 'a outcome = Ret 'a | Throw fault | Blocked | Diverges

fun obind :: "'a outcome \<Rightarrow> ('a \<Rightarrow> 'b outcome) \<Rightarrow> 'b outcome" where
  "obind (Ret x) f = f x"
| "obind (Throw e) f = Throw e"
| "obind Blocked f = Blocked"
| "obind Diverges f = Diverges"

fun omap :: "('a \<Rightarrow> 'b) \<Rightarrow> 'a outcome \<Rightarrow> 'b outcome" where
  "omap f (Ret x) = Ret (f x)"
| "omap f (Throw e) = Throw e"
| "omap f Blocked = Blocked"
| "omap f Diverges = Diverges"

text \<open>When a call ends in which way.\<close>

named_theorems outcome_eqs \<open>equations between an outcome and one of its kinds\<close>

lemma obind_eq_Ret [outcome_eqs]: "obind m f = Ret y \<longleftrightarrow> (\<exists>x. m = Ret x \<and> f x = Ret y)"
  by (cases m) auto

lemma obind_eq_Throw [outcome_eqs]:
  "obind m f = Throw e \<longleftrightarrow> m = Throw e \<or> (\<exists>x. m = Ret x \<and> f x = Throw e)"
  by (cases m) auto

lemma obind_eq_Blocked [outcome_eqs]:
  "obind m f = Blocked \<longleftrightarrow> m = Blocked \<or> (\<exists>x. m = Ret x \<and> f x = Blocked)"
  by (cases m) auto

lemma omap_eq_Ret [outcome_eqs]: "omap f m = Ret y \<longleftrightarrow> (\<exists>x. m = Ret x \<and> y = f x)"
  by (cases m) auto

lemma omap_eq_Throw [outcome_eqs]: "omap f m = Throw e \<longleftrightarrow> m = Throw e"
  by (cases m) auto

lemma omap_eq_Blocked [outcome_eqs]: "omap f m = Blocked \<longleftrightarrow> m = Blocked"
  by (cases m) auto

text \<open>Rules that take a call apart without splitting what follows it.\<close>

lemma obind_RetE: "obind m f = Ret y \<Longrightarrow> (\<And>x. m = Ret x \<Longrightarrow> f x = Ret y \<Longrightarrow> P) \<Longrightarrow> P"
  by (cases m) simp_all

lemma if_eqE: "(if b then x else y) = z \<Longrightarrow> (b \<Longrightarrow> x = z \<Longrightarrow> P) \<Longrightarrow> (\<not> b \<Longrightarrow> y = z \<Longrightarrow> P) \<Longrightarrow> P"
  by (cases b) simp_all

lemma Some_eq_map_option: "Some a = map_option f x \<longleftrightarrow> (\<exists>y. x = Some y \<and> a = f y)"
  by (cases x) auto

section \<open>Loops\<close>

text \<open>A loop over a state, whose body may throw.\<close>

definition run_while :: "('s \<Rightarrow> bool) \<Rightarrow> ('s \<Rightarrow> 's outcome) \<Rightarrow> 's \<Rightarrow> 's outcome" where
  "run_while b f s =
     (case while_option (\<lambda>r. case r of Ret s \<Rightarrow> b s | _ \<Rightarrow> False) (\<lambda>r. obind r f) (Ret s) of
        None \<Rightarrow> Diverges
      | Some r \<Rightarrow> r)"

lemma while_option_outcome_end:
  "while_option (\<lambda>r. case r of Ret s \<Rightarrow> b s | _ \<Rightarrow> False) g (Throw e) = Some (Throw e)"
  "while_option (\<lambda>r. case r of Ret s \<Rightarrow> b s | _ \<Rightarrow> False) g Blocked = Some Blocked"
  "while_option (\<lambda>r. case r of Ret s \<Rightarrow> b s | _ \<Rightarrow> False) g Diverges = Some Diverges"
  by (subst while_option_unfold, simp)+

lemma run_while_unfold: "run_while b f s = (if b s then obind (f s) (run_while b f) else Ret s)"
proof (cases "b s")
  case True
  then show ?thesis unfolding run_while_def
    by (subst while_option_unfold) (cases "f s"; simp add: while_option_outcome_end run_while_def)
qed (simp add: run_while_def while_option_unfold [of _ _ "Ret s"])

text \<open>What every turn of the loop keeps holds at its end.\<close>

lemma run_while_invariant:
  assumes "run_while b f s = Ret s'" and "P s" and "\<And>s s'. P s \<Longrightarrow> f s = Ret s' \<Longrightarrow> P s'"
  shows "P s'"
proof -
  obtain r where r: "while_option (\<lambda>r. case r of Ret s \<Rightarrow> b s | _ \<Rightarrow> False) (\<lambda>r. obind r f) (Ret s) = Some r" "r = Ret s'"
    using assms(1) by (auto simp: run_while_def split: option.splits)
  have "\<forall>s. r = Ret s \<longrightarrow> P s"
    by (rule while_option_rule [OF _ r(1)]) (use assms(2,3) in \<open>auto simp: obind_eq_Ret\<close>)
  then show ?thesis using r(2) by simp
qed

text \<open>A loop whose body leads from good states to good states never ends.\<close>

lemma run_while_diverges:
  assumes "P s" and "\<And>s. P s \<Longrightarrow> b s \<and> (\<exists>s'. f s = Ret s' \<and> P s')"
  shows "run_while b f s = Diverges"
proof -
  have "while_option (\<lambda>r. case r of Ret s \<Rightarrow> b s | _ \<Rightarrow> False) (\<lambda>r. obind r f) (Ret s) = None"
  proof (rule ccontr)
    assume "\<not> ?thesis"
    then obtain r where r: "while_option (\<lambda>r. case r of Ret s \<Rightarrow> b s | _ \<Rightarrow> False) (\<lambda>r. obind r f) (Ret s) = Some r"
      by blast
    have "\<exists>s. r = Ret s \<and> P s"
    proof (rule while_option_rule [where P = "\<lambda>r. \<exists>s. r = Ret s \<and> P s", OF _ r])
      fix r assume "\<exists>s. r = Ret s \<and> P s"
      then obtain s where "r = Ret s" "P s" by blast
      then show "\<exists>s. obind r f = Ret s \<and> P s" using assms(2) [of s] by auto
    qed (use assms(1) in simp)
    then show False using while_option_stop [OF r] assms(2) by auto
  qed
  then show ?thesis by (simp add: run_while_def)
qed

section \<open>Vectors\<close>

text \<open>
  \<^verbatim>\<open>v[i]\<close>, which is undefined outside the vector, \<^verbatim>\<open>v.at(i)\<close>, which throws there, and \<^verbatim>\<open>v.erase(begin + a, begin + b)\<close>,
  which is undefined unless the range lies inside it.
\<close>

definition vec_index :: "'a list \<Rightarrow> nat \<Rightarrow> 'a outcome" where
  "vec_index xs i = (if i < length xs then Ret (xs ! i) else Throw Undefined_behaviour)"

definition vec_at :: "'a list \<Rightarrow> nat \<Rightarrow> 'a outcome" where
  "vec_at xs i = (if i < length xs then Ret (xs ! i) else Throw Out_of_range)"

definition vec_erase :: "nat \<Rightarrow> nat \<Rightarrow> 'a list \<Rightarrow> 'a list outcome" where
  "vec_erase a b xs =
     (if a \<le> b \<and> b \<le> length xs then Ret (take a xs @ drop b xs) else Throw Undefined_behaviour)"

text \<open>\<^verbatim>\<open>std::vector<T>(begin + a, begin + b)\<close>: the elements from \<open>a\<close> up to \<open>b\<close>.\<close>

definition vec_slice :: "nat \<Rightarrow> nat \<Rightarrow> 'a list \<Rightarrow> 'a list outcome" where
  "vec_slice a b xs =
     (if a \<le> b \<and> b \<le> length xs then Ret (drop a (take b xs)) else Throw Undefined_behaviour)"

text \<open>
  Bytes written into \<open>n\<close> freshly resized (hence zero) cells: the device fills a prefix.
\<close>

definition overwrite :: "nat \<Rightarrow> byte list \<Rightarrow> byte list" where
  "overwrite n bs = take n (bs @ replicate n 0)"

lemma length_overwrite [simp]: "length (overwrite n bs) = n"
  by (simp add: overwrite_def)

lemma overwrite_full [simp]: "length bs = n \<Longrightarrow> overwrite n bs = bs"
  by (simp add: overwrite_def)

lemma vec_at_Ret [simp]: "i < length xs \<Longrightarrow> vec_at xs i = Ret (xs ! i)"
  by (simp add: vec_at_def)

lemma vec_erase_Ret: "a \<le> b \<Longrightarrow> b \<le> length xs \<Longrightarrow> vec_erase a b xs = Ret (take a xs @ drop b xs)"
  by (simp add: vec_erase_def)

section \<open>Words\<close>

lemma unat_word_of_nat_u32 [simp]: "n < 4294967296 \<Longrightarrow> unat (word_of_nat n :: u32) = n"
  by (simp add: unat_of_nat take_bit_nat_eq_self)

lemma unat_word_of_nat_byte [simp]: "n < 256 \<Longrightarrow> unat (word_of_nat n :: byte) = n"
  by (simp add: unat_of_nat take_bit_nat_eq_self)

lemma byte_masks:
  "(0xff :: u32) = mask 8" "(0xff00 :: u32) = push_bit 8 (mask 8)"
  "(0xff0000 :: u32) = push_bit 16 (mask 8)"
  "(0xff :: 16 word) = mask 8" "(0xff00 :: 16 word) = push_bit 8 (mask 8)"
  by (simp_all add: mask_eq_exp_minus_1)

lemma bit_below_24: "(w :: u32) < 2 ^ 24 \<Longrightarrow> bit w n \<Longrightarrow> n < 24"
proof -
  assume "w < 2 ^ 24" and b: "bit w n"
  then have "take_bit 24 w = w"
    by (simp add: word_unat_eq_iff word_less_nat_alt unsigned_take_bit_eq take_bit_nat_eq_self)
  then show "n < 24" using b by (metis bit_take_bit_iff)
qed

section \<open>Lists cut into chunks\<close>

lemma concat_chunks: "concat (map (\<lambda>j. take k (drop (k * j) xs)) [0..<n]) = take (k * n) xs"
proof (induction n)
  case (Suc n)
  have "k * Suc n = k * n + k" by simp
  with Suc show ?case by (simp only: take_add) simp
qed simp

lemma upt_first: "i < n \<Longrightarrow> [i..<n] = i # [Suc i..<n]"
  by (rule upt_conv_Cons)

end
