(* ===== verification/CpuInterface.thy ===== *)
theory CpuInterface
  imports CpuPrelude
begin

text \<open>
  The interface \<^verbatim>\<open>ICPU\<close> (\<^verbatim>\<open>CpuComDaemon/src/vcpu/ICPU.h\<close>) between the daemon and the
  two CPU classes: its operations as a record, and as the locale \<open>icpu\<close> the laws the daemon
  relies on. A CPU is \<open>ready\<close> when no call on it is in progress.
\<close>

record 'c ICPU =
  cpu_initialize :: "'c \<Rightarrow> bool \<times> 'c"
  cpu_read :: "'c \<Rightarrow> ((CpuCommand \<times> byte list) option \<times> 'c) outcome"
  cpu_write :: "'c \<Rightarrow> CpuCommand \<Rightarrow> byte list \<Rightarrow> (bool \<times> 'c) outcome"

locale icpu =
  fixes C :: "'c ICPU" and ready :: "'c \<Rightarrow> bool"
  assumes initialize_ready: "ready c \<Longrightarrow> ready (snd (cpu_initialize C c))"
    and read_ready: "ready c \<Longrightarrow> cpu_read C c = Ret (v, c') \<Longrightarrow> ready c'"
    and read_throws: "ready c \<Longrightarrow> cpu_read C c = Throw x \<Longrightarrow> x = Out_of_range \<or> x = Undefined_behaviour"
    and write_ready: "ready c \<Longrightarrow> cpu_write C c cmd data = Ret (r, c') \<Longrightarrow> ready c'"
    and write_throws: "ready c \<Longrightarrow> length data < 2 ^ 32 - 3 \<Longrightarrow> cpu_write C c cmd data \<noteq> Throw x"

end
