(* ===== verification/Daemon.thy ===== *)
theory Daemon
  imports CpuInterface
begin

text \<open>
  The daemon (\<^verbatim>\<open>CpuComDaemon/src/CpuComDaemon.cpp\<close>): its state, one definition per method,
  and the dispatch of client messages and connection events to them. The CPU is the interface
  \<open>ICPU\<close>, a parameter \<open>C\<close>. The message server is \<^verbatim>\<open>common::MessageServer\<close>, which is
  not part of the repository; it is represented by the list of messages the daemon has handed to
  it, in order. Session and request identifiers are types of the common library: parameters.
  Each method takes its mutexes one at a time and gives them back, so the definitions treat the
  guarded sections as steps in sequence; \<open>onReceiveCommand\<close> names its sections.
\<close>

section \<open>Messages\<close>

text \<open>
  The messages that \<^verbatim>\<open>CpuComMessageServer\<close> sends to a client, and those it passes to the
  handlers the daemon registers, one constructor per \<^verbatim>\<open>CpuComId\<close>.
\<close>

datatype error = ERR_BUSY

datatype 'u DaemonMessage =
    Notification CpuCommand "byte list"
  | RequestResponse 'u "byte list"
  | SendCommandResult CpuCommand error
  | DeliveryStatus 'u bool

datatype 'u ClientMessage =
    SendCommand CpuCommand "byte list"
  | Subscribe CpuCommand
  | Unsubscribe CpuCommand
  | SendCommandWithDeliveryStatus 'u CpuCommand "byte list"
  | Request 'u CpuCommand "byte list" CpuCommand
  | CancelRequest 'u

section \<open>State\<close>

text \<open>
  \<^verbatim>\<open>std::map<CpuCommand, std::set<SessionID>>\<close> is a map to sorted lists without repetition,
  in the order in which the set is iterated.
\<close>

record ('c, 's, 'u) CpuComDaemon =
  m_messageServer :: "('s \<times> 'u DaemonMessage) list"
  m_vcpu :: 'c
  m_subscribers :: "CpuCommand \<rightharpoonup> 's list"
  m_requests :: "('u \<times> CpuCommand \<times> 's) list"
  m_running :: bool

definition set_insert :: "'s::linorder \<Rightarrow> 's list \<Rightarrow> 's list" where
  "set_insert s xs = (if s \<in> set xs then xs else insort s xs)"

text \<open>\<^verbatim>\<open>m_subscribers[command]\<close>: an absent key gets an empty set.\<close>

definition subscribers_at :: "CpuCommand \<Rightarrow> (CpuCommand \<rightharpoonup> 's list) \<Rightarrow> 's list" where
  "subscribers_at command m = (case m command of None \<Rightarrow> [] | Some xs \<Rightarrow> xs)"

text \<open>\<^verbatim>\<open>std::find_if\<close> followed by \<^verbatim>\<open>erase\<close> of what was found.\<close>

fun take_first :: "('a \<Rightarrow> bool) \<Rightarrow> 'a list \<Rightarrow> ('a \<times> 'a list) option" where
  "take_first P [] = None"
| "take_first P (x # xs) =
     (if P x then Some (x, xs) else map_option (\<lambda>(y, ys). (y, x # ys)) (take_first P xs))"

section \<open>Methods\<close>

definition send_message :: "'s \<Rightarrow> 'u DaemonMessage \<Rightarrow> ('c, 's, 'u) CpuComDaemon \<Rightarrow> ('c, 's, 'u) CpuComDaemon"
  where
  "send_message s m d = d\<lparr>m_messageServer := m_messageServer d @ [(s, m)]\<rparr>"

definition CpuComDaemon_new :: "'c \<Rightarrow> ('c, 's, 'u) CpuComDaemon" where
  "CpuComDaemon_new vcpu =
     \<lparr>m_messageServer = [], m_vcpu = vcpu, m_subscribers = Map.empty, m_requests = [], m_running = False\<rparr>"

text \<open>
  \<open>server_starts\<close> is the result of \<^verbatim>\<open>m_messageServer->start()\<close>. The thread that reads the
  CPU runs as long as \<^verbatim>\<open>isRunning\<close> is true.
\<close>

definition daemon_start ::
    "'c ICPU \<Rightarrow> bool \<Rightarrow> ('c, 's, 'u) CpuComDaemon \<Rightarrow> bool \<times> ('c, 's, 'u) CpuComDaemon" where
  "daemon_start C server_starts d =
     (case cpu_initialize C (m_vcpu d) of
        (initialized, vcpu) \<Rightarrow>
          (server_starts, d\<lparr>m_vcpu := vcpu, m_running := (initialized \<or> m_running d)\<rparr>))"

definition isRunning :: "('c, 's, 'u) CpuComDaemon \<Rightarrow> bool" where
  "isRunning d = m_running d"

definition daemon_delete :: "('c, 's, 'u) CpuComDaemon \<Rightarrow> ('c, 's, 'u) CpuComDaemon" where
  "daemon_delete d = d\<lparr>m_running := False\<rparr>"

definition snapshot_subscribers ::
    "CpuCommand \<Rightarrow> ('c, 's, 'u) CpuComDaemon \<Rightarrow> 's list \<times> ('c, 's, 'u) CpuComDaemon" where
  "snapshot_subscribers command d =
     (let subscribers = subscribers_at command (m_subscribers d)
      in (subscribers, d\<lparr>m_subscribers := (m_subscribers d)(command \<mapsto> subscribers)\<rparr>))"

definition take_request ::
    "CpuCommand \<Rightarrow> ('c, 's, 'u) CpuComDaemon \<Rightarrow>
     ('u \<times> CpuCommand \<times> 's) option \<times> ('c, 's, 'u) CpuComDaemon" where
  "take_request command d =
     (case take_first (\<lambda>value. fst (snd value) = command) (m_requests d) of
        None \<Rightarrow> (None, d)
      | Some (request, rest) \<Rightarrow> (Some request, d\<lparr>m_requests := rest\<rparr>))"

definition onReceiveCommand ::
    "CpuCommand \<Rightarrow> byte list \<Rightarrow> ('c, 's, 'u) CpuComDaemon \<Rightarrow> ('c, 's, 'u) CpuComDaemon" where
  "onReceiveCommand command data d =
     (case snapshot_subscribers command d of
        (subscribers, d) \<Rightarrow>
     (case take_request command (fold (\<lambda>s. send_message s (Notification command data)) subscribers d) of
        (None, d) \<Rightarrow> d
      | (Some (requestID, _, sessionID), d) \<Rightarrow> send_message sessionID (RequestResponse requestID data) d))"

definition vcpuThreadFunction ::
    "'c ICPU \<Rightarrow> ('c, 's, 'u) CpuComDaemon \<Rightarrow> ('c, 's, 'u) CpuComDaemon outcome" where
  "vcpuThreadFunction C d =
     omap (\<lambda>(received, vcpu). case received of
             None \<Rightarrow> d\<lparr>m_vcpu := vcpu\<rparr>
           | Some (command, data) \<Rightarrow> onReceiveCommand command data (d\<lparr>m_vcpu := vcpu\<rparr>))
       (cpu_read C (m_vcpu d))"

definition onClientConnected :: "'s \<Rightarrow> ('c, 's, 'u) CpuComDaemon \<Rightarrow> ('c, 's, 'u) CpuComDaemon" where
  "onClientConnected sessionID d = d"

definition onClientDisconnected :: "'s \<Rightarrow> ('c, 's, 'u) CpuComDaemon \<Rightarrow> ('c, 's, 'u) CpuComDaemon" where
  "onClientDisconnected sessionID d =
     (let d = d\<lparr>m_subscribers := (\<lambda>command. map_option (remove1 sessionID) (m_subscribers d command))\<rparr>
      in d\<lparr>m_requests := filter (\<lambda>value. snd (snd value) \<noteq> sessionID) (m_requests d)\<rparr>)"

definition cpu_write_daemon ::
    "'c ICPU \<Rightarrow> CpuCommand \<Rightarrow> byte list \<Rightarrow> ('c, 's, 'u) CpuComDaemon \<Rightarrow>
     (bool \<times> ('c, 's, 'u) CpuComDaemon) outcome" where
  "cpu_write_daemon C command data d =
     omap (\<lambda>(r, vcpu). (r, d\<lparr>m_vcpu := vcpu\<rparr>)) (cpu_write C (m_vcpu d) command data)"

definition onSendCommand ::
    "'c ICPU \<Rightarrow> 's \<Rightarrow> CpuCommand \<Rightarrow> byte list \<Rightarrow> ('c, 's, 'u) CpuComDaemon \<Rightarrow>
     ('c, 's, 'u) CpuComDaemon outcome" where
  "onSendCommand C sessionID command data d =
     omap (\<lambda>(r, d). if r = False then send_message sessionID (SendCommandResult command ERR_BUSY) d else d)
       (cpu_write_daemon C command data d)"

definition onSubscribe ::
    "'s::linorder \<Rightarrow> CpuCommand \<Rightarrow> ('c, 's, 'u) CpuComDaemon \<Rightarrow> ('c, 's, 'u) CpuComDaemon" where
  "onSubscribe sessionID command d =
     d\<lparr>m_subscribers := (m_subscribers d)(command \<mapsto>
         set_insert sessionID (subscribers_at command (m_subscribers d)))\<rparr>"

definition onUnsubscribe ::
    "'s \<Rightarrow> CpuCommand \<Rightarrow> ('c, 's, 'u) CpuComDaemon \<Rightarrow> ('c, 's, 'u) CpuComDaemon" where
  "onUnsubscribe sessionID command d =
     d\<lparr>m_subscribers := (m_subscribers d)(command \<mapsto>
         remove1 sessionID (subscribers_at command (m_subscribers d)))\<rparr>"

text \<open>The result of the write is not looked at.\<close>

definition onRequest ::
    "'c ICPU \<Rightarrow> 's \<Rightarrow> 'u \<Rightarrow> CpuCommand \<Rightarrow> byte list \<Rightarrow> CpuCommand \<Rightarrow> ('c, 's, 'u) CpuComDaemon \<Rightarrow>
     ('c, 's, 'u) CpuComDaemon outcome" where
  "onRequest C sessionID requestID requestCommand requestData responseCommand d =
     (let d = d\<lparr>m_requests := m_requests d @ [(requestID, responseCommand, sessionID)]\<rparr>
      in omap snd (cpu_write_daemon C requestCommand requestData d))"

definition onCancelRequest :: "'s \<Rightarrow> 'u \<Rightarrow> ('c, 's, 'u) CpuComDaemon \<Rightarrow> ('c, 's, 'u) CpuComDaemon" where
  "onCancelRequest sessionID requestID d =
     (case take_first (\<lambda>value. fst value = requestID) (m_requests d) of
        None \<Rightarrow> d
      | Some (request, rest) \<Rightarrow> d\<lparr>m_requests := rest\<rparr>)"

definition onSendCommandWithDeliveryStatus ::
    "'c ICPU \<Rightarrow> 's \<Rightarrow> 'u \<Rightarrow> CpuCommand \<Rightarrow> byte list \<Rightarrow> ('c, 's, 'u) CpuComDaemon \<Rightarrow>
     ('c, 's, 'u) CpuComDaemon outcome" where
  "onSendCommandWithDeliveryStatus C sessionID requestID command data d =
     omap (\<lambda>(r, d). send_message sessionID (DeliveryStatus requestID r) d)
       (cpu_write_daemon C command data d)"

section \<open>Events\<close>

text \<open>
  The handlers \<^verbatim>\<open>start\<close> registers, by message. An event of the daemon is a connection, a
  disconnection or a message of a client, or one round of the thread that reads the CPU.
\<close>

fun handle_message ::
    "'c ICPU \<Rightarrow> 's::linorder \<Rightarrow> 'u ClientMessage \<Rightarrow> ('c, 's, 'u) CpuComDaemon \<Rightarrow>
     ('c, 's, 'u) CpuComDaemon outcome" where
  "handle_message C s (SendCommand command data) d = onSendCommand C s command data d"
| "handle_message C s (Subscribe command) d = Ret (onSubscribe s command d)"
| "handle_message C s (Unsubscribe command) d = Ret (onUnsubscribe s command d)"
| "handle_message C s (SendCommandWithDeliveryStatus u command data) d =
     onSendCommandWithDeliveryStatus C s u command data d"
| "handle_message C s (Request u command data responseCommand) d =
     onRequest C s u command data responseCommand d"
| "handle_message C s (CancelRequest u) d = Ret (onCancelRequest s u d)"

datatype ('s, 'u) daemon_event = Connected 's | Disconnected 's | Message 's "'u ClientMessage" | VcpuRound

fun daemon_step ::
    "'c ICPU \<Rightarrow> ('s::linorder, 'u) daemon_event \<Rightarrow> ('c, 's, 'u) CpuComDaemon \<Rightarrow>
     ('c, 's, 'u) CpuComDaemon outcome" where
  "daemon_step C (Connected s) d = Ret (onClientConnected s d)"
| "daemon_step C (Disconnected s) d = Ret (onClientDisconnected s d)"
| "daemon_step C (Message s m) d = handle_message C s m d"
| "daemon_step C VcpuRound d = (if isRunning d then vcpuThreadFunction C d else Ret d)"

fun daemon_run ::
    "'c ICPU \<Rightarrow> ('s::linorder, 'u) daemon_event list \<Rightarrow> ('c, 's, 'u) CpuComDaemon \<Rightarrow>
     ('c, 's, 'u) CpuComDaemon outcome" where
  "daemon_run C [] d = Ret d"
| "daemon_run C (e # es) d = obind (daemon_step C e d) (daemon_run C es)"

section \<open>Sets as sorted lists\<close>

definition is_set :: "'s::linorder list \<Rightarrow> bool" where
  "is_set xs \<longleftrightarrow> sorted xs \<and> distinct xs"

lemma is_set_insert: "is_set xs \<Longrightarrow> is_set (set_insert s xs) \<and> set (set_insert s xs) = insert s (set xs)"
  by (auto simp: is_set_def set_insert_def sorted_insort distinct_insort set_insort_key)

lemma is_set_erase: "is_set xs \<Longrightarrow> is_set (remove1 s xs) \<and> set (remove1 s xs) = set xs - {s}"
  by (simp add: is_set_def sorted_remove1)

lemma is_set_unique: "is_set xs \<Longrightarrow> sorted_list_of_set (set xs) = xs"
  by (simp add: is_set_def sorted_list_of_set.idem_if_sorted_distinct)

section \<open>The subscription relation\<close>

definition daemon_inv :: "('c, 's::linorder, 'u) CpuComDaemon \<Rightarrow> bool" where
  "daemon_inv d \<longleftrightarrow> (\<forall>command. is_set (subscribers_at command (m_subscribers d)))"

definition subscriptions :: "('c, 's, 'u) CpuComDaemon \<Rightarrow> ('s \<times> CpuCommand) set" where
  "subscriptions d = {(s, command). s \<in> set (subscribers_at command (m_subscribers d))}"

lemma daemon_inv_new: "daemon_inv (CpuComDaemon_new vcpu)" "subscriptions (CpuComDaemon_new vcpu) = {}"
  by (simp_all add: daemon_inv_def subscriptions_def CpuComDaemon_new_def subscribers_at_def is_set_def)

lemma CpuComDaemon_new_simps [simp]:
  "m_vcpu (CpuComDaemon_new vcpu) = vcpu" "m_messageServer (CpuComDaemon_new vcpu) = []"
  "m_requests (CpuComDaemon_new vcpu) = []" "m_subscribers (CpuComDaemon_new vcpu) = Map.empty"
  by (simp_all add: CpuComDaemon_new_def)

text \<open>What an event does to the relation.\<close>

fun subscriptions_after ::
    "('s, 'u) daemon_event \<Rightarrow> ('s \<times> CpuCommand) set \<Rightarrow> ('s \<times> CpuCommand) set" where
  "subscriptions_after (Message s (Subscribe command)) A = insert (s, command) A"
| "subscriptions_after (Message s (Unsubscribe command)) A = A - {(s, command)}"
| "subscriptions_after (Disconnected s) A = {x \<in> A. fst x \<noteq> s}"
| "subscriptions_after e A = A"

lemma subscribers_at_upd [simp]:
  "subscribers_at c (m(command \<mapsto> xs)) = (if c = command then xs else subscribers_at c m)"
  by (simp add: subscribers_at_def)

lemma subscribers_at_map [simp]:
  "subscribers_at c (\<lambda>command. map_option (remove1 s) (m command)) = remove1 s (subscribers_at c m)"
  by (simp add: subscribers_at_def split: option.splits)

lemma send_message_simps [simp]:
  "m_subscribers (send_message s m d) = m_subscribers d" "m_requests (send_message s m d) = m_requests d"
  "m_vcpu (send_message s m d) = m_vcpu d" "m_running (send_message s m d) = m_running d"
  "m_messageServer (send_message s m d) = m_messageServer d @ [(s, m)]"
  by (simp_all add: send_message_def)

lemma notify_all_simps [simp]:
  "m_subscribers (fold (\<lambda>s. send_message s m) xs d) = m_subscribers d"
  "m_requests (fold (\<lambda>s. send_message s m) xs d) = m_requests d"
  "m_vcpu (fold (\<lambda>s. send_message s m) xs d) = m_vcpu d"
  "m_running (fold (\<lambda>s. send_message s m) xs d) = m_running d"
  "m_messageServer (fold (\<lambda>s. send_message s m) xs d) = m_messageServer d @ map (\<lambda>s. (s, m)) xs"
  by (induction xs arbitrary: d) simp_all

lemma take_first_spec:
  "take_first P xs = None \<longleftrightarrow> find P xs = None"
  "take_first P xs = Some (y, ys) \<Longrightarrow> find P xs = Some y \<and> ys = remove1 y xs \<and> P y \<and> y \<in> set xs"
  by (induction xs arbitrary: ys) (auto split: if_splits)

text \<open>What one received command does: all of its output, and the request that is gone.\<close>

lemma onReceiveCommand_state:
  "subscribers_at c (m_subscribers (onReceiveCommand command data d)) = subscribers_at c (m_subscribers d)"
  "m_vcpu (onReceiveCommand command data d) = m_vcpu d"
  "m_running (onReceiveCommand command data d) = m_running d"
  by (auto simp: onReceiveCommand_def snapshot_subscribers_def take_request_def Let_def split: option.splits)

lemma onReceiveCommand_output:
  "m_messageServer (onReceiveCommand command data d) = m_messageServer d @
     map (\<lambda>s. (s, Notification command data)) (subscribers_at command (m_subscribers d)) @
     (case find (\<lambda>r. fst (snd r) = command) (m_requests d) of
        None \<Rightarrow> [] | Some (u, _, s) \<Rightarrow> [(s, RequestResponse u data)])"
  "m_requests (onReceiveCommand command data d) =
     (case find (\<lambda>r. fst (snd r) = command) (m_requests d) of
        None \<Rightarrow> m_requests d | Some r \<Rightarrow> remove1 r (m_requests d))"
proof -
  let ?P = "\<lambda>r. fst (snd r) = command"
  have "m_messageServer (onReceiveCommand command data d) = m_messageServer d @
     map (\<lambda>s. (s, Notification command data)) (subscribers_at command (m_subscribers d)) @
     (case find ?P (m_requests d) of None \<Rightarrow> [] | Some (u, _, s) \<Rightarrow> [(s, RequestResponse u data)]) \<and>
    m_requests (onReceiveCommand command data d) =
     (case find ?P (m_requests d) of None \<Rightarrow> m_requests d | Some r \<Rightarrow> remove1 r (m_requests d))"
  proof (cases "take_first ?P (m_requests d)")
    case None
    then show ?thesis
      using take_first_spec(1) [of ?P "m_requests d"]
      by (simp add: onReceiveCommand_def snapshot_subscribers_def take_request_def Let_def)
  next
    case (Some r)
    obtain u c s rest where r: "r = ((u, c, s), rest)" by (cases r) auto
    then show ?thesis
      using take_first_spec(2) [OF Some [unfolded r]] Some
      by (simp add: onReceiveCommand_def snapshot_subscribers_def take_request_def Let_def)
  qed
  then show "m_messageServer (onReceiveCommand command data d) = m_messageServer d @
     map (\<lambda>s. (s, Notification command data)) (subscribers_at command (m_subscribers d)) @
     (case find (\<lambda>r. fst (snd r) = command) (m_requests d) of
        None \<Rightarrow> [] | Some (u, _, s) \<Rightarrow> [(s, RequestResponse u data)])"
   and "m_requests (onReceiveCommand command data d) =
     (case find (\<lambda>r. fst (snd r) = command) (m_requests d) of
        None \<Rightarrow> m_requests d | Some r \<Rightarrow> remove1 r (m_requests d))" by simp_all
qed

text \<open>The handlers that write to the CPU, by the result of the write.\<close>

lemma cpu_write_daemon_Ret:
  assumes "cpu_write_daemon C command data d = Ret (r, d1)"
  obtains vcpu where "cpu_write C (m_vcpu d) command data = Ret (r, vcpu)" "d1 = d\<lparr>m_vcpu := vcpu\<rparr>"
  using assms by (auto simp: cpu_write_daemon_def omap_eq_Ret)

lemma onSendCommand_Ret:
  assumes "onSendCommand C s command data d = Ret d'"
  obtains r vcpu where "cpu_write C (m_vcpu d) command data = Ret (r, vcpu)"
    "d' = d\<lparr>m_vcpu := vcpu, m_messageServer := m_messageServer d @ (if r then [] else [(s, SendCommandResult command ERR_BUSY)])\<rparr>"
proof -
  obtain r d1 where w: "cpu_write_daemon C command data d = Ret (r, d1)"
    and d': "d' = (if r = False then send_message s (SendCommandResult command ERR_BUSY) d1 else d1)"
    using assms by (auto simp: onSendCommand_def omap_eq_Ret)
  show thesis by (rule cpu_write_daemon_Ret [OF w], rule that) (cases d; cases r; simp add: d' send_message_def)+
qed

lemma onSendCommandWithDeliveryStatus_Ret:
  assumes "onSendCommandWithDeliveryStatus C s u command data d = Ret d'"
  obtains r vcpu where "cpu_write C (m_vcpu d) command data = Ret (r, vcpu)"
    "d' = d\<lparr>m_vcpu := vcpu, m_messageServer := m_messageServer d @ [(s, DeliveryStatus u r)]\<rparr>"
proof -
  obtain r d1 where w: "cpu_write_daemon C command data d = Ret (r, d1)"
    and d': "d' = send_message s (DeliveryStatus u r) d1"
    using assms by (auto simp: onSendCommandWithDeliveryStatus_def omap_eq_Ret)
  show thesis by (rule cpu_write_daemon_Ret [OF w], rule that) (simp_all add: d' send_message_def)
qed

lemma onRequest_Ret:
  assumes "onRequest C s u command data responseCommand d = Ret d'"
  obtains r vcpu where "cpu_write C (m_vcpu d) command data = Ret (r, vcpu)"
    "d' = d\<lparr>m_requests := m_requests d @ [(u, responseCommand, s)], m_vcpu := vcpu\<rparr>"
proof -
  obtain r where w: "cpu_write_daemon C command data
      (d\<lparr>m_requests := m_requests d @ [(u, responseCommand, s)]\<rparr>) = Ret (r, d')"
    using assms by (auto simp: onRequest_def Let_def omap_eq_Ret)
  show thesis by (rule cpu_write_daemon_Ret [OF w], rule that) simp_all
qed

lemma vcpuThreadFunction_Ret:
  assumes "vcpuThreadFunction C d = Ret d'"
  obtains vcpu where "cpu_read C (m_vcpu d) = Ret (None, vcpu)" "d' = d\<lparr>m_vcpu := vcpu\<rparr>"
    | command data vcpu where "cpu_read C (m_vcpu d) = Ret (Some (command, data), vcpu)"
      "d' = onReceiveCommand command data (d\<lparr>m_vcpu := vcpu\<rparr>)"
proof -
  obtain v vcpu where r: "cpu_read C (m_vcpu d) = Ret (v, vcpu)"
    and d': "d' = (case v of None \<Rightarrow> d\<lparr>m_vcpu := vcpu\<rparr>
       | Some (command, data) \<Rightarrow> onReceiveCommand command data (d\<lparr>m_vcpu := vcpu\<rparr>))"
    using assms by (auto simp: vcpuThreadFunction_def omap_eq_Ret)
  show thesis using that r d' by (cases v) auto
qed

lemma onCancelRequest_state:
  "m_subscribers (onCancelRequest s u d) = m_subscribers d"
  "m_messageServer (onCancelRequest s u d) = m_messageServer d" "m_vcpu (onCancelRequest s u d) = m_vcpu d"
  "m_requests (onCancelRequest s u d) =
     (case find (\<lambda>r. fst r = u) (m_requests d) of None \<Rightarrow> m_requests d | Some r \<Rightarrow> remove1 r (m_requests d))"
  using take_first_spec [of "\<lambda>r. fst r = u" "m_requests d"]
  by (cases "take_first (\<lambda>r. fst r = u) (m_requests d)"; auto simp: onCancelRequest_def)+

text \<open>Every event either changes the subscription table in the way of one of these, or not at all.\<close>

lemma daemon_step_table:
  assumes "daemon_step C e d = Ret d'"
  shows "subscribers_at c (m_subscribers d') =
    (case e of
       Message s (Subscribe command) \<Rightarrow>
         if c = command then set_insert s (subscribers_at c (m_subscribers d)) else subscribers_at c (m_subscribers d)
     | Message s (Unsubscribe command) \<Rightarrow>
         if c = command then remove1 s (subscribers_at c (m_subscribers d)) else subscribers_at c (m_subscribers d)
     | Disconnected s \<Rightarrow> remove1 s (subscribers_at c (m_subscribers d))
     | _ \<Rightarrow> subscribers_at c (m_subscribers d))"
proof (cases e)
  case (Message s m)
  then show ?thesis using assms
    by (cases m) (auto simp: onSubscribe_def onUnsubscribe_def onCancelRequest_state
        elim!: onSendCommand_Ret onSendCommandWithDeliveryStatus_Ret onRequest_Ret)
next
  case VcpuRound
  then show ?thesis using assms
    by (auto simp: onReceiveCommand_state elim!: vcpuThreadFunction_Ret split: if_splits)
qed (use assms in \<open>auto simp: onClientConnected_def onClientDisconnected_def Let_def\<close>)

lemma daemon_step_subscriptions:
  assumes "daemon_step C e d = Ret d'" and "daemon_inv d"
  shows "daemon_inv d'" and "subscriptions d' = subscriptions_after e (subscriptions d)"
proof -
  have inv: "is_set (subscribers_at c (m_subscribers d))" for c using assms(2) unfolding daemon_inv_def by blast
  note table = daemon_step_table [OF assms(1)]
  show "daemon_inv d'"
    unfolding daemon_inv_def
  proof (rule allI)
    fix c show "is_set (subscribers_at c (m_subscribers d'))"
      using inv [of c] unfolding table
      by (auto simp: is_set_insert is_set_erase split: daemon_event.split ClientMessage.split)
  qed
  have "x \<in> subscriptions d' \<longleftrightarrow> x \<in> subscriptions_after e (subscriptions d)" for x
  proof (cases e)
    case (Message s m)
    then show ?thesis using inv
      by (cases x; cases m) (auto simp: subscriptions_def table is_set_insert is_set_erase)
  qed (use inv in \<open>cases x; auto simp: subscriptions_def table is_set_insert is_set_erase\<close>)+
  then show "subscriptions d' = subscriptions_after e (subscriptions d)" by blast
qed

lemma daemon_run_subscriptions:
  assumes "daemon_run C es d = Ret d'" and "daemon_inv d"
  shows "daemon_inv d' \<and> subscriptions d' = fold subscriptions_after es (subscriptions d)"
  using assms
proof (induction es arbitrary: d)
  case (Cons e es)
  then obtain d1 where d1: "daemon_step C e d = Ret d1" "daemon_run C es d1 = Ret d'"
    by (auto simp: outcome_eqs)
  show ?case
    using Cons.IH [OF d1(2) daemon_step_subscriptions(1) [OF d1(1) Cons.prems(2)]]
      daemon_step_subscriptions(2) [OF d1(1) Cons.prems(2)] by simp
qed simp

lemma daemon_run_invariant [consumes 1, case_names init step]:
  assumes "daemon_run C es d = Ret d'" and "P d"
    and "\<And>e d d'. e \<in> set es \<Longrightarrow> P d \<Longrightarrow> daemon_step C e d = Ret d' \<Longrightarrow> P d'"
  shows "P d'"
  using assms by (induction es arbitrary: d) (auto simp: outcome_eqs)

text \<open>The messages a daemon has handed to the message server only grow.\<close>

definition sent_since :: "('c, 's, 'u) CpuComDaemon \<Rightarrow> ('c, 's, 'u) CpuComDaemon \<Rightarrow> ('s \<times> 'u DaemonMessage) list" where
  "sent_since d d' = drop (length (m_messageServer d)) (m_messageServer d')"

definition concerns :: "'s \<Rightarrow> ('c, 's, 'u) CpuComDaemon \<Rightarrow> bool" where
  "concerns s d \<longleftrightarrow> (\<exists>command. s \<in> set (subscribers_at command (m_subscribers d))) \<or>
     s \<in> (\<lambda>r. snd (snd r)) ` set (m_requests d)"

fun from_session :: "'s \<Rightarrow> ('s, 'u) daemon_event \<Rightarrow> bool" where
  "from_session s (Message s' m) \<longleftrightarrow> s' = s"
| "from_session s e \<longleftrightarrow> False"


lemma daemon_step_requests:
  assumes "daemon_step C e d = Ret d'"
  shows "set (m_requests d') \<subseteq> set (m_requests d) \<union>
    {(u, rc, s) |u rc s. \<exists>command data. e = Message s (Request u command data rc)}"
proof (cases e)
  case (Message s m)
  then show ?thesis using assms
    by (cases m) (auto simp: onSubscribe_def onUnsubscribe_def onCancelRequest_state
        elim!: onSendCommand_Ret onSendCommandWithDeliveryStatus_Ret onRequest_Ret
        split: option.splits dest: set_remove1_subset [THEN subsetD])
next
  case VcpuRound
  then show ?thesis using assms
    by (auto simp: onReceiveCommand_output elim!: vcpuThreadFunction_Ret
        split: if_splits option.splits dest: set_remove1_subset [THEN subsetD])
qed (use assms in \<open>auto simp: onClientConnected_def onClientDisconnected_def Let_def\<close>)

text \<open>
  What one event hands to the message server: the answer to the client that sent it, or the
  notifications and the response of a received command.
\<close>

lemma daemon_step_output:
  assumes "daemon_step C e d = Ret d'"
  shows "\<exists>new. m_messageServer d' = m_messageServer d @ new \<and>
    (\<forall>(s, m)\<in>set new. (\<exists>m'. e = Message s m') \<or>
      e = VcpuRound \<and> ((\<exists>command data. s \<in> set (subscribers_at command (m_subscribers d)) \<and> m = Notification command data) \<or>
        (\<exists>u command data. (u, command, s) \<in> set (m_requests d) \<and> m = RequestResponse u data)))"
proof (cases e)
  case (Message s m)
  then show ?thesis using assms
    by (cases m) (auto simp: onSubscribe_def onUnsubscribe_def onCancelRequest_state
        elim!: onSendCommand_Ret onSendCommandWithDeliveryStatus_Ret onRequest_Ret)
next
  case VcpuRound
  have f: "find (\<lambda>r. fst (snd r) = command) (m_requests d) = Some r \<Longrightarrow> r \<in> set (m_requests d)" for command r
    by (auto simp: find_Some_iff)
  show ?thesis
  proof (cases "isRunning d")
    case True
    then have "vcpuThreadFunction C d = Ret d'" using assms VcpuRound by simp
    then show ?thesis
    proof (cases rule: vcpuThreadFunction_Ret)
      case (2 command data vcpu)
      show ?thesis
      proof (cases "find (\<lambda>r. fst (snd r) = command) (m_requests d)")
        case None
        then show ?thesis using 2 VcpuRound by (cases command) (auto simp: onReceiveCommand_output)
      next
        case (Some r)
        obtain u c s where r: "r = (u, c, s)" by (cases r)
        from f [OF Some] r have "(u, c, s) \<in> set (m_requests d)" by simp
        then show ?thesis using 2 VcpuRound Some r
          by (cases command; cases c) (auto simp: onReceiveCommand_output)
      qed
    qed simp
  qed (use assms VcpuRound in simp)
qed (use assms in \<open>auto simp: onClientConnected_def onClientDisconnected_def Let_def\<close>)

lemma concerns_step:
  assumes "daemon_step C e d = Ret d'" and "\<not> concerns s d" and "\<not> from_session s e" and "daemon_inv d"
  shows "\<not> concerns s d'"
proof -
  have "s \<notin> set (subscribers_at c (m_subscribers d'))" for c
    using assms(2,3,4) unfolding daemon_step_table [OF assms(1)]
    by (cases c) (auto simp: concerns_def set_insert_def set_insort_key daemon_inv_def
      split: daemon_event.split ClientMessage.split dest: notin_set_remove1)
  moreover have "s \<notin> (\<lambda>r. snd (snd r)) ` set (m_requests d')"
  proof
    assume "s \<in> (\<lambda>r. snd (snd r)) ` set (m_requests d')"
    then obtain u rc where r: "(u, rc, s) \<in> set (m_requests d')" by auto
    have "(u, rc, s) \<notin> set (m_requests d)"
      using assms(2) unfolding concerns_def by (metis image_eqI snd_conv)
    then have "\<exists>command data. e = Message s (Request u command data rc)"
      using r daemon_step_requests [OF assms(1)] by blast
    then show False using assms(3) by auto
  qed
  ultimately show ?thesis by (simp add: concerns_def)
qed

lemma silent_run:
  assumes "daemon_run C es d = Ret d'" and "\<not> concerns s d" and "\<forall>e\<in>set es. \<not> from_session s e" and "daemon_inv d"
  shows "\<exists>new. m_messageServer d' = m_messageServer d @ new \<and> s \<notin> fst ` set new"
  using assms
proof (induction es arbitrary: d)
  case (Cons e es)
  then obtain d1 where d1: "daemon_step C e d = Ret d1" "daemon_run C es d1 = Ret d'"
    by (auto simp: outcome_eqs)
  have "\<not> from_session s e" using Cons.prems(3) by simp
  note c1 = concerns_step [OF d1(1) Cons.prems(2) this Cons.prems(4)]
  obtain new where new: "m_messageServer d1 = m_messageServer d @ new" "s \<notin> fst ` set new"
    using daemon_step_output [OF d1(1)] Cons.prems(2) \<open>\<not> from_session s e\<close>
    by (force simp: concerns_def)
  obtain new' where "m_messageServer d' = m_messageServer d1 @ new'" "s \<notin> fst ` set new'"
    using Cons.IH [OF d1(2) c1] Cons.prems(3) daemon_step_subscriptions(1) [OF d1(1) Cons.prems(4)] by auto
  then show ?case using new by (intro exI [of _ "new @ new'"]) auto
qed simp

section \<open>Counting requests and responses\<close>

fun is_response :: "'u \<Rightarrow> 'u DaemonMessage \<Rightarrow> bool" where
  "is_response u (RequestResponse u' data) \<longleftrightarrow> u' = u"
| "is_response u m \<longleftrightarrow> False"

definition responses :: "'u \<Rightarrow> ('c, 's, 'u) CpuComDaemon \<Rightarrow> nat" where
  "responses u d = length (filter (\<lambda>(s, m). is_response u m) (m_messageServer d))"

definition pending :: "'u \<Rightarrow> ('c, 's, 'u) CpuComDaemon \<Rightarrow> nat" where
  "pending u d = length (filter (\<lambda>r. fst r = u) (m_requests d))"

fun asks :: "'u \<Rightarrow> ('s, 'u) daemon_event \<Rightarrow> bool" where
  "asks u (Message s (Request u' command data responseCommand)) \<longleftrightarrow> u' = u"
| "asks u e \<longleftrightarrow> False"

lemma length_filter_remove1:
  "r \<in> set xs \<Longrightarrow> length (filter P (remove1 r xs)) = length (filter P xs) - (if P r then 1 else 0)"
proof -
  have "r \<in> set xs \<Longrightarrow> length (filter P (remove1 r xs)) + (if P r then 1 else 0) = length (filter P xs)"
    by (induction xs) auto
  then show "r \<in> set xs \<Longrightarrow> ?thesis" by auto
qed

lemma counts_upd [simp]:
  "responses u (d\<lparr>m_vcpu := v\<rparr>) = responses u d" "pending u (d\<lparr>m_vcpu := v\<rparr>) = pending u d"
  by (simp_all add: responses_def pending_def)

lemma filter_nonzero: "r \<in> set xs \<Longrightarrow> P r \<Longrightarrow> 0 < length (filter P xs)"
  by (auto simp: filter_empty_conv)

lemma find_mem: "find P xs = Some r \<Longrightarrow> r \<in> set xs \<and> P r"
  by (auto simp: find_Some_iff)

lemma receive_counts:
  "responses u (onReceiveCommand command data d) + pending u (onReceiveCommand command data d) =
     responses u d + pending u d"
proof (cases "find (\<lambda>r. fst (snd r) = command) (m_requests d)")
  case (Some r)
  obtain u' c s where r: "r = (u', c, s)" by (cases r)
  from find_mem [OF Some] have "r \<in> set (m_requests d)" by simp
  then show ?thesis using Some r filter_nonzero [of r "m_requests d" "\<lambda>r. fst r = u"]
    by (simp add: responses_def pending_def onReceiveCommand_output length_filter_remove1 comp_def)
qed (simp add: responses_def pending_def onReceiveCommand_output comp_def)

lemma cancel_counts:
  "responses u (onCancelRequest s v d) = responses u d \<and>
   pending u (onCancelRequest s v d) = (if u = v then pending u d - 1 else pending u d)"
proof (cases "find (\<lambda>r. fst r = v) (m_requests d)")
  case None
  then have "pending v d = 0" by (auto simp: pending_def filter_empty_conv find_None_iff)
  then show ?thesis using None by (auto simp: responses_def pending_def onCancelRequest_state)
next
  case (Some r)
  then show ?thesis using find_mem [OF Some]
    by (auto simp: responses_def pending_def onCancelRequest_state length_filter_remove1)
qed

lemma daemon_step_counts:
  assumes "daemon_step C e d = Ret d'"
  shows "responses u d' + pending u d' \<le> responses u d + pending u d + (if asks u e then 1 else 0)"
proof (cases e)
  case (Message s m)
  show ?thesis
  proof (cases m)
    case (CancelRequest v)
    then show ?thesis using assms Message cancel_counts [of u s v d] by auto
  qed (use assms Message in \<open>auto simp: onSubscribe_def onUnsubscribe_def responses_def pending_def
        elim!: onSendCommand_Ret onSendCommandWithDeliveryStatus_Ret onRequest_Ret\<close>)
next
  case VcpuRound
  then show ?thesis using assms
    by (auto elim!: vcpuThreadFunction_Ret simp: receive_counts split: if_splits)
next
  case (Disconnected s)
  have "length (filter P (filter Q xs)) \<le> length (filter P xs)" for P Q and xs :: "'x list"
    by (induction xs) auto
  then show ?thesis using assms Disconnected
    by (auto simp: onClientDisconnected_def Let_def responses_def pending_def simp del: filter_filter)
qed (use assms in \<open>auto simp: onClientConnected_def responses_def pending_def\<close>)

lemma daemon_run_counts:
  assumes "daemon_run C es d = Ret d'"
  shows "responses u d' + pending u d' \<le> responses u d + pending u d + length (filter (asks u) es)"
  using assms
proof (induction es arbitrary: d)
  case (Cons e es)
  then obtain d1 where d1: "daemon_step C e d = Ret d1" "daemon_run C es d1 = Ret d'"
    by (auto simp: outcome_eqs)
  show ?case using Cons.IH [OF d1(2)] daemon_step_counts [OF d1(1), of u] by (auto split: if_splits)
qed simp

lemma daemon_run_output:
  "daemon_run C es d = Ret d' \<Longrightarrow> \<exists>new. m_messageServer d' = m_messageServer d @ new"
proof (induction es arbitrary: d)
  case (Cons e es)
  then obtain d1 where d1: "daemon_step C e d = Ret d1" "daemon_run C es d1 = Ret d'"
    by (auto simp: outcome_eqs)
  show ?case using Cons.IH [OF d1(2)] daemon_step_output [OF d1(1)] by auto
qed simp

section \<open>Over the contract of the CPU\<close>

fun event_data :: "('s, 'u) daemon_event \<Rightarrow> byte list" where
  "event_data (Message s (SendCommand command data)) = data"
| "event_data (Message s (SendCommandWithDeliveryStatus u command data)) = data"
| "event_data (Message s (Request u command data responseCommand)) = data"
| "event_data e = []"

context icpu
begin

text \<open>
  Whatever the clients send, the CPU is ready for the next call after every event, and only the
  thread that reads the CPU can throw.
\<close>

lemma step_ready:
  assumes "ready (m_vcpu d)" and "daemon_step C e d = Ret d'"
  shows "ready (m_vcpu d')"
proof (cases e)
  case (Message s m)
  then show ?thesis using assms write_ready
    by (cases m) (auto simp: onSubscribe_def onUnsubscribe_def onCancelRequest_state
        elim!: onSendCommand_Ret onSendCommandWithDeliveryStatus_Ret onRequest_Ret)
next
  case VcpuRound
  then show ?thesis using assms read_ready
    by (auto elim!: vcpuThreadFunction_Ret simp: onReceiveCommand_state split: if_splits)
qed (use assms in \<open>auto simp: onClientConnected_def onClientDisconnected_def Let_def\<close>)

lemma step_throws:
  assumes "ready (m_vcpu d)" and "length (event_data e) < 2 ^ 32 - 3" and "daemon_step C e d = Throw x"
  shows "e = VcpuRound \<and> (x = Out_of_range \<or> x = Undefined_behaviour)"
proof (cases e)
  case (Message s m)
  then show ?thesis using assms write_throws
    by (cases m) (auto simp: onSendCommand_def onSendCommandWithDeliveryStatus_def onRequest_def
        cpu_write_daemon_def Let_def outcome_eqs)
next
  case VcpuRound
  then show ?thesis using assms read_throws
    by (auto simp: vcpuThreadFunction_def outcome_eqs split: if_splits)
qed (use assms in auto)

lemma run_ready:
  assumes "ready (m_vcpu d)" and "daemon_run C es d = Ret d'"
  shows "ready (m_vcpu d')"
  using assms(2)
proof (induction rule: daemon_run_invariant)
  case (step e d d')
  then show ?case using step_ready by blast
qed (rule assms(1))

lemma run_throws:
  assumes "ready (m_vcpu d)" and "\<forall>e\<in>set es. length (event_data e) < 2 ^ 32 - 3" and "daemon_run C es d = Throw x"
  shows "VcpuRound \<in> set es \<and> (x = Out_of_range \<or> x = Undefined_behaviour)"
  using assms
proof (induction es arbitrary: d)
  case (Cons e es)
  show ?case
  proof (cases "daemon_step C e d")
    case (Ret d1)
    then show ?thesis using Cons.IH [of d1] Cons.prems step_ready [of d e d1] by auto
  next
    case (Throw y)
    then show ?thesis using Cons.prems step_throws [of d e y] by auto
  qed (use Cons.prems in auto)
qed simp

end

end
