(* ===== verification/DaemonProperties.thy ===== *)
theory DaemonProperties
  imports Daemon
begin

text \<open>
  What the daemon promises its clients, over any CPU: its subscription table is the relation the
  clients built, a received command goes to exactly the subscribers and to the oldest request that
  waits for it, a client that left hears nothing, and a request is answered at most once and never
  after it was cancelled. The witnesses use a CPU that delivers a list of commands.
\<close>

definition script_cpu :: "(CpuCommand \<times> byte list) list ICPU" where
  "script_cpu = \<lparr>
     cpu_initialize = (\<lambda>c. (True, c)),
     cpu_read = (\<lambda>c. case c of [] \<Rightarrow> Ret (None, []) | x # xs \<Rightarrow> Ret (Some x, xs)),
     cpu_write = (\<lambda>c command data. Ret (True, c))\<rparr>"

lemmas daemon_run_simps =
  script_cpu_def vcpuThreadFunction_def onReceiveCommand_def snapshot_subscribers_def
  take_request_def onSubscribe_def onUnsubscribe_def onRequest_def onCancelRequest_def
  onClientConnected_def onClientDisconnected_def onSendCommand_def onSendCommandWithDeliveryStatus_def
  cpu_write_daemon_def subscribers_at_def set_insert_def isRunning_def Let_def CpuComDaemon_new_def
  daemon_start_def

definition running_daemon :: "(CpuCommand \<times> byte list) list \<Rightarrow> ((CpuCommand \<times> byte list) list, nat, nat) CpuComDaemon"
  where
  "running_daemon script = snd (daemon_start script_cpu True (CpuComDaemon_new script))"

lemma script_returns: "\<exists>d'. daemon_run script_cpu es d = Ret d'"
proof (induction es arbitrary: d)
  case (Cons e es)
  have "\<exists>d1. daemon_step script_cpu e d = Ret d1"
  proof (cases e)
    case (Message s m)
    then show ?thesis by (cases m) (simp_all add: script_cpu_def onSendCommand_def
      onSendCommandWithDeliveryStatus_def onRequest_def cpu_write_daemon_def Let_def)
  next
    case VcpuRound
    then show ?thesis by (simp add: script_cpu_def vcpuThreadFunction_def split: list.split)
  qed simp_all
  then show ?case using Cons.IH by (elim exE) simp
qed simp

lemma running_daemon_inv: "daemon_inv (running_daemon script)" "subscriptions (running_daemon script) = {}"
  by (simp_all add: running_daemon_def daemon_start_def script_cpu_def CpuComDaemon_new_def
      daemon_inv_def subscriptions_def subscribers_at_def is_set_def)

section \<open>Properties\<close>

text \<open>
  C16: the daemon's table of subscribers, a map to ordered sets, refines the relation between
  sessions and commands: after any run it is well formed, and it is the relation that the
  subscribe, unsubscribe and disconnect events of the run build.
\<close>

theorem daemon_subscriptions:
  assumes "daemon_run C es d = Ret d'" and "daemon_inv d"
  shows "daemon_inv d' \<and> subscriptions d' = fold subscriptions_after es (subscriptions d)"
  by (rule daemon_run_subscriptions [OF assms])

lemma daemon_subscriptions_witness:
  "\<exists>d'. daemon_run script_cpu [Message 2 (Subscribe (1, 1)), Message 1 (Subscribe (1, 1)), Disconnected 2]
      (running_daemon []) = Ret d' \<and> subscriptions d' = {(1, (1, 1))}"
proof -
  let ?es = "[Message 2 (Subscribe (1, 1)), Message 1 (Subscribe (1, 1)), Disconnected (2::nat)]"
  obtain d' where d': "daemon_run script_cpu ?es (running_daemon []) = Ret d'"
    using script_returns by blast
  have "subscriptions d' = {x \<in> {(1, (1, 1)), (2, (1, 1))}. fst x \<noteq> 2}"
    using daemon_subscriptions [OF d' running_daemon_inv(1)] unfolding running_daemon_inv(2) by simp
  also have "\<dots> = {(1, (1, 1))}" by auto
  finally show ?thesis using d' by blast
qed

text \<open>
  C17: a command received from the V-CPU is handed, with its data, to every session subscribed to
  it, once each and in the order of the sessions, and to nobody else; then the oldest request that
  waits for the command, if there is one, gets the data as its response and is forgotten.
\<close>

theorem daemon_delivers:
  assumes "daemon_inv d"
  shows "m_messageServer (onReceiveCommand command data d) = m_messageServer d @
      map (\<lambda>s. (s, Notification command data)) (sorted_list_of_set {s. (s, command) \<in> subscriptions d}) @
      (case find (\<lambda>r. fst (snd r) = command) (m_requests d) of
         None \<Rightarrow> [] | Some (u, _, s) \<Rightarrow> [(s, RequestResponse u data)]) \<and>
    m_requests (onReceiveCommand command data d) =
      (case find (\<lambda>r. fst (snd r) = command) (m_requests d) of
         None \<Rightarrow> m_requests d | Some r \<Rightarrow> remove1 r (m_requests d)) \<and>
    subscriptions (onReceiveCommand command data d) = subscriptions d"
proof -
  have "is_set (subscribers_at command (m_subscribers d))" using assms unfolding daemon_inv_def by blast
  then have "sorted_list_of_set {s. (s, command) \<in> subscriptions d} = subscribers_at command (m_subscribers d)"
    by (simp add: subscriptions_def is_set_unique)
  then show ?thesis by (simp add: onReceiveCommand_output onReceiveCommand_state subscriptions_def)
qed

lemma daemon_delivers_witness:
  "\<exists>d. daemon_run script_cpu [Message 3 (Subscribe (1, 1)), Message 2 (Subscribe (1, 1)),
       Message 7 (Request 10 (5, 5) [] (1, 1)), Message 8 (Request 11 (5, 5) [] (1, 1))] (running_daemon []) = Ret d \<and>
    m_messageServer (onReceiveCommand (1, 1) [9] d) =
      [(2, Notification (1, 1) [9]), (3, Notification (1, 1) [9]), (7, RequestResponse 10 [9])]"
proof -
  let ?es = "[Message 3 (Subscribe (1, 1)), Message 2 (Subscribe (1, 1)),
       Message 7 (Request 10 (5, 5) [] (1, 1)), Message (8::nat) (Request (11::nat) (5, 5) [] (1, 1))]"
  obtain d where d: "daemon_run script_cpu ?es (running_daemon []) = Ret d" and
    st: "m_messageServer d = []" "m_requests d = [(10, (1, 1), 7), (11, (1, 1), 8)]"
    by (simp add: running_daemon_def daemon_run_simps)
  have inv: "daemon_inv d" and subs: "{s. (s, (1, 1)) \<in> subscriptions d} = {2, 3}"
    using daemon_run_subscriptions [OF d running_daemon_inv(1)] by (auto simp: running_daemon_inv(2))
  have "sorted_list_of_set {2, 3 :: nat} = [2, 3]" by simp
  then show ?thesis using daemon_delivers [OF inv, of "(1, 1)" "[9]"] d st unfolding subs by simp
qed

text \<open>
  After a session has disconnected, no message is handed to the server for it, whatever the
  other clients and the V-CPU do, until it sends a message again.
\<close>

lemma daemon_forgets_session:
  assumes "daemon_run C (Disconnected s # es) d = Ret d'" and "daemon_inv d"
    and "\<forall>e\<in>set es. \<not> from_session s e"
  shows "\<exists>new. m_messageServer d' = m_messageServer d @ new \<and> s \<notin> fst ` set new"
proof -
  let ?d = "onClientDisconnected s d"
  have run: "daemon_run C es ?d = Ret d'" using assms(1) by simp
  have step: "daemon_step C (Disconnected s) d = Ret ?d" by simp
  have "daemon_inv ?d" by (rule daemon_step_subscriptions(1) [OF step assms(2)])
  moreover have "\<not> concerns s ?d"
    using assms(2) unfolding daemon_inv_def concerns_def
    by (auto simp: onClientDisconnected_def Let_def is_set_def)
  moreover have "m_messageServer ?d = m_messageServer d"
    by (simp add: onClientDisconnected_def Let_def)
  ultimately show ?thesis using silent_run [OF run _ assms(3)] by simp
qed



text \<open>
  A request with an identifier of its own that is cancelled while it waits is not answered
  later.
\<close>

lemma daemon_cancels:
  assumes "daemon_run C (Message s (CancelRequest u) # es) d = Ret d'" and "pending u d \<le> 1"
    and "\<forall>e\<in>set es. \<not> asks u e"
  shows "responses u d' = responses u d"
proof -
  have "length (filter (asks u) es) = 0" using assms(3) by simp
  then have "responses u d' + pending u d' \<le> responses u d + (pending u d - 1)"
    using daemon_run_counts [of C es "onCancelRequest s u d" d' u] assms(1) cancel_counts [of u s u d] by simp
  moreover have "responses u d \<le> responses u d'"
    using daemon_run_output [OF assms(1)] by (auto simp: responses_def)
  ultimately show ?thesis using assms(2) by simp
qed

end
