(* ===== verification/ClientInterface.thy ===== *)
theory ClientInterface
  imports DaemonProperties
begin

text \<open>
  What the daemon relies on from a client library, and what a library's user relies on from both: the
  messages the library sends tell the daemon of the commands it wants to hear. The contract is the
  locale \<open>subscribing_client\<close>; both libraries meet it (\<open>ClientV2\<close>, \<open>ClientV1\<close>).
\<close>

text \<open>The commands a list of messages leaves its sender subscribed to.\<close>

fun subscribed_by :: "'u ClientMessage \<Rightarrow> CpuCommand set \<Rightarrow> CpuCommand set" where
  "subscribed_by (Subscribe command) A = insert command A"
| "subscribed_by (Unsubscribe command) A = A - {command}"
| "subscribed_by m A = A"

lemma subscribed_by_fold:
  "{command. (s, command) \<in> fold subscriptions_after (map (Message s) ms) A} =
     fold subscribed_by ms {command. (s, command) \<in> A}"
proof (induction ms arbitrary: A)
  case (Cons m ms)
  have "{command. (s, command) \<in> subscriptions_after (Message s m) A} = subscribed_by m {command. (s, command) \<in> A}"
    by (cases m) auto
  then show ?case using Cons.IH by simp
qed simp

lemma fold_subscribe: "fold subscribed_by (map Subscribe xs) A = set xs \<union> A"
  by (induction xs arbitrary: A) auto

text \<open>To a daemon that knows nothing of the session, the messages of one client.\<close>

lemma session_subscribed:
  assumes "daemon_run C (map (Message s) ms) d = Ret d'" and "daemon_inv d" and "\<forall>command. (s, command) \<notin> subscriptions d"
  shows "{command. (s, command) \<in> subscriptions d'} = fold subscribed_by ms {}"
proof -
  have none: "{command. (s, command) \<in> subscriptions d} = {}" using assms(3) by blast
  show ?thesis using daemon_run_subscriptions [OF assms(1,2)] by (simp only: subscribed_by_fold none)
qed

text \<open>A run of steps that can fail.\<close>

fun steps :: "('e \<Rightarrow> 'c \<Rightarrow> 'c outcome) \<Rightarrow> 'e list \<Rightarrow> 'c \<Rightarrow> 'c outcome" where
  "steps step [] c = Ret c"
| "steps step (e # es) c = obind (step e c) (steps step es)"

locale subscribing_client =
  fixes step :: "'e \<Rightarrow> 'c \<Rightarrow> 'c outcome" and sent :: "'c \<Rightarrow> 'u ClientMessage list"
    and wants :: "'c \<Rightarrow> CpuCommand set" and ok :: "'c \<Rightarrow> bool"
  assumes step_told: "ok c \<Longrightarrow> fold subscribed_by (sent c) {} = wants c \<Longrightarrow> step e c = Ret c' \<Longrightarrow>
    ok c' \<and> fold subscribed_by (sent c') {} = wants c'"
begin

lemma steps_told:
  "steps step es c = Ret c' \<Longrightarrow> ok c \<Longrightarrow> fold subscribed_by (sent c) {} = wants c \<Longrightarrow>
     ok c' \<and> fold subscribed_by (sent c') {} = wants c'"
  by (induction es arbitrary: c) (auto simp: obind_eq_Ret dest: step_told)

lemma daemon_agrees:
  assumes "steps step es c = Ret c'" and "ok c" and "fold subscribed_by (sent c) {} = wants c"
    and "daemon_run C (map (Message s) (sent c')) d = Ret d'" and "daemon_inv d" and "\<forall>command. (s, command) \<notin> subscriptions d"
  shows "{command. (s, command) \<in> subscriptions d'} = wants c'"
  using session_subscribed [OF assms(4-6)] steps_told [OF assms(1-3)] by simp

end

end
