(* ===== verification/ClientV2.thy ===== *)
theory ClientV2
  imports ClientInterface "HOL-Library.Product_Lexorder"
begin

text \<open>
  The client library, version 2 (\<^verbatim>\<open>libCpuCom/src/CpuComImpl_v2.cpp\<close>): the class
  \<^verbatim>\<open>v2::CpuCom\<close> with its callbacks, pending requests and delivery callbacks, the response
  object \<^verbatim>\<open>CpuComResponse\<close>, and the messages of \<^verbatim>\<open>CpuComMessenger\<close>. The messenger itself
  is \<^verbatim>\<open>common::Messenger\<close>, which is not part of the repository: it is the list of messages
  handed to it. A fresh \<^verbatim>\<open>UUID\<close> is an argument of the call that makes one. Callbacks are
  values of a type \<open>'cb\<close>, possibly empty like a \<^verbatim>\<open>std::function\<close>; the calls made on them
  are recorded.
\<close>

section \<open>State\<close>

datatype 'cb client_call =
    CommandCall 'cb CpuCommand "byte list"
  | ErrorCall 'cb CpuCommand int
  | StatusCall 'cb bool
  | ClosedCall 'cb

text \<open>
  \<open>v2_requests\<close> are the keys of \<^verbatim>\<open>m_requests\<close>; the value a promise was given lives in the
  shared state of its future, \<open>m_promises\<close>.
\<close>

record ('u, 'cb) CpuCom =
  m_messenger :: "'u ClientMessage list"
  m_callbacks :: "CpuCommand \<rightharpoonup> 'cb option"
  v2_requests :: "'u set"
  m_promises :: "'u \<rightharpoonup> byte list"
  m_deliveryStatusCallbacks :: "'u \<rightharpoonup> 'cb option"
  m_errorCallback :: "'cb option"
  m_onConnectionClosed :: "'cb option"
  m_calls :: "'cb client_call list"

definition CpuCom_new :: "('u, 'cb) CpuCom" where
  "CpuCom_new = \<lparr>m_messenger = [], m_callbacks = Map.empty, v2_requests = {}, m_promises = Map.empty,
     m_deliveryStatusCallbacks = Map.empty, m_errorCallback = None, m_onConnectionClosed = None, m_calls = []\<rparr>"

definition post :: "'u ClientMessage \<Rightarrow> ('u, 'cb) CpuCom \<Rightarrow> ('u, 'cb) CpuCom" where
  "post m c = c\<lparr>m_messenger := m_messenger c @ [m]\<rparr>"

definition call :: "('cb \<Rightarrow> 'cb client_call) \<Rightarrow> 'cb option \<Rightarrow> ('u, 'cb) CpuCom \<Rightarrow> ('u, 'cb) CpuCom" where
  "call f callback c = (case callback of None \<Rightarrow> c | Some cb \<Rightarrow> c\<lparr>m_calls := m_calls c @ [f cb]\<rparr>)"

section \<open>Methods\<close>

definition initialize :: "'cb option \<Rightarrow> 'cb option \<Rightarrow> ('u, 'cb) CpuCom \<Rightarrow> ('u, 'cb) CpuCom" where
  "initialize errorCallback onConnectionClosed c =
     c\<lparr>m_errorCallback := errorCallback, m_onConnectionClosed := onConnectionClosed\<rparr>"

text \<open>The two handlers that \<open>initialize\<close> gives to the messenger.\<close>

definition onConnectionClosedHandler :: "('u, 'cb) CpuCom \<Rightarrow> ('u, 'cb) CpuCom" where
  "onConnectionClosedHandler c = call ClosedCall (m_onConnectionClosed c) c"

definition onConnectionResumedHandler :: "('u, 'cb) CpuCom \<Rightarrow> ('u, 'cb) CpuCom" where
  "onConnectionResumedHandler c =
     fold (\<lambda>command. post (Subscribe command)) (sorted_list_of_set (dom (m_callbacks c))) c"

definition client_send :: "CpuCommand \<Rightarrow> byte list \<Rightarrow> ('u, 'cb) CpuCom \<Rightarrow> ('u, 'cb) CpuCom" where
  "client_send command data c = post (SendCommand command data) c"

text \<open>\<^verbatim>\<open>std::map::insert\<close> keeps what the key already has.\<close>

definition map_insert :: "'k \<Rightarrow> 'v \<Rightarrow> ('k \<rightharpoonup> 'v) \<Rightarrow> ('k \<rightharpoonup> 'v)" where
  "map_insert k v m = (if m k = None then m(k \<mapsto> v) else m)"

definition client_send_status ::
    "'u \<Rightarrow> CpuCommand \<Rightarrow> byte list \<Rightarrow> 'cb option \<Rightarrow> ('u, 'cb) CpuCom \<Rightarrow> ('u, 'cb) CpuCom" where
  "client_send_status uid command data callback c =
     post (SendCommandWithDeliveryStatus uid command data)
       (c\<lparr>m_deliveryStatusCallbacks := map_insert uid callback (m_deliveryStatusCallbacks c)\<rparr>)"

definition client_request ::
    "'u \<Rightarrow> CpuCommand \<Rightarrow> byte list \<Rightarrow> CpuCommand \<Rightarrow> ('u, 'cb) CpuCom \<Rightarrow> ('u, 'cb) CpuCom" where
  "client_request uid requestCommand requestData responseCommand c =
     post (Request uid requestCommand requestData responseCommand)
       (c\<lparr>v2_requests := insert uid (v2_requests c)\<rparr>)"

text \<open>The cleanup function that the destructor of a response calls.\<close>

definition cleanup :: "'u \<Rightarrow> ('u, 'cb) CpuCom \<Rightarrow> ('u, 'cb) CpuCom" where
  "cleanup uid c =
     (let canceled = uid \<in> v2_requests c;
          c = c\<lparr>v2_requests := v2_requests c - {uid}\<rparr>
      in if canceled then post (CancelRequest uid) c else c)"

definition client_subscribe :: "CpuCommand \<Rightarrow> 'cb option \<Rightarrow> ('u, 'cb) CpuCom \<Rightarrow> ('u, 'cb) CpuCom" where
  "client_subscribe command callback c =
     (if m_callbacks c command = None
      then post (Subscribe command) (c\<lparr>m_callbacks := (m_callbacks c)(command \<mapsto> callback)\<rparr>)
      else c)"

definition client_subscribe_all ::
    "CpuCommand list \<Rightarrow> 'cb option \<Rightarrow> ('u, 'cb) CpuCom \<Rightarrow> ('u, 'cb) CpuCom" where
  "client_subscribe_all commands callback c = fold (\<lambda>command. client_subscribe command callback) commands c"

definition client_unsubscribe :: "CpuCommand \<Rightarrow> ('u, 'cb) CpuCom \<Rightarrow> ('u, 'cb) CpuCom" where
  "client_unsubscribe command c =
     post (Unsubscribe command) (c\<lparr>m_callbacks := (m_callbacks c)(command := None)\<rparr>)"

definition client_unsubscribe_all :: "CpuCommand list \<Rightarrow> ('u, 'cb) CpuCom \<Rightarrow> ('u, 'cb) CpuCom" where
  "client_unsubscribe_all commands c = fold client_unsubscribe commands c"

definition onNotification :: "CpuCommand \<Rightarrow> byte list \<Rightarrow> ('u, 'cb) CpuCom \<Rightarrow> ('u, 'cb) CpuCom" where
  "onNotification command data c =
     call (\<lambda>cb. CommandCall cb command data)
       (case m_callbacks c command of None \<Rightarrow> None | Some callback \<Rightarrow> callback) c"

definition onSendCommandResult :: "CpuCommand \<Rightarrow> int \<Rightarrow> ('u, 'cb) CpuCom \<Rightarrow> ('u, 'cb) CpuCom" where
  "onSendCommandResult command result c = call (\<lambda>cb. ErrorCall cb command result) (m_errorCallback c) c"

definition onRequestResponse :: "'u \<Rightarrow> byte list \<Rightarrow> ('u, 'cb) CpuCom \<Rightarrow> ('u, 'cb) CpuCom" where
  "onRequestResponse uid data c =
     (let c = (if uid \<in> v2_requests c then c\<lparr>m_promises := (m_promises c)(uid \<mapsto> data)\<rparr> else c)
      in c\<lparr>v2_requests := v2_requests c - {uid}\<rparr>)"

text \<open>\<^verbatim>\<open>m_deliveryStatusCallbacks[uid]\<close> of an absent key is an empty callback.\<close>

definition onDeliveryStatus :: "'u \<Rightarrow> bool \<Rightarrow> ('u, 'cb) CpuCom \<Rightarrow> ('u, 'cb) CpuCom" where
  "onDeliveryStatus uid status c =
     (let callback = (case m_deliveryStatusCallbacks c uid of None \<Rightarrow> None | Some callback \<Rightarrow> callback);
          c = c\<lparr>m_deliveryStatusCallbacks := (m_deliveryStatusCallbacks c)(uid := None)\<rparr>
      in call (\<lambda>cb. StatusCall cb status) callback c)"

text \<open>The destructor gives every waiting request an empty answer.\<close>

definition CpuCom_delete :: "('u, 'cb) CpuCom \<Rightarrow> ('u, 'cb) CpuCom" where
  "CpuCom_delete c =
     c\<lparr>m_promises := (\<lambda>uid. if uid \<in> v2_requests c then Some [] else m_promises c uid), v2_requests := {}\<rparr>"

section \<open>Responses\<close>

text \<open>
  A response owns a future until its value has been taken. \<^verbatim>\<open>data\<close> waits for the value;
  a second call is an error of the caller, \<^verbatim>\<open>std::future_error\<close>.
\<close>

record 'u CpuComResponse =
  m_id :: 'u
  m_valid :: bool

definition response_data ::
    "('u, 'cb) CpuCom \<Rightarrow> 'u CpuComResponse \<Rightarrow> (byte list \<times> 'u CpuComResponse) outcome" where
  "response_data c r =
     (if \<not> m_valid r then Throw Invalid_argument
      else case m_promises c (m_id r) of None \<Rightarrow> Blocked | Some data \<Rightarrow> Ret (data, r\<lparr>m_valid := False\<rparr>))"

definition response_delete :: "'u CpuComResponse \<Rightarrow> ('u, 'cb) CpuCom \<Rightarrow> ('u, 'cb) CpuCom" where
  "response_delete r c = cleanup (m_id r) c"

section \<open>Events\<close>

datatype ('u, 'cb) client_event =
    Send CpuCommand "byte list"
  | SendStatus 'u CpuCommand "byte list" "'cb option"
  | MakeRequest 'u CpuCommand "byte list" CpuCommand
  | DropResponse 'u
  | SubscribeTo CpuCommand "'cb option"
  | UnsubscribeFrom CpuCommand
  | Incoming "'u DaemonMessage"
  | ConnectionClosed
  | ConnectionResumed

text \<open>The handlers that \<open>initialize\<close> registers with the messenger, by message.\<close>

fun client_receive :: "(error \<Rightarrow> int) \<Rightarrow> 'u DaemonMessage \<Rightarrow> ('u, 'cb) CpuCom \<Rightarrow> ('u, 'cb) CpuCom" where
  "client_receive code (Notification command data) c = onNotification command data c"
| "client_receive code (RequestResponse u data) c = onRequestResponse u data c"
| "client_receive code (SendCommandResult command e) c = onSendCommandResult command (code e) c"
| "client_receive code (DeliveryStatus u status) c = onDeliveryStatus u status c"

fun client_step :: "(error \<Rightarrow> int) \<Rightarrow> ('u, 'cb) client_event \<Rightarrow> ('u, 'cb) CpuCom \<Rightarrow> ('u, 'cb) CpuCom" where
  "client_step code (Send command data) c = client_send command data c"
| "client_step code (SendStatus u command data cb) c = client_send_status u command data cb c"
| "client_step code (MakeRequest u command data resp) c = client_request u command data resp c"
| "client_step code (DropResponse u) c = cleanup u c"
| "client_step code (SubscribeTo command cb) c = client_subscribe command cb c"
| "client_step code (UnsubscribeFrom command) c = client_unsubscribe command c"
| "client_step code (Incoming m) c = client_receive code m c"
| "client_step code ConnectionClosed c = onConnectionClosedHandler c"
| "client_step code ConnectionResumed c = onConnectionResumedHandler c"

definition client_run :: "(error \<Rightarrow> int) \<Rightarrow> ('u, 'cb) client_event list \<Rightarrow> ('u, 'cb) CpuCom \<Rightarrow> ('u, 'cb) CpuCom" where
  "client_run code es c = fold (client_step code) es c"

section \<open>The messages and the table of callbacks\<close>

lemma post_simps [simp]:
  "m_messenger (post m c) = m_messenger c @ [m]" "m_callbacks (post m c) = m_callbacks c"
  "v2_requests (post m c) = v2_requests c" "m_promises (post m c) = m_promises c"
  "m_deliveryStatusCallbacks (post m c) = m_deliveryStatusCallbacks c" "m_calls (post m c) = m_calls c"
  by (simp_all add: post_def)

lemma call_simps [simp]:
  "m_messenger (call f cb c) = m_messenger c" "m_callbacks (call f cb c) = m_callbacks c"
  "v2_requests (call f cb c) = v2_requests c" "m_promises (call f cb c) = m_promises c"
  "m_deliveryStatusCallbacks (call f cb c) = m_deliveryStatusCallbacks c"
  by (simp_all add: call_def split: option.split)

lemma post_all_simps [simp]:
  "m_messenger (fold (\<lambda>x. post (f x)) xs c) = m_messenger c @ map f xs"
  "m_callbacks (fold (\<lambda>x. post (f x)) xs c) = m_callbacks c"
  "v2_requests (fold (\<lambda>x. post (f x)) xs c) = v2_requests c"
  "m_promises (fold (\<lambda>x. post (f x)) xs c) = m_promises c"
  by (induction xs arbitrary: c) simp_all

lemmas client_defs = initialize_def onConnectionClosedHandler_def onConnectionResumedHandler_def
  client_send_def client_send_status_def client_request_def cleanup_def client_subscribe_def
  client_unsubscribe_def onNotification_def onSendCommandResult_def onRequestResponse_def
  onDeliveryStatus_def Let_def

lemma finite_callbacks:
  "finite (dom (m_callbacks c)) \<Longrightarrow> finite (dom (m_callbacks (client_step code e c)))"
proof (cases e)
  case (Incoming m)
  then show "finite (dom (m_callbacks c)) \<Longrightarrow> ?thesis" by (cases m) (simp_all add: client_defs)
qed (simp_all add: client_defs)

lemma client_step_subscribed:
  assumes "fold subscribed_by (m_messenger c) {} = dom (m_callbacks c)" and "finite (dom (m_callbacks c))"
  shows "fold subscribed_by (m_messenger (client_step code e c)) {} = dom (m_callbacks (client_step code e c))"
proof (cases e)
  case (Incoming m)
  then show ?thesis using assms by (cases m) (simp_all add: client_defs)
next
  case ConnectionResumed
  then show ?thesis using assms by (simp add: client_defs fold_subscribe)
qed (use assms in \<open>auto simp: client_defs\<close>)

interpretation v2: subscribing_client "\<lambda>e c. Ret (client_step code e c)" m_messenger "\<lambda>c. dom (m_callbacks c)"
  "\<lambda>c. finite (dom (m_callbacks c))"
proof unfold_locales
  fix c :: "('u, 'cb) CpuCom" and c' e
  assume "finite (dom (m_callbacks c))" "fold subscribed_by (m_messenger c) {} = dom (m_callbacks c)" "Ret (client_step code e c) = Ret c'"
  then show "finite (dom (m_callbacks c')) \<and> fold subscribed_by (m_messenger c') {} = dom (m_callbacks c')"
    using client_step_subscribed finite_callbacks by (metis outcome.inject)
qed

lemma client_steps: "steps (\<lambda>e c. Ret (client_step code e c)) es c = Ret (client_run code es c)"
  by (induction es arbitrary: c) (simp_all add: client_run_def)

lemma client_run_subscribed:
  "fold subscribed_by (m_messenger (client_run code es CpuCom_new)) {} =
     dom (m_callbacks (client_run code es CpuCom_new)) \<and>
   finite (dom (m_callbacks (client_run code es CpuCom_new)))"
  using v2.steps_told [OF client_steps, of CpuCom_new code es] by (simp add: CpuCom_new_def)

section \<open>The requests\<close>

text \<open>
  A request is waiting, answered or cancelled, and only one of these.
\<close>

definition request_state :: "'u \<Rightarrow> ('u, 'cb) CpuCom \<Rightarrow> nat" where
  "request_state u c = (if u \<in> v2_requests c then 1 else 0) + (if m_promises c u \<noteq> None then 1 else 0) +
     length (filter (\<lambda>m. m = CancelRequest u) (m_messenger c))"

fun makes :: "'u \<Rightarrow> ('u, 'cb) client_event \<Rightarrow> bool" where
  "makes u (MakeRequest u' command data resp) \<longleftrightarrow> u' = u"
| "makes u e \<longleftrightarrow> False"

lemma request_state_step:
  assumes "\<not> makes u e" and "u \<in> v2_requests c \<longrightarrow> m_promises c u = None"
  shows "request_state u (client_step code e c) = request_state u c \<and>
    (u \<in> v2_requests (client_step code e c) \<longrightarrow> m_promises (client_step code e c) u = None)"
proof (cases e)
  case (Incoming m)
  then show ?thesis using assms by (cases m) (auto simp: client_defs request_state_def)
qed (use assms in \<open>auto simp: client_defs request_state_def filter_empty_conv\<close>)

lemma request_state_make:
  assumes "makes u e" and "request_state u c = 0"
  shows "request_state u (client_step code e c) = 1 \<and>
    (u \<in> v2_requests (client_step code e c) \<longrightarrow> m_promises (client_step code e c) u = None)"
  using assms by (cases e) (auto simp: client_defs request_state_def split: if_splits)

lemma request_state_run:
  assumes "length (filter (makes u) es) \<le> 1"
  shows "request_state u (client_run code es CpuCom_new) = length (filter (makes u) es) \<and>
    (u \<in> v2_requests (client_run code es CpuCom_new) \<longrightarrow> m_promises (client_run code es CpuCom_new) u = None)"
  using assms
proof (induction es rule: rev_induct)
  case Nil
  then show ?case by (simp add: client_run_def CpuCom_new_def request_state_def)
next
  case (snoc e es)
  let ?c = "client_run code es CpuCom_new"
  have "length (filter (makes u) es) \<le> 1" using snoc.prems by simp
  note IH = snoc.IH [OF this]
  show ?case
  proof (cases "makes u e")
    case True
    with snoc.prems have "length (filter (makes u) es) = 0" by simp
    then show ?thesis using IH request_state_make [OF True, of ?c code] True by (simp add: client_run_def)
  next
    case False
    then show ?thesis using IH request_state_step [OF False, of ?c code] by (simp add: client_run_def)
  qed
qed

section \<open>Properties\<close>

text \<open>
  C18: the client and the daemon agree: when the daemon has handled the messages of a client, in
  order, the client's session is subscribed to exactly the commands it holds a callback for.
\<close>

theorem subscriptions_agree:
  assumes "daemon_run C (map (Message s) (m_messenger (client_run code es CpuCom_new))) d = Ret d'"
    and "daemon_inv d" and "\<forall>command. (s, command) \<notin> subscriptions d"
  shows "{command. (s, command) \<in> subscriptions d'} = dom (m_callbacks (client_run code es CpuCom_new))"
  using v2.daemon_agrees [OF client_steps _ _ assms] by (simp add: CpuCom_new_def)

lemma subscriptions_agree_witness:
  "\<exists>d'. daemon_run script_cpu (map (Message (3::nat)) (m_messenger (client_run (\<lambda>e. 1)
      [SubscribeTo (1, 1) (Some ''a''), SubscribeTo (1, 2) None, UnsubscribeFrom (1, 1), ConnectionResumed] CpuCom_new)))
      (running_daemon []) = Ret d' \<and>
    {command. (3, command) \<in> subscriptions d'} = {(1, 2)}"
proof -
  let ?c = "client_run (\<lambda>e. 1) [SubscribeTo (1, 1) (Some ''a''), SubscribeTo (1, 2) None,
      UnsubscribeFrom (1, 1), ConnectionResumed] CpuCom_new :: (nat, string) CpuCom"
  obtain d' where d': "daemon_run script_cpu (map (Message (3::nat)) (m_messenger ?c)) (running_daemon []) = Ret d'"
    using script_returns by blast
  have "dom (m_callbacks ?c) = {(1, 2)}"
    by (auto simp: client_run_def client_defs CpuCom_new_def dom_def)
  then show ?thesis using subscriptions_agree [OF d' running_daemon_inv(1)] d'
    by (auto simp: running_daemon_inv(2))
qed

text \<open>
  When the connection comes back, under whatever session, the messages the client sends restore
  its subscriptions at a daemon that knows nothing of it.
\<close>

lemma subscriptions_restored:
  assumes "daemon_run C (map (Message s) (m_messenger (onConnectionResumedHandler ((client_run code es CpuCom_new)\<lparr>m_messenger := []\<rparr>)))) d = Ret d'"
    and "daemon_inv d" and "\<forall>command. (s, command) \<notin> subscriptions d"
  shows "{command. (s, command) \<in> subscriptions d'} = dom (m_callbacks (client_run code es CpuCom_new))"
proof -
  have "m_messenger (onConnectionResumedHandler ((client_run code es CpuCom_new)\<lparr>m_messenger := []\<rparr>)) =
      map Subscribe (sorted_list_of_set (dom (m_callbacks (client_run code es CpuCom_new))))"
    by (simp add: onConnectionResumedHandler_def)
  then show ?thesis
    using session_subscribed [OF assms] client_run_subscribed [of code es] by (simp only: fold_subscribe) simp
qed

text \<open>
  C24: a request made once is at any time in exactly one of three states: waiting, answered, or
  cancelled at the daemon. So the client cancels only what was not answered, and an answer that
  comes after a cancellation is dropped.
\<close>

theorem request_partition:
  assumes "length (filter (makes u) es) = 1"
  shows "(u \<in> v2_requests (client_run code es CpuCom_new) \<and> m_promises (client_run code es CpuCom_new) u = None \<and>
      CancelRequest u \<notin> set (m_messenger (client_run code es CpuCom_new))) \<or>
    (u \<notin> v2_requests (client_run code es CpuCom_new) \<and> m_promises (client_run code es CpuCom_new) u \<noteq> None \<and>
      CancelRequest u \<notin> set (m_messenger (client_run code es CpuCom_new))) \<or>
    (u \<notin> v2_requests (client_run code es CpuCom_new) \<and> m_promises (client_run code es CpuCom_new) u = None \<and>
      CancelRequest u \<in> set (m_messenger (client_run code es CpuCom_new)))"
proof -
  let ?c = "client_run code es CpuCom_new"
  have s: "request_state u ?c = 1" using request_state_run [of u es code] assms by simp
  have f: "length (filter (\<lambda>m. m = CancelRequest u) (m_messenger ?c)) = 0 \<longleftrightarrow> CancelRequest u \<notin> set (m_messenger ?c)"
    by (auto simp: filter_empty_conv)
  show ?thesis
    using s f unfolding request_state_def by (auto split: if_splits)
qed

lemma request_partition_witness:
  "m_promises (client_run (\<lambda>e. 1) [MakeRequest (7::nat) (1, 1) [] (1, 2), Incoming (RequestResponse 7 [9]), DropResponse 7]
      (CpuCom_new :: (nat, string) CpuCom)) 7 = Some [9] \<and>
   CancelRequest 7 \<notin> set (m_messenger (client_run (\<lambda>e. 1)
      [MakeRequest (7::nat) (1, 1) [] (1, 2), Incoming (RequestResponse 7 [9]), DropResponse 7]
      (CpuCom_new :: (nat, string) CpuCom)))"
proof -
  let ?es = "[MakeRequest (7::nat) (1, 1) [] (1, 2), Incoming (RequestResponse 7 [9]), DropResponse 7]"
  have "m_promises (client_run (\<lambda>e. 1) ?es (CpuCom_new :: (nat, string) CpuCom)) 7 = Some [9]"
    by (simp add: client_run_def client_defs CpuCom_new_def)
  then show ?thesis using request_partition [of 7 ?es "\<lambda>e. 1"] by auto
qed

text \<open>
  C25: when the client object is destroyed nobody is left waiting: the response of every request
  that was not cancelled can be read, and it is the daemon's answer if there was one and empty
  otherwise.
\<close>

theorem destructor_answers_all:
  assumes "length (filter (makes u) es) = 1"
    and "CancelRequest u \<notin> set (m_messenger (client_run code es CpuCom_new))"
  shows "response_data (CpuCom_delete (client_run code es CpuCom_new)) \<lparr>m_id = u, m_valid = True\<rparr> =
    Ret (case m_promises (client_run code es CpuCom_new) u of None \<Rightarrow> [] | Some data \<Rightarrow> data,
         \<lparr>m_id = u, m_valid = False\<rparr>)"
proof -
  let ?c = "client_run code es CpuCom_new"
  have s: "request_state u ?c = 1" and w: "u \<in> v2_requests ?c \<longrightarrow> m_promises ?c u = None"
    using request_state_run [of u es code] assms by simp_all
  have "length (filter (\<lambda>m. m = CancelRequest u) (m_messenger ?c)) = 0"
    using assms(2) by (auto simp: filter_empty_conv)
  with s have "u \<in> v2_requests ?c \<or> m_promises ?c u \<noteq> None"
    unfolding request_state_def by (auto split: if_splits)
  then show ?thesis using w by (auto simp: response_data_def CpuCom_delete_def)
qed

lemma destructor_answers_all_witness:
  "response_data (CpuCom_delete (client_run (\<lambda>e. 1) [MakeRequest (7::nat) (1, 1) [] (1, 2)]
      (CpuCom_new :: (nat, string) CpuCom))) \<lparr>m_id = 7, m_valid = True\<rparr> = Ret ([], \<lparr>m_id = 7, m_valid = False\<rparr>)"
  using destructor_answers_all [of 7 "[MakeRequest (7::nat) (1, 1) [] (1, 2)]" "\<lambda>e. 1"]
  by (simp add: client_run_def client_defs CpuCom_new_def)

text \<open>
  A delivery callback is called at most once, with the first status that arrives for its
  command, and never for the status of another one.
\<close>

lemma delivery_callback_once:
  assumes "m_deliveryStatusCallbacks c u = Some (Some cb)"
  shows "m_calls (client_receive code (DeliveryStatus u status') (client_receive code (DeliveryStatus u status) c)) =
      m_calls c @ [StatusCall cb status] \<and>
    (\<forall>u'. u' \<noteq> u \<longrightarrow> m_deliveryStatusCallbacks (client_receive code (DeliveryStatus u' status') c) u = Some (Some cb))"
  using assms by (auto simp: client_defs call_def split: option.split)

end
