(* ===== verification/ClientV1.thy ===== *)
theory ClientV1
  imports ClientV2
begin

text \<open>
  The client library, version 1 (\<^verbatim>\<open>libCpuCom/src/impl_CpuComImpl.h\<close>): the class template
  \<^verbatim>\<open>CpuComImpl\<close> with its lists of listeners, the thread that waits for the daemon, and
  \<^verbatim>\<open>IoDevice\<close>. The socket, the thread policies, the parser and the packing of messages belong
  to the common library: the socket is a flag and the list of messages written to it, a call
  through a policy is made at once, and the parser and \<^verbatim>\<open>unpack\<close> are parameters. Listeners
  are pointers of a type \<open>'l\<close>. The sections that take \<^verbatim>\<open>m_listenersMutex\<close> have definitions
  of their own, since \<^verbatim>\<open>subscribe\<close> looks at the table before it takes the mutex.
\<close>

section \<open>State\<close>

datatype 'l listener_call = ReceiveCommand 'l CpuCommand "byte list" | OnError 'l CpuCommand int

record ('u, 'l) CpuComImpl =
  m_valid_socket :: bool
  m_socket :: "'u ClientMessage list"
  m_listeners :: "CpuCommand \<rightharpoonup> 'l list"
  impl_errorCallback :: "'l option"
  m_stopfd :: int
  impl_running :: bool
  impl_calls :: "'l listener_call list"

text \<open>
  The constructor connects; \<open>valid\<close> is the result, \<open>fd\<close> the one of \<^verbatim>\<open>eventfd\<close>, and the
  notification thread runs when both are good.
\<close>

definition CpuComImpl_new :: "bool \<Rightarrow> int \<Rightarrow> ('u, 'l) CpuComImpl" where
  "CpuComImpl_new valid fd =
     \<lparr>m_valid_socket = valid, m_socket = [], m_listeners = Map.empty, impl_errorCallback = None,
      m_stopfd = (if valid then fd else -1), impl_running = (valid \<and> fd \<noteq> -1), impl_calls = []\<rparr>"

section \<open>Methods\<close>

definition socket_write :: "'u ClientMessage \<Rightarrow> ('u, 'l) CpuComImpl \<Rightarrow> ('u, 'l) CpuComImpl" where
  "socket_write m c = (if m_valid_socket c then c\<lparr>m_socket := m_socket c @ [m]\<rparr> else c)"

definition impl_send :: "CpuCommand \<Rightarrow> byte list \<Rightarrow> ('u, 'l) CpuComImpl \<Rightarrow> ('u, 'l) CpuComImpl" where
  "impl_send command data c = socket_write (SendCommand command data) c"

text \<open>The test outside the mutex, and the two branches.\<close>

definition subscribe_check :: "CpuCommand \<Rightarrow> ('u, 'l) CpuComImpl \<Rightarrow> bool" where
  "subscribe_check command c \<longleftrightarrow> m_listeners c command = None"

definition subscribe_first :: "CpuCommand \<Rightarrow> 'l \<Rightarrow> ('u, 'l) CpuComImpl \<Rightarrow> ('u, 'l) CpuComImpl" where
  "subscribe_first command listener c =
     socket_write (Subscribe command)
       (c\<lparr>m_listeners := map_insert command [listener] (m_listeners c)\<rparr>)"

definition subscribe_again ::
    "CpuCommand \<Rightarrow> 'l \<Rightarrow> ('u, 'l) CpuComImpl \<Rightarrow> ('u, 'l) CpuComImpl outcome" where
  "subscribe_again command listener c =
     (case m_listeners c command of
        None \<Rightarrow> Throw Out_of_range
      | Some ls \<Rightarrow> Ret (c\<lparr>m_listeners := (m_listeners c)(command \<mapsto> ls @ [listener])\<rparr>))"

definition impl_subscribe :: "CpuCommand \<Rightarrow> 'l \<Rightarrow> ('u, 'l) CpuComImpl \<Rightarrow> ('u, 'l) CpuComImpl outcome" where
  "impl_subscribe command listener c =
     (if subscribe_check command c then Ret (subscribe_first command listener c)
      else subscribe_again command listener c)"

fun impl_subscribe_all ::
    "CpuCommand list \<Rightarrow> 'l \<Rightarrow> ('u, 'l) CpuComImpl \<Rightarrow> ('u, 'l) CpuComImpl outcome" where
  "impl_subscribe_all [] listener c = Ret c"
| "impl_subscribe_all (command # commands) listener c =
     obind (impl_subscribe command listener c) (impl_subscribe_all commands listener)"

definition impl_unsubscribe :: "CpuCommand \<Rightarrow> 'l \<Rightarrow> ('u, 'l) CpuComImpl \<Rightarrow> ('u, 'l) CpuComImpl" where
  "impl_unsubscribe command listener c =
     (case m_listeners c command of
        None \<Rightarrow> c
      | Some listeners \<Rightarrow>
          if listener \<in> set listeners then
            (let listeners = remove1 listener listeners
             in if listeners = []
                then socket_write (Unsubscribe command) (c\<lparr>m_listeners := (m_listeners c)(command := None)\<rparr>)
                else c\<lparr>m_listeners := (m_listeners c)(command \<mapsto> listeners)\<rparr>)
          else c)"

definition impl_unsubscribe_all ::
    "CpuCommand list \<Rightarrow> 'l \<Rightarrow> ('u, 'l) CpuComImpl \<Rightarrow> ('u, 'l) CpuComImpl" where
  "impl_unsubscribe_all commands listener c = fold (\<lambda>command. impl_unsubscribe command listener) commands c"

definition setErrorCallback :: "'l option \<Rightarrow> ('u, 'l) CpuComImpl \<Rightarrow> ('u, 'l) CpuComImpl" where
  "setErrorCallback callback c = c\<lparr>impl_errorCallback := callback\<rparr>"

section \<open>Messages from the daemon\<close>

text \<open>
  \<open>unpack_command\<close> and \<open>unpack_result\<close> are \<^verbatim>\<open>common::unpack\<close> on a notification and on a
  send result; they are \<open>None\<close> unless all of the data was used.
\<close>

datatype CpuComId = Id_SendCommand | Id_SendCommandResult | Id_Subscribe | Id_Unsubscribe | Id_Notification
  | Id_SendCommandWithDeliveryStatus | Id_DeliveryStatus | Id_Request | Id_RequestResponse | Id_CancelRequest

record unpackers =
  unpack_command :: "byte list \<Rightarrow> (CpuCommand \<times> byte list) option"
  unpack_result :: "byte list \<Rightarrow> (CpuCommand \<times> int) option"

definition impl_onNotification ::
    "unpackers \<Rightarrow> byte list \<Rightarrow> ('u, 'l) CpuComImpl \<Rightarrow> ('u, 'l) CpuComImpl" where
  "impl_onNotification U data c =
     (case unpack_command U data of
        None \<Rightarrow> c
      | Some (command, commandData) \<Rightarrow>
          (let listeners = (case m_listeners c command of None \<Rightarrow> [] | Some ls \<Rightarrow> ls)
           in fold (\<lambda>l c. c\<lparr>impl_calls := impl_calls c @ [ReceiveCommand l command commandData]\<rparr>) listeners c))"

definition impl_onSendCommandResult ::
    "unpackers \<Rightarrow> byte list \<Rightarrow> ('u, 'l) CpuComImpl \<Rightarrow> ('u, 'l) CpuComImpl" where
  "impl_onSendCommandResult U data c =
     (case impl_errorCallback c of
        None \<Rightarrow> c
      | Some callback \<Rightarrow>
          (case unpack_result U data of
             None \<Rightarrow> c
           | Some (command, commandData) \<Rightarrow>
               c\<lparr>impl_calls := impl_calls c @ [OnError callback command commandData]\<rparr>))"

fun handle_daemon_message ::
    "unpackers \<Rightarrow> CpuComId \<times> byte list \<Rightarrow> ('u, 'l) CpuComImpl \<Rightarrow> ('u, 'l) CpuComImpl" where
  "handle_daemon_message U (Id_SendCommandResult, data) c = impl_onSendCommandResult U data c"
| "handle_daemon_message U (Id_Notification, data) c = impl_onNotification U data c"
| "handle_daemon_message U (_, data) c = c"

text \<open>\<open>messages\<close> is what the parser makes of the bytes that could be read.\<close>

definition onReadyReadFromDaemon ::
    "unpackers \<Rightarrow> (CpuComId \<times> byte list) list \<Rightarrow> ('u, 'l) CpuComImpl \<Rightarrow> ('u, 'l) CpuComImpl" where
  "onReadyReadFromDaemon U messages c = fold (handle_daemon_message U) messages c"

section \<open>The notification thread\<close>

type_synonym revents = "16 word"

definition POLLIN :: revents where "POLLIN = 0x001"
definition POLLHUP :: revents where "POLLHUP = 0x010"

definition isSocketFdReceivePollInEvent :: "revents \<times> revents \<Rightarrow> bool" where
  "isSocketFdReceivePollInEvent m_fds \<longleftrightarrow> fst m_fds AND POLLIN \<noteq> 0"

definition isSocketFdReceivePollHupEvent :: "revents \<times> revents \<Rightarrow> bool" where
  "isSocketFdReceivePollHupEvent m_fds \<longleftrightarrow> fst m_fds AND POLLHUP \<noteq> 0"

definition isStopFdReceivePollInEvent :: "revents \<times> revents \<Rightarrow> bool" where
  "isStopFdReceivePollInEvent m_fds \<longleftrightarrow> snd m_fds AND POLLIN \<noteq> 0"

definition isStopFdReceivePollHupEvent :: "revents \<times> revents \<Rightarrow> bool" where
  "isStopFdReceivePollHupEvent m_fds \<longleftrightarrow> snd m_fds AND POLLHUP \<noteq> 0"

text \<open>
  The result of one \<^verbatim>\<open>poll\<close>: its return value, the events of the two descriptors, and the
  messages there are to read.
\<close>

record polled =
  p_action :: int
  p_fds :: "revents \<times> revents"
  p_messages :: "(CpuComId \<times> byte list) list"

definition stops_on_hup :: "polled \<Rightarrow> bool" where
  "stops_on_hup p \<longleftrightarrow>
     \<not> isSocketFdReceivePollInEvent (p_fds p) \<and> isSocketFdReceivePollHupEvent (p_fds p)"

definition stops_on_stopfd :: "polled \<Rightarrow> bool" where
  "stops_on_stopfd p \<longleftrightarrow> isStopFdReceivePollInEvent (p_fds p) \<or> isStopFdReceivePollHupEvent (p_fds p)"

text \<open>
  The loop over the results of \<^verbatim>\<open>poll\<close>. It returns the state, and whether the loop was left
  or the results were used up while it still runs.
\<close>

fun notificationsThreadFunction ::
    "unpackers \<Rightarrow> polled list \<Rightarrow> ('u, 'l) CpuComImpl \<Rightarrow> bool \<times> ('u, 'l) CpuComImpl" where
  "notificationsThreadFunction U [] c = (False, c)"
| "notificationsThreadFunction U (p # ps) c =
     (if p_action p = -1 then notificationsThreadFunction U ps c
      else if stops_on_hup p then (True, c)
      else
        (let c = (if isSocketFdReceivePollInEvent (p_fds p) then onReadyReadFromDaemon U (p_messages p) c else c)
         in if stops_on_stopfd p then (True, c) else notificationsThreadFunction U ps c))"

text \<open>
  The destructor: it writes to the stop descriptor, if there is one, waits for the thread, and closes the descriptor.
  \<open>polls stopped\<close> are the results of \<^verbatim>\<open>poll\<close> from then on, after a write or without one; as long as they do not
  end the thread the call waits.
\<close>

definition stopNotificationsThread ::
    "unpackers \<Rightarrow> (bool \<Rightarrow> polled list) \<Rightarrow> ('u, 'l) CpuComImpl \<Rightarrow> ('u, 'l) CpuComImpl outcome" where
  "stopNotificationsThread U polls c =
     (let stopped = (m_stopfd c \<noteq> -1)
      in if impl_running c
         then (case notificationsThreadFunction U (polls stopped) c of
                 (ended, c) \<Rightarrow> if ended then Ret (c\<lparr>impl_running := False\<rparr>) else Blocked)
         else Ret c)"

definition CpuComImpl_delete ::
    "unpackers \<Rightarrow> (bool \<Rightarrow> polled list) \<Rightarrow> ('u, 'l) CpuComImpl \<Rightarrow> (int \<times> ('u, 'l) CpuComImpl) outcome" where
  "CpuComImpl_delete U polls c = omap (\<lambda>c. (m_stopfd c, c)) (stopNotificationsThread U polls c)"

section \<open>Listeners and messages\<close>

datatype 'l impl_event =
    ISend CpuCommand "byte list"
  | ISubscribe CpuCommand 'l
  | IUnsubscribe CpuCommand 'l
  | ISetErrorCallback "'l option"
  | IRead "(CpuComId \<times> byte list) list"

fun impl_step :: "unpackers \<Rightarrow> 'l impl_event \<Rightarrow> ('u, 'l) CpuComImpl \<Rightarrow> ('u, 'l) CpuComImpl outcome" where
  "impl_step U (ISend command data) c = Ret (impl_send command data c)"
| "impl_step U (ISubscribe command l) c = impl_subscribe command l c"
| "impl_step U (IUnsubscribe command l) c = Ret (impl_unsubscribe command l c)"
| "impl_step U (ISetErrorCallback callback) c = Ret (setErrorCallback callback c)"
| "impl_step U (IRead messages) c = Ret (onReadyReadFromDaemon U messages c)"

fun impl_run :: "unpackers \<Rightarrow> 'l impl_event list \<Rightarrow> ('u, 'l) CpuComImpl \<Rightarrow> ('u, 'l) CpuComImpl outcome" where
  "impl_run U [] c = Ret c"
| "impl_run U (e # es) c = obind (impl_step U e c) (impl_run U es)"

definition listeners_of :: "CpuCommand \<Rightarrow> ('u, 'l) CpuComImpl \<Rightarrow> 'l list" where
  "listeners_of command c = (case m_listeners c command of None \<Rightarrow> [] | Some ls \<Rightarrow> ls)"

text \<open>No list of listeners is empty, and the messages match the commands that have listeners.\<close>

definition impl_inv :: "('u, 'l) CpuComImpl \<Rightarrow> bool" where
  "impl_inv c \<longleftrightarrow> (\<forall>command. m_listeners c command \<noteq> Some []) \<and>
     (m_valid_socket c \<longrightarrow> fold subscribed_by (m_socket c) {} = dom (m_listeners c))"

lemma calls_only [simp]:
  "m_listeners (fold (\<lambda>l c. c\<lparr>impl_calls := impl_calls c @ [f l]\<rparr>) ls c) = m_listeners c"
  "m_valid_socket (fold (\<lambda>l c. c\<lparr>impl_calls := impl_calls c @ [f l]\<rparr>) ls c) = m_valid_socket c"
  "m_socket (fold (\<lambda>l c. c\<lparr>impl_calls := impl_calls c @ [f l]\<rparr>) ls c) = m_socket c"
  "impl_errorCallback (fold (\<lambda>l c. c\<lparr>impl_calls := impl_calls c @ [f l]\<rparr>) ls c) = impl_errorCallback c"
  "impl_calls (fold (\<lambda>l c. c\<lparr>impl_calls := impl_calls c @ [f l]\<rparr>) ls c) = impl_calls c @ map f ls"
  by (induction ls arbitrary: c) simp_all

lemma handle_daemon_message_keeps:
  "m_listeners (handle_daemon_message U m c) = m_listeners c"
  "m_valid_socket (handle_daemon_message U m c) = m_valid_socket c"
  "m_socket (handle_daemon_message U m c) = m_socket c"
  by (cases "(U, m, c)" rule: handle_daemon_message.cases;
      simp add: impl_onNotification_def impl_onSendCommandResult_def Let_def split: option.split)+

lemma onReadyRead_keeps:
  "m_listeners (onReadyReadFromDaemon U ms c) = m_listeners c"
  "m_valid_socket (onReadyReadFromDaemon U ms c) = m_valid_socket c"
  "m_socket (onReadyReadFromDaemon U ms c) = m_socket c"
  unfolding onReadyReadFromDaemon_def
  by (induction ms arbitrary: c) (simp_all add: handle_daemon_message_keeps)

lemma socket_write_simps [simp]:
  "m_listeners (socket_write m c) = m_listeners c" "m_valid_socket (socket_write m c) = m_valid_socket c"
  "m_socket (socket_write m c) = (if m_valid_socket c then m_socket c @ [m] else m_socket c)"
  by (simp_all add: socket_write_def)

lemma impl_step_returns: "\<exists>c'. impl_step U e c = Ret c'"
  by (cases e) (auto simp: impl_subscribe_def subscribe_check_def subscribe_again_def split: option.split)

lemma impl_step_inv:
  assumes "impl_inv c" and "impl_step U e c = Ret c'"
  shows "impl_inv c'"
  using assms
  by (cases e)
     (auto simp: impl_inv_def impl_send_def setErrorCallback_def onReadyRead_keeps impl_subscribe_def
        subscribe_check_def subscribe_first_def subscribe_again_def impl_unsubscribe_def map_insert_def Let_def
      split: if_splits option.splits)

lemma impl_inv_new: "impl_inv (CpuComImpl_new valid fd)"
  by (simp add: impl_inv_def CpuComImpl_new_def)

lemma impl_step_valid: "impl_step U e c = Ret c' \<Longrightarrow> m_valid_socket c' = m_valid_socket c"
  by (cases e)
     (auto simp: impl_send_def setErrorCallback_def onReadyRead_keeps impl_subscribe_def
        subscribe_first_def subscribe_again_def impl_unsubscribe_def Let_def
      split: if_splits option.splits)

text \<open>With a connected socket the library meets the contract of a client.\<close>

interpretation v1: subscribing_client "impl_step U" m_socket "\<lambda>c. dom (m_listeners c)" "\<lambda>c. impl_inv c \<and> m_valid_socket c"
proof unfold_locales
  fix c :: "('u, 'l) CpuComImpl" and c' e
  assume "impl_inv c \<and> m_valid_socket c" and "impl_step U e c = Ret c'"
  then have "impl_inv c' \<and> m_valid_socket c'" using impl_step_inv impl_step_valid by blast
  then show "(impl_inv c' \<and> m_valid_socket c') \<and> fold subscribed_by (m_socket c') {} = dom (m_listeners c')"
    by (simp add: impl_inv_def)
qed

lemma impl_steps: "steps (impl_step U) es c = impl_run U es c"
proof (induction es arbitrary: c)
  case (Cons e es)
  then show ?case by (cases "impl_step U e c") simp_all
qed simp

text \<open>How often a listener is registered: the subscriptions minus the effective unsubscriptions.\<close>

fun registrations :: "CpuCommand \<Rightarrow> 'l \<Rightarrow> 'l impl_event list \<Rightarrow> nat \<Rightarrow> nat" where
  "registrations command l [] n = n"
| "registrations command l (ISubscribe command' l' # es) n =
     registrations command l es (if command' = command \<and> l' = l then n + 1 else n)"
| "registrations command l (IUnsubscribe command' l' # es) n =
     registrations command l es (if command' = command \<and> l' = l then n - 1 else n)"
| "registrations command l (e # es) n = registrations command l es n"

lemma count_remove1: "count_list (remove1 x xs) y = (if x = y then count_list xs y - 1 else count_list xs y)"
  by (induction xs) auto

lemma remove1_only: "x \<in> set xs \<Longrightarrow> remove1 x xs = [] \<Longrightarrow> xs = [x]"
  by (cases xs) (auto split: if_splits)

lemma listeners_of_step:
  assumes "impl_step U e c = Ret c'"
  shows "count_list (listeners_of command c') l = registrations command l [e] (count_list (listeners_of command c) l)"
  using assms
  by (cases e)
     (auto simp: listeners_of_def impl_send_def setErrorCallback_def onReadyRead_keeps impl_subscribe_def
        subscribe_check_def subscribe_first_def subscribe_again_def impl_unsubscribe_def map_insert_def Let_def
        count_remove1 count_list_0_iff
      split: if_splits option.splits dest: remove1_only)

lemma registrations_run:
  "impl_run U es c = Ret c' \<Longrightarrow>
     count_list (listeners_of command c') l = registrations command l es (count_list (listeners_of command c) l)"
proof (induction es arbitrary: c)
  case (Cons e es)
  then obtain c1 where c1: "impl_step U e c = Ret c1" "impl_run U es c1 = Ret c'" by (auto simp: outcome_eqs)
  show ?case using Cons.IH [OF c1(2)] listeners_of_step [OF c1(1), of command l] by (cases e) simp_all
qed simp

lemma impl_run_returns: "\<exists>c'. impl_run U es c = Ret c' \<and> m_valid_socket c' = m_valid_socket c"
proof (induction es arbitrary: c)
  case (Cons e es)
  obtain c1 where "impl_step U e c = Ret c1" using impl_step_returns by blast
  then show ?case using Cons.IH [of c1] impl_step_valid by fastforce
qed simp

definition no_unpackers :: unpackers where
  "no_unpackers = \<lparr>unpack_command = (\<lambda>bs. None), unpack_result = (\<lambda>bs. None)\<rparr>"

section \<open>Properties\<close>

text \<open>
  C26: with a connected socket, whatever the application subscribes, unsubscribes and sends, one
  call after the other, nothing is thrown, and a daemon that handles the messages has the session
  subscribed to exactly the commands that have a listener.
\<close>

theorem impl_subscriptions_agree:
  fixes d :: "('c, 's::linorder, 'u) CpuComDaemon" and es :: "'l impl_event list"
  assumes "daemon_inv d" and "\<forall>command. (s, command) \<notin> subscriptions d"
  shows "\<exists>c. impl_run U es (CpuComImpl_new True fd) = Ret c \<and>
    (\<forall>C d'. daemon_run C (map (Message s) (m_socket c)) d = Ret d' \<longrightarrow>
       {command. (s, command) \<in> subscriptions d'} = {command. listeners_of command c \<noteq> []})"
proof -
  obtain c :: "('u, 'l) CpuComImpl" where c: "impl_run U es (CpuComImpl_new True fd) = Ret c" "m_valid_socket c"
    using impl_run_returns [of U es "CpuComImpl_new True fd"] by (auto simp: CpuComImpl_new_def)
  have start: "impl_inv (CpuComImpl_new True fd :: ('u, 'l) CpuComImpl)" "m_valid_socket (CpuComImpl_new True fd :: ('u, 'l) CpuComImpl)"
    by (rule impl_inv_new) (simp add: CpuComImpl_new_def)
  then have told: "fold subscribed_by (m_socket (CpuComImpl_new True fd :: ('u, 'l) CpuComImpl)) {} = dom (m_listeners (CpuComImpl_new True fd :: ('u, 'l) CpuComImpl))"
    by (simp add: impl_inv_def)
  note run = c(1) [folded impl_steps]
  have "impl_inv c" using v1.steps_told [OF run _ told] start by blast
  then have dom: "dom (m_listeners c) = {command. listeners_of command c \<noteq> []}"
    by (auto simp: impl_inv_def listeners_of_def split: option.splits)
  show ?thesis using c(1) v1.daemon_agrees [OF run _ told _ assms] start unfolding dom by blast
qed

lemma impl_subscriptions_agree_witness:
  "\<exists>c. impl_run no_unpackers [ISubscribe (1, 1) ''a'', ISubscribe (1, 1) ''b'', IUnsubscribe (1, 1) ''a''] (CpuComImpl_new True 3) = Ret c \<and>
    (\<forall>C d'. daemon_run C (map (Message (5::nat)) (m_socket c)) (running_daemon []) = Ret d' \<longrightarrow>
       {command. (5, command) \<in> subscriptions d'} = {command. listeners_of command c \<noteq> []})"
  by (rule impl_subscriptions_agree [OF running_daemon_inv(1)]) (simp add: running_daemon_inv(2))

text \<open>
  A listener hears a notified command as often as it is registered for it, which is the number
  of its subscriptions less the number of its unsubscriptions that found one.
\<close>

lemma listener_calls:
  assumes "impl_run U es (CpuComImpl_new valid fd) = Ret c" and "unpack_command U data = Some (command, bytes)"
  shows "\<exists>calls. impl_calls (handle_daemon_message U (Id_Notification, data) c) = impl_calls c @ calls \<and>
    count_list calls (ReceiveCommand l command bytes) = registrations command l es 0 \<and>
    set calls \<subseteq> {ReceiveCommand l' command bytes |l'. 0 < registrations command l' es 0}"
proof -
  have r: "count_list (listeners_of command c) l' = registrations command l' es 0" for l'
    using registrations_run [OF assms(1), of command l'] by (simp add: CpuComImpl_new_def listeners_of_def)
  have "count_list (map (\<lambda>l. ReceiveCommand l command bytes) ls) (ReceiveCommand l command bytes) = count_list ls l"
    for ls by (induction ls) auto
  moreover have "0 < registrations command l' es 0" if "l' \<in> set (listeners_of command c)" for l'
    using that r [of l'] by (metis count_list_0_iff gr0I)
  ultimately show ?thesis
    using assms(2) r [of l]
    by (auto simp: impl_onNotification_def Let_def listeners_of_def [symmetric])
qed

text \<open>
  Two threads that subscribe for a command at once: both look at the table before either
  changes it, and the second listener is lost although its call returns. When instead the last
  listener is unsubscribed between the look and the change, the call throws
  \<^verbatim>\<open>std::out_of_range\<close>.
\<close>

lemma subscribe_race:
  assumes "subscribe_check command c"
  shows "listeners_of command (subscribe_first command l2 (subscribe_first command l1 c)) = [l1] \<and>
    (\<not> subscribe_check command (subscribe_first command l1 c) \<and>
     subscribe_again command l2 (impl_unsubscribe command l1 (subscribe_first command l1 c)) = Throw Out_of_range)"
  using assms
  by (simp add: subscribe_check_def subscribe_first_def subscribe_again_def listeners_of_def map_insert_def
      impl_unsubscribe_def)

text \<open>
  The notification thread ends exactly when some \<^verbatim>\<open>poll\<close> that did not fail reports the
  stop descriptor, or a hang-up of the socket without data. A hang-up that comes with data, which
  is what a closed stream socket reports, does not end it.
\<close>

lemma notification_thread_ends:
  "(fst (notificationsThreadFunction U ps c) \<longleftrightarrow>
      (\<exists>p\<in>set ps. p_action p \<noteq> -1 \<and> (stops_on_hup p \<or> stops_on_stopfd p))) \<and>
   \<not> fst (notificationsThreadFunction U (replicate n \<lparr>p_action = 1, p_fds = (POLLIN OR POLLHUP, 0), p_messages = []\<rparr>) c)"
proof -
  have iff: "fst (notificationsThreadFunction U ps c) \<longleftrightarrow>
      (\<exists>p\<in>set ps. p_action p \<noteq> -1 \<and> (stops_on_hup p \<or> stops_on_stopfd p))" for ps
    by (induction ps arbitrary: c) (auto simp: Let_def)
  show ?thesis unfolding iff
    by (auto simp: stops_on_hup_def stops_on_stopfd_def isSocketFdReceivePollInEvent_def POLLIN_def POLLHUP_def
        isStopFdReceivePollInEvent_def isStopFdReceivePollHupEvent_def)
qed

text \<open>
  The thread runs only with a stop descriptor, and once it has been written every \<^verbatim>\<open>poll\<close> that does not fail reports it. So the
  destructor returns with the first such \<^verbatim>\<open>poll\<close>, and the thread is gone.
\<close>

lemma impl_runs_with_stopfd:
  "impl_run U es (CpuComImpl_new valid fd) = Ret c \<Longrightarrow> impl_running c \<Longrightarrow> m_stopfd c \<noteq> -1"
proof -
  have messages: "impl_running (handle_daemon_message U m c) = impl_running c \<and> m_stopfd (handle_daemon_message U m c) = m_stopfd c"
    for U m and c :: "('u, 'l) CpuComImpl"
  proof -
    have f: "impl_running (fold (\<lambda>l c. c\<lparr>impl_calls := impl_calls c @ [f l]\<rparr>) ls c) = impl_running c \<and>
      m_stopfd (fold (\<lambda>l c. c\<lparr>impl_calls := impl_calls c @ [f l]\<rparr>) ls c) = m_stopfd c" for f ls and c :: "('u, 'l) CpuComImpl"
      by (induction ls arbitrary: c) simp_all
    show ?thesis
      by (cases "(U, m, c)" rule: handle_daemon_message.cases)
         (simp_all add: impl_onNotification_def impl_onSendCommandResult_def Let_def f split: option.split)
  qed
  have read: "impl_running (onReadyReadFromDaemon U ms c) = impl_running c \<and> m_stopfd (onReadyReadFromDaemon U ms c) = m_stopfd c"
    for ms and c :: "('u, 'l) CpuComImpl"
    unfolding onReadyReadFromDaemon_def by (induction ms arbitrary: c) (simp_all add: messages)
  have step: "impl_running c' = impl_running c \<and> m_stopfd c' = m_stopfd c" if "impl_step U e c = Ret c'" for e and c c' :: "('u, 'l) CpuComImpl"
    using that
    by (cases e) (auto simp: read impl_send_def socket_write_def setErrorCallback_def impl_subscribe_def subscribe_first_def
        subscribe_again_def impl_unsubscribe_def Let_def split: if_splits option.splits)
  have run: "impl_run U es c0 = Ret c \<Longrightarrow> impl_running c = impl_running c0 \<and> m_stopfd c = m_stopfd c0"
    for es and c0 c :: "('u, 'l) CpuComImpl"
    by (induction es arbitrary: c0) (auto simp: outcome_eqs dest!: step)
  show "impl_run U es (CpuComImpl_new valid fd) = Ret c \<Longrightarrow> impl_running c \<Longrightarrow> m_stopfd c \<noteq> -1"
    by (auto simp: CpuComImpl_new_def dest!: run split: if_splits)
qed

lemma delete_returns:
  assumes "impl_run U es (CpuComImpl_new valid fd) = Ret c" and "p \<in> set (polls True)" and "p_action p \<noteq> -1"
    and "\<forall>p\<in>set (polls True). isStopFdReceivePollInEvent (p_fds p)"
  shows "\<exists>c'. CpuComImpl_delete U polls c = Ret (m_stopfd c', c') \<and> \<not> impl_running c'"
proof (cases "impl_running c")
  case True
  have "fst (notificationsThreadFunction U (polls True) c)"
    using notification_thread_ends [of U "polls True" c] assms(2-4) by (auto simp: stops_on_stopfd_def)
  then obtain c' where "notificationsThreadFunction U (polls True) c = (True, c')" by (metis prod.collapse)
  then show ?thesis using True impl_runs_with_stopfd [OF assms(1) True]
    by (simp add: CpuComImpl_delete_def stopNotificationsThread_def)
qed (simp add: CpuComImpl_delete_def stopNotificationsThread_def)

end
