(* ===== verification/StateMachine.thy ===== *)
theory StateMachine
  imports CpuPrelude
begin

text \<open>
  The interface of \<^verbatim>\<open>common::FiniteStateMachine<Event, Context>\<close>, the class of the common
  library that \<^verbatim>\<open>Protocol\<close> configures with \<^verbatim>\<open>addState\<close>, \<^verbatim>\<open>setInitialState\<close>,
  \<^verbatim>\<open>setFinalState\<close> and \<^verbatim>\<open>addTransition\<close> and starts with \<^verbatim>\<open>run\<close>. Its source is not
  part of the repository, so the runner is a parameter; the locale \<open>fsm_runner\<close> states what
  the code relies on. The step relation \<open>fsm_step\<close> says what one handler call and the
  transition it selects do, and the lemmas connect a call of \<open>run\<close> to paths of steps.
\<close>

section \<open>Steps and paths\<close>

type_synonym ('q, 'e, 'w) handlers = "'q \<Rightarrow> 'w \<Rightarrow> ('e \<times> 'w) outcome"
type_synonym ('q, 'e) transitions = "'q \<Rightarrow> 'e \<Rightarrow> 'q option"

text \<open>
  One step from a state that is not the final one: its handler runs on the context and
  returns an event, and the transition for that event gives the next state.
\<close>

inductive fsm_step ::
    "('q, 'e, 'w) handlers \<Rightarrow> ('q, 'e) transitions \<Rightarrow> 'q \<Rightarrow> 'q \<times> 'w \<Rightarrow> 'q \<times> 'w \<Rightarrow> bool"
  for h t f where
  fsm_stepI: "q \<noteq> f \<Longrightarrow> h q w = Ret (e, w') \<Longrightarrow> t q e = Some q' \<Longrightarrow> fsm_step h t f (q, w) (q', w')"

inductive_cases fsm_stepE [elim!]: "fsm_step h t f (q, w) (q', w')"
inductive_simps fsm_step_iff: "fsm_step h t f (q, w) (q', w')"

inductive fsm_path ::
    "('q, 'e, 'w) handlers \<Rightarrow> ('q, 'e) transitions \<Rightarrow> 'q \<Rightarrow> nat \<Rightarrow> 'q \<times> 'w \<Rightarrow> 'q \<times> 'w \<Rightarrow> bool"
  for h t f where
  path_refl [intro!, simp]: "fsm_path h t f 0 c c"
| path_step: "fsm_path h t f n c c' \<Longrightarrow> fsm_step h t f c' c'' \<Longrightarrow> fsm_path h t f (Suc n) c c''"

lemma fsm_step_deterministic: "fsm_step h t f c a \<Longrightarrow> fsm_step h t f c b \<Longrightarrow> a = b"
  by (cases c; cases a; cases b) auto

lemma fsm_path_first:
  assumes "fsm_path h t f n c' c''" and "fsm_step h t f c c'"
  shows "fsm_path h t f (Suc n) c c''"
  using assms by (induction rule: fsm_path.induct) (blast intro: path_step path_refl)+

lemma fsm_path_invariant [consumes 1, case_names init step]:
  assumes "fsm_path h t f n (q, w) (q', w')" and "I q w"
    and "\<And>q w e w' q'. I q w \<Longrightarrow> q \<noteq> f \<Longrightarrow> h q w = Ret (e, w') \<Longrightarrow> t q e = Some q' \<Longrightarrow> I q' w'"
  shows "I q' w'"
proof -
  have "case c' of (q', w') \<Rightarrow> I q' w'" if "fsm_path h t f n c c'" "case c of (q, w) \<Rightarrow> I q w" for c c'
    using that by (induction rule: fsm_path.induct) (auto dest: assms(3))
  from this [OF assms(1)] assms(2) show ?thesis by simp
qed

section \<open>The runner's contract\<close>

text \<open>
  What \<^verbatim>\<open>Protocol\<close> relies on: in the final state the handler runs and \<open>run\<close> returns; in
  any other state the handler runs and \<open>run\<close> goes on as if started in the state the
  transition names; an exception, a wait or a loop inside a handler is that of \<open>run\<close>; and
  \<open>run\<close> returns in no other way than through the final state.
\<close>

locale fsm_runner =
  fixes run :: "('q \<Rightarrow> 'w \<Rightarrow> ('e \<times> 'w) outcome) \<Rightarrow> ('q \<Rightarrow> 'e \<Rightarrow> 'q option)
                 \<Rightarrow> 'q \<Rightarrow> 'q \<Rightarrow> 'w \<Rightarrow> 'w outcome"
  assumes run_final: "h f w = Ret (e, w') \<Longrightarrow> run h t f f w = Ret w'"
    and run_next: "q \<noteq> f \<Longrightarrow> h q w = Ret (e, w') \<Longrightarrow> t q e = Some q' \<Longrightarrow>
                   run h t q f w = run h t q' f w'"
    and run_throw: "h q w = Throw x \<Longrightarrow> run h t q f w = Throw x"
    and run_blocked: "h q w = Blocked \<Longrightarrow> run h t q f w = Blocked"
    and run_diverges: "h q w = Diverges \<Longrightarrow> run h t q f w = Diverges"
    and run_returns: "run h t q f w = Ret w' \<Longrightarrow>
                      \<exists>n w0 e. fsm_path h t f n (q, w) (f, w0) \<and> h f w0 = Ret (e, w')"
    and run_throws: "run h t q f w = Throw x \<Longrightarrow> (\<And>p e. p \<noteq> f \<Longrightarrow> t p e \<noteq> None) \<Longrightarrow>
                      \<exists>n q' w0. fsm_path h t f n (q, w) (q', w0) \<and> h q' w0 = Throw x"
begin

lemma run_path: "fsm_path h t f n (q, w) (q', w') \<Longrightarrow> run h t q f w = run h t q' f w'"
proof -
  have "run h t (fst c) f (snd c) = run h t (fst c') f (snd c')" if "fsm_path h t f n c c'" for c c'
    using that by (induction rule: fsm_path.induct) (auto simp: run_next elim!: fsm_step.cases)
  then show "fsm_path h t f n (q, w) (q', w') \<Longrightarrow> run h t q f w = run h t q' f w'" by fastforce
qed

lemma run_path_final:
  "fsm_path h t f n (q, w) (f, w0) \<Longrightarrow> h f w0 = Ret (e, w') \<Longrightarrow> run h t q f w = Ret w'"
  by (simp add: run_path run_final)

text \<open>
  One unfolding of a call in a state that is not final, for machines whose table has a
  transition for every event of the state.
\<close>

lemma run_unfold:
  assumes "q \<noteq> f" and "\<And>e. t q e = Some (nxt e)"
  shows "run h t q f w = obind (h q w) (\<lambda>(e, w'). run h t (nxt e) f w')"
proof (cases "h q w")
  case (Ret r)
  then obtain e w' where "h q w = Ret (e, w')" by (cases r) auto
  with assms show ?thesis by (simp add: run_next)
qed (simp_all add: run_throw run_blocked run_diverges)

text \<open>
  Total correctness: under an invariant that keeps the handlers from failing, a measure that
  every step decreases makes the call return.
\<close>

lemma run_terminates:
  assumes "I q w"
    and returns: "\<And>q w. I q w \<Longrightarrow> \<exists>e w'. h q w = Ret (e, w')"
    and step: "\<And>q w e w'. I q w \<Longrightarrow> q \<noteq> f \<Longrightarrow> h q w = Ret (e, w') \<Longrightarrow>
                 \<exists>q'. t q e = Some q' \<and> I q' w' \<and> (m q' w' :: nat) < m q w"
  shows "\<exists>w'. run h t q f w = Ret w'"
  using assms(1)
proof (induction "m q w" arbitrary: q w rule: less_induct)
  case less
  obtain e w' where h: "h q w = Ret (e, w')" using returns [OF less.prems] by blast
  show ?case
  proof (cases "q = f")
    case True
    with h show ?thesis by (auto intro: run_final)
  next
    case False
    obtain q' where "t q e = Some q'" "I q' w'" "m q' w' < m q w"
      using step [OF less.prems False h] by blast
    with less.hyps show ?thesis using run_next [of q f h w e w' t q'] False h by simp
  qed
qed

end

section \<open>A reference runner\<close>

text \<open>
  A runner that meets the contract, with the loop written out. It is the witness that the
  contract can be met; no theorem about the protocol depends on it.
\<close>

datatype ('q, 'w) fsm_config = Running 'q 'w | Stopped "'w outcome"

fun fsm_running :: "('q, 'w) fsm_config \<Rightarrow> bool" where
  "fsm_running (Running q w) = True"
| "fsm_running (Stopped r) = False"

fun fsm_advance ::
    "('q, 'e, 'w) handlers \<Rightarrow> ('q, 'e) transitions \<Rightarrow> 'q \<Rightarrow> ('q, 'w) fsm_config \<Rightarrow> ('q, 'w) fsm_config"
  where
  "fsm_advance h t f (Running q w) =
     (case h q w of
        Ret (e, w') \<Rightarrow>
          (if q = f then Stopped (Ret w')
           else case t q e of None \<Rightarrow> Stopped (Throw Undefined_behaviour) | Some q' \<Rightarrow> Running q' w')
      | Throw x \<Rightarrow> Stopped (Throw x)
      | Blocked \<Rightarrow> Stopped Blocked
      | Diverges \<Rightarrow> Stopped Diverges)"
| "fsm_advance h t f (Stopped r) = Stopped r"

definition fsm_run ::
    "('q \<Rightarrow> 'w \<Rightarrow> ('e \<times> 'w) outcome) \<Rightarrow> ('q \<Rightarrow> 'e \<Rightarrow> 'q option) \<Rightarrow> 'q \<Rightarrow> 'q \<Rightarrow> 'w \<Rightarrow> 'w outcome"
  where
  "fsm_run h t q f w =
     (case while_option fsm_running (fsm_advance h t f) (Running q w) of
        Some (Stopped r) \<Rightarrow> r | _ \<Rightarrow> Diverges)"

lemma while_Stopped [simp]: "while_option fsm_running (fsm_advance h t f) (Stopped r) = Some (Stopped r)"
  by (subst while_option_unfold) simp

lemma fsm_run_unfold:
  "fsm_run h t q f w =
     (case h q w of
        Ret (e, w') \<Rightarrow>
          (if q = f then Ret w'
           else case t q e of None \<Rightarrow> Throw Undefined_behaviour | Some q' \<Rightarrow> fsm_run h t q' f w')
      | Throw x \<Rightarrow> Throw x | Blocked \<Rightarrow> Blocked | Diverges \<Rightarrow> Diverges)"
  unfolding fsm_run_def
  by (subst while_option_unfold) (auto split: outcome.splits prod.splits option.splits)

definition fsm_traced ::
    "('q, 'e, 'w) handlers \<Rightarrow> ('q, 'e) transitions \<Rightarrow> 'q \<Rightarrow> 'q \<times> 'w \<Rightarrow> ('q, 'w) fsm_config \<Rightarrow> bool"
  where
  "fsm_traced h t f c cfg =
     (case cfg of
        Running q w \<Rightarrow> \<exists>n. fsm_path h t f n c (q, w)
      | Stopped (Ret w') \<Rightarrow> \<exists>n w0 e. fsm_path h t f n c (f, w0) \<and> h f w0 = Ret (e, w')
      | Stopped (Throw x) \<Rightarrow>
          \<exists>n q' w0. fsm_path h t f n c (q', w0) \<and>
            (h q' w0 = Throw x \<or> (q' \<noteq> f \<and> (\<exists>e w'. h q' w0 = Ret (e, w') \<and> t q' e = None)))
      | Stopped r \<Rightarrow> True)"

lemma fsm_advance_traced:
  assumes "fsm_traced h t f c s"
  shows "fsm_traced h t f c (fsm_advance h t f s)"
proof (cases s)
  case (Running q w)
  with assms obtain n where p: "fsm_path h t f n c (q, w)" by (auto simp: fsm_traced_def)
  show ?thesis
  proof (cases "h q w")
    case (Ret r)
    obtain e w' where r: "r = (e, w')" by (cases r)
    show ?thesis
    proof (cases "q = f \<or> t q e = None")
      case True
      with p Ret r Running show ?thesis
        by (cases "q = f") (simp add: fsm_traced_def, blast)+
    next
      case False
      then obtain q' where "t q e = Some q'" and "q \<noteq> f" by auto
      then have "fsm_step h t f (q, w) (q', w')" using Ret r by (auto intro: fsm_stepI)
      then have "fsm_path h t f (Suc n) c (q', w')" using p by (rule path_step [rotated])
      then show ?thesis using Ret r Running \<open>t q e = Some q'\<close> \<open>q \<noteq> f\<close> by (auto simp: fsm_traced_def)
    qed
  qed (use p Running in \<open>auto simp: fsm_traced_def\<close>)
next
  case (Stopped r)
  with assms show ?thesis by simp
qed

lemma fsm_run_traced:
  assumes "while_option fsm_running (fsm_advance h t f) (Running q w) = Some cfg"
  shows "fsm_traced h t f (q, w) cfg"
proof (rule while_option_rule [where P = "fsm_traced h t f (q, w)", OF _ assms])
  show "fsm_traced h t f (q, w) (Running q w)"
    by (auto simp: fsm_traced_def)
qed (rule fsm_advance_traced)

interpretation ref: fsm_runner fsm_run
proof unfold_locales
  fix h t q f w w'
  assume "fsm_run h t q f w = Ret w'"
  then obtain cfg where "while_option fsm_running (fsm_advance h t f) (Running q w) = Some cfg"
    and "cfg = Stopped (Ret w')"
    by (auto simp: fsm_run_def split: option.splits fsm_config.splits)
  then have "fsm_traced h t f (q, w) (Stopped (Ret w'))" by (auto dest: fsm_run_traced)
  then show "\<exists>n w0 e. fsm_path h t f n (q, w) (f, w0) \<and> h f w0 = Ret (e, w')"
    by (simp add: fsm_traced_def)
next
  fix h t q f w x
  assume "fsm_run h t q f w = Throw x" and total: "\<And>p e. p \<noteq> f \<Longrightarrow> t p e \<noteq> None"
  then obtain cfg where "while_option fsm_running (fsm_advance h t f) (Running q w) = Some cfg"
    and "cfg = Stopped (Throw x)"
    by (auto simp: fsm_run_def split: option.splits fsm_config.splits)
  then have "fsm_traced h t f (q, w) (Stopped (Throw x))" by (auto dest: fsm_run_traced)
  then show "\<exists>n q' w0. fsm_path h t f n (q, w) (q', w0) \<and> h q' w0 = Throw x"
    using total by (simp add: fsm_traced_def) (metis option.distinct(1))
qed (subst fsm_run_unfold, simp)+

end
