(* ===== verification/Framing.thy ===== *)
theory Framing
  imports CpuPrelude
begin

text \<open>
  The frames of the serial protocol: \<^verbatim>\<open>prepareFrames\<close> of
  \<^verbatim>\<open>CpuComDaemon/src/vcpu/protocol/Protocol.cpp\<close> with its constants, the decoding of the
  extended length and of the frame numbers, and the extraction of the message from the received
  frames that \<^verbatim>\<open>Protocol::receive\<close> performs. The checksum function is
  \<^verbatim>\<open>common::checksum\<close> of the common library, which is not part of the repository: it is
  the parameter \<open>cs\<close> of every definition, and no property of it is assumed.
\<close>

section \<open>Constants\<close>

definition STX :: byte where "STX = 0x02"
definition ETX :: byte where "ETX = 0x03"
definition ENQ :: byte where "ENQ = 0x05"
definition ACK :: byte where "ACK = 0x06"
definition NAK :: byte where "NAK = 0x15"
definition EXT_LEN :: byte where "EXT_LEN = 0xfe"

definition kStxLength :: nat where "kStxLength = 1"
definition kLenLength :: nat where "kLenLength = 1"
definition kCmdLength :: nat where "kCmdLength = 3"
definition kExtLenLength :: nat where "kExtLenLength = 3"
definition kFrameNumberLength :: nat where "kFrameNumberLength = 2"
definition kTotalFramesLength :: nat where "kTotalFramesLength = 2"
definition kEtxLength :: nat where "kEtxLength = 1"
definition kCsLength :: nat where "kCsLength = 1"
definition kFrameHeaderLength :: nat where "kFrameHeaderLength = kStxLength + kLenLength"
definition kFrameFooterLength :: nat where "kFrameFooterLength = kEtxLength + kCsLength"

definition kMinFrameLength :: nat where "kMinFrameLength = 5"
definition kMaxFrameLength :: nat where "kMaxFrameLength = 253"
definition kMaxActualDataLength :: nat where "kMaxActualDataLength = 1024"
definition kMaxExtendedLengthFrameLength :: nat where "kMaxExtendedLengthFrameLength = 1032"

lemmas control_codes = STX_def ETX_def ENQ_def ACK_def NAK_def EXT_LEN_def

lemmas field_lengths [simp] =
  kStxLength_def kLenLength_def kCmdLength_def kExtLenLength_def kFrameNumberLength_def
  kTotalFramesLength_def kEtxLength_def kCsLength_def kFrameHeaderLength_def
  kFrameFooterLength_def kMinFrameLength_def kMaxFrameLength_def kMaxActualDataLength_def
  kMaxExtendedLengthFrameLength_def

lemma control_codes_distinct [simp]:
  "STX \<noteq> ETX" "ETX \<noteq> STX" "ACK \<noteq> NAK" "NAK \<noteq> ACK" "ACK \<noteq> ENQ" "ENQ \<noteq> ACK" "NAK \<noteq> ENQ" "ENQ \<noteq> NAK"
  by (simp_all add: control_codes)

section \<open>Encoding\<close>

text \<open>Appends \<open>ETX\<close> and the checksum of everything after \<open>STX\<close>.\<close>

definition seal :: "(byte list \<Rightarrow> byte) \<Rightarrow> byte list \<Rightarrow> byte list" where
  "seal cs frame = (let frame = frame @ [ETX] in frame @ [cs (tl frame)])"

definition length_bytes :: "u32 \<Rightarrow> byte list" where
  "length_bytes len =
     [ucast (drop_bit 16 len AND 0xff), ucast (drop_bit 8 len AND 0xff), ucast (len AND 0xff)]"

definition number_bytes :: "u32 \<Rightarrow> byte list" where
  "number_bytes n = [ucast (drop_bit 8 n AND 0xff), ucast (n AND 0xff)]"

definition regular_frame :: "(byte list \<Rightarrow> byte) \<Rightarrow> byte list \<Rightarrow> byte list" where
  "regular_frame cs data = seal cs ([STX, word_of_nat (length data + kFrameFooterLength)] @ data)"

definition extended_frame :: "(byte list \<Rightarrow> byte) \<Rightarrow> byte list \<Rightarrow> byte list" where
  "extended_frame cs data =
     (let len = word_of_nat (length data + kExtLenLength + kFrameFooterLength)
      in seal cs ([STX, EXT_LEN, data ! 0, data ! 1, data ! 2] @ length_bytes len @ drop 3 data))"

definition division_frame ::
    "(byte list \<Rightarrow> byte) \<Rightarrow> u32 \<Rightarrow> byte \<Rightarrow> byte \<Rightarrow> byte \<Rightarrow> u32 \<Rightarrow> u32 \<Rightarrow> byte list \<Rightarrow> byte list" where
  "division_frame cs framesCount command subCommand codebit i len chunk =
     seal cs ([STX, EXT_LEN, command, subCommand, codebit] @ length_bytes len @
              number_bytes i @ number_bytes framesCount @ chunk)"

text \<open>
  The loop over the frames of a divided message. \<open>is\<close> are the values of \<^verbatim>\<open>i\<close> still
  to come; \<open>codebit\<close>, \<open>actualDataLength\<close> and \<open>data\<close> are the variables the body
  updates.
\<close>

fun division_loop ::
    "(byte list \<Rightarrow> byte) \<Rightarrow> u32 \<Rightarrow> byte \<Rightarrow> byte \<Rightarrow> nat list \<Rightarrow> byte \<Rightarrow> u32 \<Rightarrow> byte list \<Rightarrow> byte list list"
  where
  "division_loop cs framesCount command subCommand [] codebit actualDataLength data = []"
| "division_loop cs framesCount command subCommand (i # is) codebit actualDataLength data =
     (let codebit = (if (word_of_nat i :: u32) = framesCount - 1 then codebit OR 0x03
                     else codebit OR 0x02);
          len = min actualDataLength (word_of_nat kMaxActualDataLength);
          actualDataLength = actualDataLength - len;
          len = len + word_of_nat (kCmdLength + kExtLenLength + kFrameNumberLength +
                                   kTotalFramesLength + kFrameFooterLength);
          start = (if i = 0 then 3 else 0);
          dataLength = unat (min (word_of_nat kMaxActualDataLength) (word_of_nat (length data) :: u32))
      in division_frame cs framesCount command subCommand codebit (word_of_nat i) len
           (take dataLength (drop start data))
         # division_loop cs framesCount command subCommand is codebit actualDataLength
             (drop (dataLength + (if i = 0 then kCmdLength else 0)) data))"

definition frames_count :: "u32 \<Rightarrow> u32" where
  "frames_count actualDataLength =
     actualDataLength div word_of_nat kMaxActualDataLength +
     (if 0 < actualDataLength mod word_of_nat kMaxActualDataLength then 1 else 0)"

definition divided_frames :: "(byte list \<Rightarrow> byte) \<Rightarrow> byte list \<Rightarrow> byte list list" where
  "divided_frames cs data =
     (let actualDataLength = word_of_nat (length data - kCmdLength) :: u32;
          framesCount = frames_count actualDataLength
      in division_loop cs framesCount (data ! 0) (data ! 1) [0..<unat framesCount] (data ! 2)
           actualDataLength data)"

definition prepareFrames :: "(byte list \<Rightarrow> byte) \<Rightarrow> byte list \<Rightarrow> byte list list" where
  "prepareFrames cs data =
     (if length data \<le> kMaxFrameLength - kFrameFooterLength then [regular_frame cs data]
      else if length data \<le> kMaxExtendedLengthFrameLength - kFrameFooterLength
      then [extended_frame cs data]
      else divided_frames cs data)"

section \<open>Decoding\<close>

datatype TransmitionType = NotDefinedYet | Regular | ExtendedLength | ExtendedLengthWithFrameDivision

text \<open>The extended length of \<^verbatim>\<open>recvDataExtLen\<close> and the numbers of \<^verbatim>\<open>recvDataFrameNumber\<close>.\<close>

definition decode_length :: "byte \<Rightarrow> byte \<Rightarrow> byte \<Rightarrow> u32" where
  "decode_length b0 b1 b2 =
     (push_bit 16 (ucast b0) AND 0x00ff0000) + (push_bit 8 (ucast b1) AND 0x0000ff00) +
     (ucast b2 AND 0x000000ff)"

definition decode_number :: "byte \<Rightarrow> byte \<Rightarrow> 16 word" where
  "decode_number b0 b1 = (push_bit 8 (ucast b0) AND 0xff00) + (ucast b1 AND 0x00ff)"

text \<open>
  The message inside the frames of a finished reception (the second half of
  \<^verbatim>\<open>Protocol::receive\<close>). \<open>join_frames\<close> is its loop over the frames of a divided message,
  run on the frame numbers \<open>is\<close>; the first frame keeps its header, the last one its footer.
\<close>

fun join_frames :: "byte list list \<Rightarrow> u32 \<Rightarrow> nat list \<Rightarrow> byte list \<Rightarrow> byte list outcome" where
  "join_frames frames totalFrames [] data = Ret data"
| "join_frames frames totalFrames (i # is) data =
     obind (vec_at frames i) (\<lambda>frame.
       if i = 0 then
         obind (vec_erase (kStxLength + kLenLength + kCmdLength)
                  (kStxLength + kLenLength + kCmdLength + kExtLenLength + kFrameNumberLength +
                   kTotalFramesLength) frame) (\<lambda>data.
         obind (if kCsLength + kEtxLength \<le> length data
                then vec_erase (length data - (kCsLength + kEtxLength)) (length data) data
                else Throw Undefined_behaviour)
           (join_frames frames totalFrames is))
       else
         obind (if kCsLength + kEtxLength \<le> length frame then
                  vec_slice (kStxLength + kLenLength + kCmdLength + kExtLenLength +
                             kFrameNumberLength + kTotalFramesLength)
                    (if (word_of_nat i :: u32) = totalFrames - 1 then length frame
                     else length frame - (kCsLength + kEtxLength)) frame
                else Throw Undefined_behaviour)
           (\<lambda>actual. join_frames frames totalFrames is (data @ actual)))"

text \<open>Removal of \<open>STX\<close>, the length byte, \<open>ETX\<close> and the checksum.\<close>

definition strip_envelope :: "byte list \<Rightarrow> byte list outcome" where
  "strip_envelope data =
     obind (vec_erase 0 (kStxLength + kLenLength) data) (\<lambda>data.
       if kCsLength + kEtxLength \<le> length data
       then vec_erase (length data - (kCsLength + kEtxLength)) (length data) data
       else Throw Undefined_behaviour)"

definition extract_message ::
    "TransmitionType \<Rightarrow> byte list list \<Rightarrow> nat \<Rightarrow> u32 \<Rightarrow> byte list outcome" where
  "extract_message type frames currentFrame totalFrames =
     obind
       (case type of
          ExtendedLengthWithFrameDivision \<Rightarrow> join_frames frames totalFrames [0..<unat totalFrames] []
        | ExtendedLength \<Rightarrow>
            obind (vec_at frames currentFrame) (\<lambda>data.
              vec_erase (kStxLength + kLenLength + kCmdLength)
                (kStxLength + kLenLength + kCmdLength + kExtLenLength) data)
        | _ \<Rightarrow> vec_at frames currentFrame)
       strip_envelope"

section \<open>Lengths and numbers survive the encoding\<close>

lemma decode_length_bytes:
  assumes "len < 2 ^ 24"
  shows "decode_length (length_bytes len ! 0) (length_bytes len ! 1) (length_bytes len ! 2) = len"
proof -
  have "decode_length (ucast (drop_bit 16 len AND 0xff)) (ucast (drop_bit 8 len AND 0xff))
          (ucast (len AND 0xff)) = len"
    unfolding decode_length_def byte_masks
    apply (subst disjunctive_add_eq_or)
    subgoal by (rule bit_word_eqI) (auto simp: bit_simps)
    apply (subst disjunctive_add_eq_or)
    subgoal by (rule bit_word_eqI) (auto simp: bit_simps)
    apply (rule bit_word_eqI)
    subgoal for n by (cases "n < 8"; cases "n < 16") (auto simp: bit_simps dest: bit_below_24 [OF assms])
    done
  then show ?thesis by (simp add: length_bytes_def)
qed

lemma decode_number_bytes:
  "decode_number (number_bytes n ! 0) (number_bytes n ! 1) = ucast n"
proof -
  have "decode_number (ucast (drop_bit 8 n AND 0xff)) (ucast (n AND 0xff)) = ucast n"
    unfolding decode_number_def byte_masks
    apply (subst disjunctive_add_eq_or)
    subgoal by (rule bit_word_eqI) (auto simp: bit_simps)
    apply (rule bit_word_eqI)
    apply (auto simp: bit_simps)
    done
  then show ?thesis by (simp add: number_bytes_def)
qed

lemma length_length_bytes [simp]: "length (length_bytes n) = 3"
  by (simp add: length_bytes_def)

lemma length_number_bytes [simp]: "length (number_bytes n) = 2"
  by (simp add: number_bytes_def)

section \<open>The frames of a divided message\<close>

text \<open>
  Frame \<open>j\<close> of a message with header \<open>c\<close>, \<open>s\<close>, \<open>cb\<close> and payload \<open>P\<close> in
  \<open>n\<close> frames: the payload cut at multiples of 1024, its own number, and the flags that say
  whether another frame follows.
\<close>

definition nth_division_frame ::
    "(byte list \<Rightarrow> byte) \<Rightarrow> nat \<Rightarrow> byte \<Rightarrow> byte \<Rightarrow> byte \<Rightarrow> byte list \<Rightarrow> nat \<Rightarrow> byte list" where
  "nth_division_frame cs n c s cb P j =
     division_frame cs (word_of_nat n) c s (if Suc j = n then cb OR 0x03 else cb OR 0x02)
       (word_of_nat j) (word_of_nat (min 1024 (length P - 1024 * j) + 12))
       (take 1024 (drop (1024 * j) P))"

lemma word_of_nat_eq_pred:
  assumes "i < n" and "n < 2 ^ 32"
  shows "(word_of_nat i :: u32) = word_of_nat n - 1 \<longleftrightarrow> Suc i = n"
proof -
  have "(word_of_nat n - 1 :: u32) = word_of_nat (n - 1)"
    using assms by (simp add: of_nat_diff)
  moreover have "(word_of_nat i :: u32) = word_of_nat (n - 1) \<longleftrightarrow> i = n - 1"
    using assms by (simp add: word_unat_eq_iff del: of_nat_diff of_nat_Suc)
  ultimately show ?thesis using assms by auto
qed

lemma min_chunk:
  assumes "a < 2 ^ 32"
  shows "unat (min (word_of_nat 1024) (word_of_nat a) :: u32) = min 1024 a"
    and "min (word_of_nat a) (word_of_nat 1024 :: u32) = word_of_nat (min 1024 a)"
    and "(word_of_nat a :: u32) - word_of_nat (min 1024 a) = word_of_nat (a - min 1024 a)"
proof -
  have *: "(word_of_nat 1024 :: u32) \<le> word_of_nat a \<longleftrightarrow> 1024 \<le> a"
    using assms by (simp add: word_le_nat_alt)
  then show "unat (min (word_of_nat 1024) (word_of_nat a) :: u32) = min 1024 a"
    and "min (word_of_nat a) (word_of_nat 1024 :: u32) = word_of_nat (min 1024 a)"
    using assms by (auto simp: min_def word_le_nat_alt)
  show "(word_of_nat a :: u32) - word_of_nat (min 1024 a) = word_of_nat (a - min 1024 a)"
    by (simp add: of_nat_diff)
qed

lemma division_loop_tail:
  assumes "1 \<le> i" and "n < 2 ^ 32" and "length P < 2 ^ 32" and "cb OR 0x02 = cb"
  shows "division_loop cs (word_of_nat n) c s [i..<n] cb (word_of_nat (length P - 1024 * i))
           (drop (1024 * i) P) = map (nth_division_frame cs n c s cb P) [i..<n]"
  using assms(1)
proof (induction "n - i" arbitrary: i)
  case 0
  then show ?case by simp
next
  case (Suc m)
  let ?a = "length P - 1024 * i"
  have a: "?a < 2 ^ 32" using assms(3) by simp
  have i: "i < n" "i \<noteq> 0" using Suc by auto
  then have upt: "[i..<n] = i # [Suc i..<n]" by (simp add: upt_first)
  note word = word_of_nat_eq_pred [OF i(1) assms(2)] min_chunk [OF a] of_nat_add [of _ 12]
  have rest: "length P - (1024 * i + min 1024 ?a) = length P - (1024 + 1024 * i)"
    and data: "drop (min 1024 ?a + 1024 * i) P = drop (1024 + 1024 * i) P"
    by (auto simp: min_def)
  have tk: "take (min 1024 ?a) (drop (1024 * i) P) = take 1024 (drop (1024 * i) P)"
    by (simp add: min_def)
  have cb: "cb OR 0x02 OR 0x03 = cb OR 0x03"
    by (simp add: or.assoc)
  show ?case
  proof (cases "Suc i = n")
    case True
    then show ?thesis using i
      by (simp add: upt Let_def word rest data tk nth_division_frame_def assms(4)
          del: of_nat_add of_nat_numeral of_nat_Suc upt_Suc)
  next
    case False
    then have "division_loop cs (word_of_nat n) c s [Suc i..<n] cb
        (word_of_nat (length P - 1024 * Suc i)) (drop (1024 * Suc i) P) =
        map (nth_division_frame cs n c s cb P) [Suc i..<n]"
      by (intro Suc.hyps(1)) (use Suc.hyps(2) in auto)
    with False i show ?thesis
      by (simp add: upt Let_def word rest data tk nth_division_frame_def assms(4)
          del: of_nat_add of_nat_numeral of_nat_Suc upt_Suc)
  qed
qed

lemma or_flags: "(b OR 0x02 :: byte) OR 0x02 = b OR 0x02" "(b OR 0x02 :: byte) OR 0x03 = b OR 0x03"
  by (simp_all add: or.assoc)

text \<open>
  The number of frames: the payload length divided by 1024, rounded up.
\<close>

lemma frames_count_nat:
  assumes "l < 2 ^ 32"
  shows "frames_count (word_of_nat l) = word_of_nat ((l + 1023) div 1024)"
    and "unat (frames_count (word_of_nat l)) = (l + 1023) div 1024"
proof -
  have d: "(word_of_nat l :: u32) div word_of_nat 1024 = word_of_nat (l div 1024)"
    using assms by (simp add: word_unat_eq_iff unat_div)
  have m: "(0 :: u32) < word_of_nat l mod word_of_nat 1024 \<longleftrightarrow> l mod 1024 \<noteq> 0"
    using assms by (simp add: word_less_nat_alt unat_mod)
  obtain q r where qr: "l = 1024 * q + r" "r < 1024" "l div 1024 = q" "l mod 1024 = r"
    by (metis mod_less_divisor mult_div_mod_eq zero_less_numeral)
  have "(l + 1023) div 1024 = l div 1024 + (if l mod 1024 = 0 then 0 else 1)"
    unfolding qr(3,4) using qr(1,2) by (intro div_nat_eqI) (auto split: if_split)
  then show e: "frames_count (word_of_nat l) = word_of_nat ((l + 1023) div 1024)"
    by (simp add: frames_count_def d m del: of_nat_numeral)
  show "unat (frames_count (word_of_nat l)) = (l + 1023) div 1024"
    using assms by (simp add: e)
qed

lemma divided_frames_eq:
  assumes d: "d = c # s # cb # P" and big: "1024 < length P" and fits: "length P < 2 ^ 32 - 3"
  shows "divided_frames cs d =
    map (nth_division_frame cs ((length P + 1023) div 1024) c s cb P) [0..<(length P + 1023) div 1024]"
proof -
  let ?n = "(length P + 1023) div 1024"
  have n: "0 < ?n" "Suc 0 \<noteq> ?n" "?n < 2 ^ 32" using big fits by auto
  then have upt: "[0..<?n] = 0 # [1..<?n]" by (simp add: upt_first)
  have len: "length P < 2 ^ 32" "length d < 2 ^ 32" "length d - kCmdLength = length P"
    and mins: "min 1024 (length P) = 1024" "min 1024 (length d) = 1024"
    using d big fits by simp_all
  have w: "(word_of_nat ?n :: u32) \<noteq> 1"
    using word_of_nat_eq_pred [OF n(1,3)] n(2) by auto
  have m: "min (word_of_nat (length P)) 1024 = (1024 :: u32)"
    "unat (min 1024 (3 + word_of_nat (length P)) :: u32) = 1024"
    using min_chunk(2) [OF len(1)] min_chunk(1) [OF len(2)] mins d by simp_all
  note word = frames_count_nat [OF len(1)] len(3) mins m w
  have tail: "division_loop cs (word_of_nat ?n) c s [1..<?n] (cb OR 0x02)
      (word_of_nat (length P - 1024)) (drop 1024 P) =
      map (nth_division_frame cs ?n c s (cb OR 0x02) P) [1..<?n]"
    using division_loop_tail [of 1 ?n P "cb OR 0x02" cs c s] n len by (simp add: or_flags)
  have flags: "nth_division_frame cs ?n c s (cb OR 0x02) P = nth_division_frame cs ?n c s cb P"
    by (rule ext) (simp add: nth_division_frame_def or_flags)
  have "division_loop cs (word_of_nat ?n) c s (0 # [1..<?n]) cb (word_of_nat (length P)) d =
      map (nth_division_frame cs ?n c s cb P) (0 # [1..<?n])"
    using n big tail by (simp add: d word Let_def flags nth_division_frame_def [of _ _ _ _ _ _ 0])
  moreover have "d ! 0 = c" "d ! 1 = s" "d ! 2 = cb" using d by simp_all
  moreover have "unat (word_of_nat ?n :: u32) = ?n" using n(3) by simp
  ultimately show ?thesis
    by (simp only: divided_frames_def Let_def len(3) frames_count_nat(1) [OF len(1)] upt)
qed

section \<open>Extraction inverts preparation\<close>

lemma seal_append: "xs \<noteq> [] \<Longrightarrow> seal cs xs = xs @ [ETX, cs (tl (xs @ [ETX]))]"
  by (simp add: seal_def)

lemma strip_envelope_frame [simp]: "strip_envelope (a # b # xs @ [e, k]) = Ret xs"
  by (simp add: strip_envelope_def vec_erase_def)

lemmas strip_envelope_header [simp] = strip_envelope_frame [of a b "x # y # z # xs" for a b x y z xs, simplified]

lemma join_frames_tail:
  assumes frames: "n \<le> length frames"
      "\<And>j. j < n \<Longrightarrow> frames ! j = h j @ ch j @ ft j \<and> length (h j) = 12 \<and> length (ft j) = 2"
    and n: "n < 2 ^ 32" and i: "1 \<le> i" "i < n"
  shows "join_frames frames (word_of_nat n) [i..<n] acc =
    Ret (acc @ concat (map ch [i..<n]) @ ft (n - 1))"
  using i
proof (induction "n - i" arbitrary: i acc)
  case (Suc m)
  have upt: "[i..<n] = i # [Suc i..<n]" using Suc.prems by (simp add: upt_first)
  note f = frames(2) [OF Suc.prems(2)] and w = word_of_nat_eq_pred [OF Suc.prems(2) n]
  show ?case
  proof (cases "Suc i = n")
    case True
    then show ?thesis using f w frames(1) Suc.prems by (auto simp: upt vec_slice_def)
  next
    case False
    with Suc.prems have i: "1 \<le> Suc i" "Suc i < n" by auto
    have "join_frames frames (word_of_nat n) [Suc i..<n] (acc @ ch i) =
        Ret ((acc @ ch i) @ concat (map ch [Suc i..<n]) @ ft (n - 1))"
      by (rule Suc.hyps(1)) (use Suc.hyps(2) i in auto)
    then show ?thesis using False f w frames(1) Suc.prems by (simp add: upt vec_slice_def)
  qed
qed simp

lemma join_frames_all:
  assumes frames: "n \<le> length frames"
      "\<And>j. j < n \<Longrightarrow> frames ! j = h j @ ch j @ ft j \<and> length (h j) = 12 \<and> length (ft j) = 2"
    and n: "n < 2 ^ 32" "1 < n"
  shows "join_frames frames (word_of_nat n) [0..<n] [] =
    Ret (take 5 (h 0) @ concat (map ch [0..<n]) @ ft (n - 1))"
proof -
  have upt: "[0..<n] = 0 # [1..<n]" using n by (simp add: upt_first)
  have f: "frames ! 0 = h 0 @ ch 0 @ ft 0" "length (h 0) = 12" "length (ft 0) = 2" "0 < length frames"
    using frames(1) frames(2) [of 0] n by auto
  show ?thesis
    using f frames n join_frames_tail [OF frames n(1), of 1 "take 5 (h 0) @ ch 0"]
    by (simp add: upt vec_erase_def)
qed

text \<open>A frame number without a frame ends the loop.\<close>

lemma join_frames_within: "join_frames frames t is data = Ret d \<Longrightarrow> \<forall>i\<in>set is. i < length frames"
proof (induction "is" arbitrary: data)
  case (Cons i "is")
  then show ?case
    by (cases "i < length frames") (auto simp: outcome_eqs vec_at_def Let_def split: if_splits)
qed simp

definition message_of_frames :: "byte list list \<Rightarrow> TransmitionType \<Rightarrow> byte list outcome" where
  "message_of_frames frames type =
     extract_message type frames (length frames - 1) (word_of_nat (length frames))"

lemma extract_regular: "message_of_frames [regular_frame cs d] Regular = Ret d"
  by (simp add: message_of_frames_def extract_message_def regular_frame_def seal_append)

lemma extract_extended:
  assumes "3 \<le> length d"
  shows "message_of_frames [extended_frame cs d] ExtendedLength = Ret d"
proof -
  from assms obtain a b c P where "d = a # b # c # P"
    by (metis Suc_le_length_iff numeral_3_eq_3)
  then show ?thesis
    by (simp add: message_of_frames_def extract_message_def extended_frame_def seal_append Let_def
        vec_erase_def)
qed

lemma extract_divided:
  assumes d: "d = c # s # cb # P" and big: "1024 < length P" and fits: "length P < 2 ^ 32 - 3"
  shows "message_of_frames (divided_frames cs d) ExtendedLengthWithFrameDivision =
    Ret (c # s # (cb OR 0x02) # P)"
proof -
  let ?n = "(length P + 1023) div 1024"
  have n: "1 < ?n" "?n < 2 ^ 32" and cover: "length P \<le> 1024 * ?n" using big fits by auto
  let ?cb = "\<lambda>j. if Suc j = ?n then cb OR 0x03 else cb OR 0x02"
  let ?h = "\<lambda>j. [STX, EXT_LEN, c, s, ?cb j] @
    length_bytes (word_of_nat (min 1024 (length P - 1024 * j) + 12)) @
    number_bytes (word_of_nat j) @ number_bytes (word_of_nat ?n)"
  let ?ch = "\<lambda>j. take 1024 (drop (1024 * j) P)"
  let ?ft = "\<lambda>j. [ETX, cs (tl (?h j @ ?ch j @ [ETX]))]"
  let ?frames = "map (nth_division_frame cs ?n c s cb P) [0..<?n]"
  have "join_frames ?frames (word_of_nat ?n) [0..<?n] [] =
      Ret (take 5 (?h 0) @ concat (map ?ch [0..<?n]) @ ?ft (?n - 1))"
    by (rule join_frames_all [OF _ _ n(2,1)])
       (simp_all add: nth_division_frame_def division_frame_def seal_append)
  also have "concat (map ?ch [0..<?n]) = P"
    using cover by (simp only: concat_chunks) simp
  finally show ?thesis
    using n by (simp add: message_of_frames_def extract_message_def divided_frames_eq [OF d big fits])
qed

section \<open>The number of frames\<close>

lemma length_division_loop [simp]:
  "length (division_loop cs n c s is cb l data) = length is"
  by (induction "is" arbitrary: cb l data) (simp_all add: Let_def)

lemma prepareFrames_nonempty:
  assumes "length data < 2 ^ 32"
  shows "prepareFrames cs data \<noteq> []"
proof -
  have "length (divided_frames cs data) = (length data - 3 + 1023) div 1024"
    using assms frames_count_nat(2) [of "length data - 3"] by (simp add: divided_frames_def Let_def)
  then have "divided_frames cs data \<noteq> []" if "1030 < length data"
    using that by auto
  then show ?thesis by (auto simp: prepareFrames_def)
qed

end
