(* ===== verification/ProtocolState.thy ===== *)
theory ProtocolState
  imports Framing
begin

text \<open>
  The state that the send and the receive machine of \<^verbatim>\<open>Protocol\<close> work on. The device is
  \<^verbatim>\<open>common::IODevice\<close>, a class of the common library that is not part of the repository:
  it is the parameter \<open>D\<close>, a record of its operations over a device state \<open>'d\<close>. The
  protocol object holds the device, the mutex \<^verbatim>\<open>m_accessLock\<close> and the retry counters; the
  contexts are the classes \<^verbatim>\<open>Context\<close> and \<^verbatim>\<open>RecvContext\<close> of \<^verbatim>\<open>Protocol.cpp\<close>.
\<close>

section \<open>The device\<close>

datatype io_result = IO_Success | IO_Timeout | IO_Error

datatype timeout = Immediate | Infinite | Millis nat

text \<open>
  A read of one byte is given the present value of the caller's variable and returns its new
  one; a read of several bytes returns the bytes that arrived in the buffer; the two overloads
  of \<^verbatim>\<open>write\<close> take a byte and a buffer.
\<close>

record 'd IODevice =
  dev_open :: "'d \<Rightarrow> bool \<times> 'd"
  dev_close :: "'d \<Rightarrow> 'd"
  dev_read :: "'d \<Rightarrow> timeout \<Rightarrow> byte \<Rightarrow> io_result \<times> byte \<times> 'd"
  dev_readMulti :: "'d \<Rightarrow> nat \<Rightarrow> timeout \<Rightarrow> io_result \<times> byte list \<times> 'd"
  dev_write_byte :: "'d \<Rightarrow> byte \<Rightarrow> io_result \<times> 'd"
  dev_write :: "'d \<Rightarrow> byte list \<Rightarrow> io_result \<times> 'd"
  dev_poll :: "'d \<Rightarrow> timeout \<Rightarrow> io_result \<times> 'd"

definition kTimeout3 :: timeout where "kTimeout3 = Millis 50"
definition kTimeout4 :: timeout where "kTimeout4 = Millis 50"

text \<open>
  The loop that reads until a read does not succeed. \<open>None\<close> is a device that never stops
  delivering bytes.
\<close>

definition drain ::
    "'d IODevice \<Rightarrow> io_result \<times> byte \<times> 'd \<Rightarrow> (io_result \<times> byte \<times> 'd) option" where
  "drain D = while_option (\<lambda>(r, b, d). r = IO_Success) (\<lambda>(r, b, d). dev_read D d Immediate b)"

lemma drain_unfold:
  "drain D (r, b, d) = (if r = IO_Success then drain D (dev_read D d Immediate b) else Some (r, b, d))"
  unfolding drain_def by (subst while_option_unfold) simp

lemma drain_not_success: "drain D s = Some (r, b, d) \<Longrightarrow> r \<noteq> IO_Success"
  unfolding drain_def by (drule while_option_stop) simp

section \<open>The protocol object\<close>

text \<open>The two threads that use a protocol object: the one that sends and the one that receives.\<close>

datatype party = Sending | Receiving

record 'd Protocol =
  m_device :: 'd
  m_accessLock :: "party option"
  m_r1 :: u32
  m_r2 :: u32

text \<open>
  \<^verbatim>\<open>std::mutex\<close>: locking waits while another thread holds it and is undefined when the
  calling thread does; unlocking is undefined unless the calling thread holds it.
\<close>

definition mutex_lock :: "party \<Rightarrow> 'd Protocol \<Rightarrow> 'd Protocol outcome" where
  "mutex_lock me p =
     (case m_accessLock p of
        None \<Rightarrow> Ret (p\<lparr>m_accessLock := Some me\<rparr>)
      | Some owner \<Rightarrow> if owner = me then Throw Mutex_misuse else Blocked)"

definition mutex_unlock :: "party \<Rightarrow> 'd Protocol \<Rightarrow> 'd Protocol outcome" where
  "mutex_unlock me p =
     (if m_accessLock p = Some me then Ret (p\<lparr>m_accessLock := None\<rparr>) else Throw Mutex_misuse)"

lemma mutex_lock_free [simp]: "m_accessLock p = None \<Longrightarrow> mutex_lock me p = Ret (p\<lparr>m_accessLock := Some me\<rparr>)"
  by (simp add: mutex_lock_def)

lemma mutex_unlock_held [simp]:
  "m_accessLock p = Some me \<Longrightarrow> mutex_unlock me p = Ret (p\<lparr>m_accessLock := None\<rparr>)"
  by (simp add: mutex_unlock_def)

datatype Event = Pass | Busy | Wait | Deny | Fail

section \<open>Contexts\<close>

record Context =
  m_currentFrame :: nat
  m_frames :: "byte list list"
  m_result :: bool

text \<open>\<^verbatim>\<open>m_frames.at(m_currentFrame)\<close>, and the update of the frame it refers to.\<close>

definition currentFrame :: "'c Context_scheme \<Rightarrow> byte list outcome" where
  "currentFrame c = vec_at (m_frames c) (m_currentFrame c)"

definition set_currentFrame :: "byte list \<Rightarrow> 'c Context_scheme \<Rightarrow> 'c Context_scheme" where
  "set_currentFrame frame c = c\<lparr>m_frames := (m_frames c)[m_currentFrame c := frame]\<rparr>"

definition onFrameCompleted :: "'c Context_scheme \<Rightarrow> 'c Context_scheme outcome" where
  "onFrameCompleted c =
     (let c = c\<lparr>m_currentFrame := m_currentFrame c + 1\<rparr>
      in if m_currentFrame c < length (m_frames c) then Ret c else Throw Assertion_failed)"

section \<open>Observing a device\<close>

text \<open>
  A device that records, newest first, every call made on it and its result. It is used in
  statements about what a call does on the line, with any device inside it.
\<close>

datatype io_event = Opened bool | Closed | ReadByte io_result byte
  | ReadMulti io_result nat "byte list" | WroteByte io_result byte | Wrote io_result "byte list"
  | Polled io_result

definition logged :: "'d IODevice \<Rightarrow> ('d \<times> io_event list) IODevice" where
  "logged D = \<lparr>
     dev_open = (\<lambda>(d, l). case dev_open D d of (r, d) \<Rightarrow> (r, d, Opened r # l)),
     dev_close = (\<lambda>(d, l). (dev_close D d, Closed # l)),
     dev_read = (\<lambda>(d, l) t b. case dev_read D d t b of (r, b, d) \<Rightarrow> (r, b, d, ReadByte r b # l)),
     dev_readMulti = (\<lambda>(d, l) n t. case dev_readMulti D d n t of
                                     (r, bs, d) \<Rightarrow> (r, bs, d, ReadMulti r n bs # l)),
     dev_write_byte = (\<lambda>(d, l) b. case dev_write_byte D d b of (r, d) \<Rightarrow> (r, d, WroteByte r b # l)),
     dev_write = (\<lambda>(d, l) bs. case dev_write D d bs of (r, d) \<Rightarrow> (r, d, Wrote r bs # l)),
     dev_poll = (\<lambda>(d, l) t. case dev_poll D d t of (r, d) \<Rightarrow> (r, d, Polled r # l))\<rparr>"

lemma logged_simps [simp]:
  "dev_open (logged D) (d, l) = (fst (dev_open D d), snd (dev_open D d), Opened (fst (dev_open D d)) # l)"
  "dev_close (logged D) (d, l) = (dev_close D d, Closed # l)"
  "dev_read (logged D) (d, l) t b =
     (case dev_read D d t b of (r, b, d) \<Rightarrow> (r, b, d, ReadByte r b # l))"
  "dev_readMulti (logged D) (d, l) n t =
     (case dev_readMulti D d n t of (r, bs, d) \<Rightarrow> (r, bs, d, ReadMulti r n bs # l))"
  "dev_write_byte (logged D) (d, l) b =
     (fst (dev_write_byte D d b), snd (dev_write_byte D d b), WroteByte (fst (dev_write_byte D d b)) b # l)"
  "dev_write (logged D) (d, l) bs =
     (fst (dev_write D d bs), snd (dev_write D d bs), Wrote (fst (dev_write D d bs)) bs # l)"
  "dev_poll (logged D) (d, l) t =
     (fst (dev_poll D d t), snd (dev_poll D d t), Polled (fst (dev_poll D d t)) # l)"
  by (simp_all add: logged_def split_beta)

text \<open>
  The frames of a log that were acknowledged: written in full, with an \<open>ACK\<close> as the very
  next event. The oldest comes first.
\<close>

definition ack_of :: "io_event \<Rightarrow> io_event list \<Rightarrow> byte list list" where
  "ack_of e l = (if e = ReadByte IO_Success ACK
                 then (case l of Wrote IO_Success frame # _ \<Rightarrow> [frame] | _ \<Rightarrow> []) else [])"

fun acked :: "io_event list \<Rightarrow> byte list list" where
  "acked [] = []"
| "acked (e # l) = acked l @ ack_of e l"

definition frame_written :: "io_event list \<Rightarrow> bool" where
  "frame_written l \<longleftrightarrow> (\<exists>frame l'. l = Wrote IO_Success frame # l')"

lemma frame_written_simps [simp]:
  "\<not> frame_written []" "\<not> frame_written (ReadByte r b # l)" "\<not> frame_written (WroteByte r b # l)"
  "\<not> frame_written (Opened x # l)" "\<not> frame_written (Closed # l)" "\<not> frame_written (Polled r # l)"
  "frame_written (Wrote r f # l) \<longleftrightarrow> r = IO_Success"
  by (auto simp: frame_written_def)

lemma ack_of_simps [simp]:
  "\<not> frame_written l \<Longrightarrow> ack_of e l = []"
  "ack_of (WroteByte r b) l = []" "ack_of (Wrote r f) l = []" "ack_of (Opened x) l = []"
  "ack_of Closed l = []" "ack_of (Polled r) l = []"
  "ack_of (ReadByte r b) (Wrote IO_Success f # l) = (if r = IO_Success \<and> b = ACK then [f] else [])"
  by (auto simp: ack_of_def frame_written_def split: list.splits io_event.splits io_result.splits)

lemma drain_logged:
  assumes "drain (logged D) (r, b, d, l) = Some (r', b', d', l')" and "\<not> frame_written l"
  shows "acked l' = acked l" and "\<not> frame_written l'"
proof -
  have "(\<lambda>(r, b, d, l'). acked l' = acked l \<and> \<not> frame_written l') (r', b', d', l')"
    using assms(1) unfolding drain_def
    by (rule while_option_rule [rotated]) (use assms(2) in \<open>auto split: prod.splits\<close>)
  then show "acked l' = acked l" and "\<not> frame_written l'" by auto
qed

end
