(* ===== verification/RecvMachine.thy ===== *)
theory RecvMachine
  imports StateMachine ProtocolState
begin

text \<open>
  Receiving: the states and transitions that the constructor of \<^verbatim>\<open>Protocol\<close> configures for
  \<^verbatim>\<open>m_recvMachine\<close>, one definition per handler \<^verbatim>\<open>Protocol::recv...\<close>, and
  \<^verbatim>\<open>Protocol::receive\<close> itself (all in \<^verbatim>\<open>CpuComDaemon/src/vcpu/protocol/Protocol.cpp\<close>).
  Logging and \<^verbatim>\<open>reserve\<close> are left out.
\<close>

section \<open>States and transitions\<close>

datatype RecvState = R_idle | R_poll | R_repoll | R_enquiry | R_ack | R_stx | R_len | R_datacmd
  | R_dataextlen | R_dataframenumber | R_data | R_etx | R_cs | R_ack2 | R_nak | R_retry | R_done
  | R_error | R_end

fun recv_next :: "RecvState \<Rightarrow> Event \<Rightarrow> RecvState" where
  "recv_next R_idle e = (case e of Pass \<Rightarrow> R_poll | _ \<Rightarrow> R_error)"
| "recv_next R_poll e = (case e of Pass \<Rightarrow> R_enquiry | _ \<Rightarrow> R_error)"
| "recv_next R_repoll e = (case e of Pass \<Rightarrow> R_poll | _ \<Rightarrow> R_error)"
| "recv_next R_enquiry e =
     (case e of Pass \<Rightarrow> R_ack | Busy \<Rightarrow> R_repoll | Deny \<Rightarrow> R_retry | _ \<Rightarrow> R_error)"
| "recv_next R_ack e = (case e of Pass \<Rightarrow> R_stx | _ \<Rightarrow> R_error)"
| "recv_next R_stx e = (case e of Pass \<Rightarrow> R_len | Deny \<Rightarrow> R_nak | _ \<Rightarrow> R_error)"
| "recv_next R_len e = (case e of Pass \<Rightarrow> R_datacmd | Deny \<Rightarrow> R_nak | _ \<Rightarrow> R_error)"
| "recv_next R_datacmd e = (case e of Pass \<Rightarrow> R_dataextlen | Deny \<Rightarrow> R_nak | _ \<Rightarrow> R_error)"
| "recv_next R_dataextlen e =
     (case e of Pass \<Rightarrow> R_dataframenumber | Deny \<Rightarrow> R_nak | _ \<Rightarrow> R_error)"
| "recv_next R_dataframenumber e = (case e of Pass \<Rightarrow> R_data | Deny \<Rightarrow> R_nak | _ \<Rightarrow> R_error)"
| "recv_next R_data e = (case e of Pass \<Rightarrow> R_etx | Deny \<Rightarrow> R_nak | _ \<Rightarrow> R_error)"
| "recv_next R_etx e = (case e of Pass \<Rightarrow> R_cs | Deny \<Rightarrow> R_nak | _ \<Rightarrow> R_error)"
| "recv_next R_cs e = (case e of Pass \<Rightarrow> R_ack2 | Deny \<Rightarrow> R_nak | Fail \<Rightarrow> R_nak | _ \<Rightarrow> R_error)"
| "recv_next R_ack2 e = (case e of Pass \<Rightarrow> R_done | _ \<Rightarrow> R_error)"
| "recv_next R_nak e = (case e of Pass \<Rightarrow> R_retry | _ \<Rightarrow> R_error)"
| "recv_next R_retry e = (case e of Pass \<Rightarrow> R_repoll | _ \<Rightarrow> R_error)"
| "recv_next R_done e = (case e of Wait \<Rightarrow> R_enquiry | _ \<Rightarrow> R_end)"
| "recv_next R_error e = R_end"
| "recv_next R_end e = R_end"

definition recv_transitions :: "(RecvState, Event) transitions" where
  "recv_transitions q e = (if q = R_end then None else Some (recv_next q e))"

section \<open>The context\<close>

record RecvContext = Context +
  m_transmitionType :: TransmitionType
  m_dataLength :: u32
  m_frameNumber :: u32
  m_totalFrames :: u32

type_synonym 'd recv_world = "RecvContext \<times> 'd Protocol"
type_synonym 'd recv_handler = "'d recv_world \<Rightarrow> (Event \<times> 'd recv_world) outcome"

text \<open>A new context holds one empty frame.\<close>

definition RecvContext :: RecvContext where
  "RecvContext = \<lparr>m_currentFrame = 0, m_frames = [[]], m_result = False,
     m_transmitionType = NotDefinedYet, m_dataLength = 0, m_frameNumber = 0, m_totalFrames = 0\<rparr>"

definition recv_onFrameCompleted :: "RecvContext \<Rightarrow> RecvContext outcome" where
  "recv_onFrameCompleted c = onFrameCompleted (c\<lparr>m_frames := m_frames c @ [[]]\<rparr>)"

text \<open>\<^verbatim>\<open>context.currentFrame().push_back(b)\<close>, and an append of several bytes.\<close>

definition append_current :: "byte list \<Rightarrow> RecvContext \<Rightarrow> RecvContext outcome" where
  "append_current bs c = omap (\<lambda>frame. set_currentFrame (frame @ bs) c) (currentFrame c)"

section \<open>Handlers\<close>

definition kMaxNumberOfRecvAttempts :: u32 where "kMaxNumberOfRecvAttempts = 5"

definition read_event :: "io_result \<Rightarrow> Event" where
  "read_event r = (case r of IO_Success \<Rightarrow> Pass | IO_Timeout \<Rightarrow> Deny | IO_Error \<Rightarrow> Fail)"

definition recvIdle :: "'d recv_handler" where
  "recvIdle w = (case w of (c, p) \<Rightarrow> Ret (Pass, (c, p\<lparr>m_r1 := 0\<rparr>)))"

definition recvPoll :: "'d IODevice \<Rightarrow> 'd recv_handler" where
  "recvPoll D w = (case w of (c, p) \<Rightarrow>
     (case dev_poll D (m_device p) Infinite of (r, d) \<Rightarrow>
        let p = p\<lparr>m_device := d\<rparr> in
        if r = IO_Success then omap (\<lambda>p. (Pass, (c, p))) (mutex_lock Receiving p)
        else Ret (Fail, (c, p))))"

definition recvRepoll :: "'d recv_handler" where
  "recvRepoll w = (case w of (c, p) \<Rightarrow> omap (\<lambda>p. (Pass, (c, p))) (mutex_unlock Receiving p))"

text \<open>
  The first read decides alone when it does not succeed; otherwise the loop reads on until a
  read does not succeed, and a timeout there leaves the last byte as the result.
\<close>

definition recvEnquiry :: "'d IODevice \<Rightarrow> 'd recv_handler" where
  "recvEnquiry D w = (case w of (c, p) \<Rightarrow>
     (case dev_read D (m_device p) Immediate 0 of (r0, b0, d0) \<Rightarrow>
     (case drain D (r0, b0, d0) of
        None \<Rightarrow> Diverges
      | Some (r, b, d) \<Rightarrow>
          let deviceResult = (if r0 = IO_Success \<and> r = IO_Timeout then IO_Success else r)
          in Ret (case deviceResult of
                    IO_Success \<Rightarrow> if b = ENQ then Pass else if b = NAK then Busy else Deny
                  | IO_Timeout \<Rightarrow> Busy
                  | IO_Error \<Rightarrow> Fail, (c, p\<lparr>m_device := d\<rparr>)))))"

definition recvAcknowledgement :: "'d IODevice \<Rightarrow> 'd recv_handler" where
  "recvAcknowledgement D w = (case w of (c, p) \<Rightarrow>
     (case dev_write_byte D (m_device p) ACK of (r, d) \<Rightarrow>
        Ret (if r = IO_Success then Pass else Fail, (c, p\<lparr>m_device := d\<rparr>))))"

definition recvControlCode :: "'d IODevice \<Rightarrow> byte \<Rightarrow> 'd recv_handler" where
  "recvControlCode D code w = (case w of (c, p) \<Rightarrow>
     (case dev_read D (m_device p) kTimeout3 0 of (r, b, d) \<Rightarrow>
        let p = p\<lparr>m_device := d\<rparr> in
        if r = IO_Success then
          (if b = code then omap (\<lambda>c. (Pass, (c, p))) (append_current [b] c) else Ret (Deny, (c, p)))
        else Ret (read_event r, (c, p))))"

definition recvLength :: "'d IODevice \<Rightarrow> 'd recv_handler" where
  "recvLength D w = (case w of (c, p) \<Rightarrow>
     (case dev_read D (m_device p) kTimeout4 0 of (r, b, d) \<Rightarrow>
        let p = p\<lparr>m_device := d\<rparr> in
        if r = IO_Success then
          (if b = EXT_LEN then omap (\<lambda>c. (Pass, (c, p))) (append_current [b] c)
           else if kMinFrameLength \<le> unat b \<and> unat b \<le> kMaxFrameLength then
             omap (\<lambda>c. (Pass, (c, p)))
               (append_current [b] (c\<lparr>m_transmitionType := Regular,
                  m_dataLength := word_of_nat (unat b - kFrameFooterLength)\<rparr>))
           else Ret (Deny, (c, p)))
        else Ret (read_event r, (c, p))))"

text \<open>
  The frame grows by \<open>n\<close> zero bytes and the device reads into them, whatever the result.
\<close>

definition read_into_frame ::
    "'d IODevice \<Rightarrow> nat \<Rightarrow> 'd recv_world \<Rightarrow> (Event \<times> byte list \<times> 'd recv_world) outcome" where
  "read_into_frame D n w = (case w of (c, p) \<Rightarrow>
     obind (currentFrame c) (\<lambda>frame.
       case dev_readMulti D (m_device p) n kTimeout4 of (r, bs, d) \<Rightarrow>
         Ret (read_event r, overwrite n bs,
              (set_currentFrame (frame @ overwrite n bs) c, p\<lparr>m_device := d\<rparr>))))"

definition recvDataCommand :: "'d IODevice \<Rightarrow> 'd recv_handler" where
  "recvDataCommand D w = omap (\<lambda>(e, bs, w). (e, w)) (read_into_frame D kCmdLength w)"

definition recvDataExtLen :: "'d IODevice \<Rightarrow> 'd recv_handler" where
  "recvDataExtLen D w =
     (if m_transmitionType (fst w) = Regular then Ret (Pass, w)
      else omap (\<lambda>(e, bs, (c, p)).
        if e = Pass then
          (let len = decode_length (bs ! 0) (bs ! 1) (bs ! 2);
               c = c\<lparr>m_dataLength := len - word_of_nat kFrameFooterLength\<rparr>;
               type = (if word_of_nat kMaxExtendedLengthFrameLength < len \<or>
                          m_transmitionType c = ExtendedLengthWithFrameDivision
                       then ExtendedLengthWithFrameDivision else ExtendedLength)
           in (Pass, (c\<lparr>m_transmitionType := type\<rparr>, p)))
        else (e, (c, p))) (read_into_frame D kExtLenLength w))"

definition recvDataFrameNumber :: "'d IODevice \<Rightarrow> 'd recv_handler" where
  "recvDataFrameNumber D w =
     (if m_transmitionType (fst w) = ExtendedLengthWithFrameDivision
      then omap (\<lambda>(e, bs, (c, p)).
        if e = Pass then
          (Pass, (c\<lparr>m_totalFrames := ucast (decode_number (bs ! 2) (bs ! 3)),
                    m_frameNumber := ucast (decode_number (bs ! 0) (bs ! 1))\<rparr>, p))
        else (e, (c, p))) (read_into_frame D (kFrameNumberLength + kTotalFramesLength) w)
      else Ret (Pass, w))"

definition recv_data_size :: "RecvContext \<Rightarrow> u32" where
  "recv_data_size c =
     (case m_transmitionType c of
        Regular \<Rightarrow> m_dataLength c - word_of_nat kCmdLength
      | ExtendedLength \<Rightarrow> m_dataLength c - word_of_nat (kCmdLength + kExtLenLength)
      | _ \<Rightarrow> m_dataLength c -
               word_of_nat (kCmdLength + kExtLenLength + kFrameNumberLength + kTotalFramesLength))"

definition recvData :: "'d IODevice \<Rightarrow> 'd recv_handler" where
  "recvData D w = omap (\<lambda>(e, bs, w). (e, w)) (read_into_frame D (unat (recv_data_size (fst w))) w)"

definition recvChecksum :: "(byte list \<Rightarrow> byte) \<Rightarrow> 'd IODevice \<Rightarrow> 'd recv_handler" where
  "recvChecksum cs D w = (case w of (c, p) \<Rightarrow>
     obind (currentFrame c) (\<lambda>frame.
       if frame = [] then Throw Undefined_behaviour
       else (case dev_read D (m_device p) kTimeout4 0 of (r, b, d) \<Rightarrow>
         let p = p\<lparr>m_device := d\<rparr> in
         if r = IO_Success then
           (if b = cs (tl frame) then omap (\<lambda>c. (Pass, (c, p))) (append_current [b] c)
            else Ret (Deny, (c, p)))
         else Ret (read_event r, (c, p)))))"

definition recvAcknowledgement2 :: "'d IODevice \<Rightarrow> 'd recv_handler" where
  "recvAcknowledgement2 D w = recvAcknowledgement D w"

definition recvNak :: "'d IODevice \<Rightarrow> 'd recv_handler" where
  "recvNak D w = (case w of (c, p) \<Rightarrow>
     (case dev_write_byte D (m_device p) NAK of (r, d) \<Rightarrow>
        Ret (if r = IO_Success then Pass else Fail, (c, p\<lparr>m_device := d\<rparr>))))"

definition recvRetry :: "'d recv_handler" where
  "recvRetry w = (case w of (c, p) \<Rightarrow>
     let p = p\<lparr>m_r1 := m_r1 p + 1\<rparr> in
     omap (\<lambda>_. (if m_r1 p < kMaxNumberOfRecvAttempts then Pass else Fail,
                (set_currentFrame [] c, p))) (currentFrame c))"

definition recvDone :: "'d recv_handler" where
  "recvDone w = (case w of (c, p) \<Rightarrow>
     (case m_transmitionType c of
        Regular \<Rightarrow> Ret (Pass, (c\<lparr>m_result := True\<rparr>, p))
      | ExtendedLength \<Rightarrow> Ret (Pass, (c\<lparr>m_result := True\<rparr>, p))
      | ExtendedLengthWithFrameDivision \<Rightarrow>
          if m_frameNumber c = m_totalFrames c - 1 then Ret (Pass, (c\<lparr>m_result := True\<rparr>, p))
          else omap (\<lambda>c. (Wait, (c, p))) (recv_onFrameCompleted c)
      | NotDefinedYet \<Rightarrow> Throw Assertion_failed))"

definition recvError :: "'d recv_handler" where
  "recvError w = (case w of (c, p) \<Rightarrow> Ret (Pass, (c\<lparr>m_result := False\<rparr>, p)))"

definition recvEnd :: "'d recv_handler" where
  "recvEnd w = (case w of (c, p) \<Rightarrow> omap (\<lambda>p. (Pass, (c, p))) (mutex_unlock Receiving p))"

fun recv_handlers :: "(byte list \<Rightarrow> byte) \<Rightarrow> 'd IODevice \<Rightarrow> RecvState \<Rightarrow> 'd recv_handler" where
  "recv_handlers cs D R_idle = recvIdle"
| "recv_handlers cs D R_poll = recvPoll D"
| "recv_handlers cs D R_repoll = recvRepoll"
| "recv_handlers cs D R_enquiry = recvEnquiry D"
| "recv_handlers cs D R_ack = recvAcknowledgement D"
| "recv_handlers cs D R_stx = recvControlCode D STX"
| "recv_handlers cs D R_len = recvLength D"
| "recv_handlers cs D R_datacmd = recvDataCommand D"
| "recv_handlers cs D R_dataextlen = recvDataExtLen D"
| "recv_handlers cs D R_dataframenumber = recvDataFrameNumber D"
| "recv_handlers cs D R_data = recvData D"
| "recv_handlers cs D R_etx = recvControlCode D ETX"
| "recv_handlers cs D R_cs = recvChecksum cs D"
| "recv_handlers cs D R_ack2 = recvAcknowledgement2 D"
| "recv_handlers cs D R_nak = recvNak D"
| "recv_handlers cs D R_retry = recvRetry"
| "recv_handlers cs D R_done = recvDone"
| "recv_handlers cs D R_error = recvError"
| "recv_handlers cs D R_end = recvEnd"

section \<open>Protocol::receive\<close>

text \<open>
  The caller's vector is changed only when the call returns true: the message is then
  \<open>Some\<close>.
\<close>

type_synonym 'd recv_runner =
  "(RecvState \<Rightarrow> 'd recv_handler) \<Rightarrow> (RecvState \<Rightarrow> Event \<Rightarrow> RecvState option)
   \<Rightarrow> RecvState \<Rightarrow> RecvState \<Rightarrow> 'd recv_world \<Rightarrow> 'd recv_world outcome"

definition protocol_receive ::
    "'d recv_runner \<Rightarrow> (byte list \<Rightarrow> byte) \<Rightarrow> 'd IODevice \<Rightarrow> 'd Protocol \<Rightarrow>
     (byte list option \<times> 'd Protocol) outcome" where
  "protocol_receive run cs D p =
     obind (run (recv_handlers cs D) recv_transitions R_idle R_end (RecvContext, p)) (\<lambda>(c, p).
       if m_result c
       then omap (\<lambda>data. (Some data, p))
              (extract_message (m_transmitionType c) (m_frames c) (m_currentFrame c) (m_totalFrames c))
       else Ret (None, p))"

section \<open>Construction and destruction\<close>

text \<open>The result of \<^verbatim>\<open>open\<close> is ignored.\<close>

definition protocol_new :: "'d IODevice \<Rightarrow> 'd \<Rightarrow> 'd Protocol" where
  "protocol_new D d =
     \<lparr>m_device = snd (dev_open D d), m_accessLock = None, m_r1 = 0, m_r2 = 0\<rparr>"

definition protocol_delete :: "'d IODevice \<Rightarrow> 'd Protocol \<Rightarrow> 'd" where
  "protocol_delete D p = dev_close D (m_device p)"

section \<open>The frame under construction\<close>

text \<open>
  What the current frame holds in each state: nothing until \<open>STX\<close>, then the header fields in
  the order they are read, and in the end a frame whose checksum matches. All earlier frames of a
  divided message are such frames too.
\<close>

definition header_length :: "TransmitionType \<Rightarrow> nat" where
  "header_length t = (case t of NotDefinedYet \<Rightarrow> 0 | Regular \<Rightarrow> 5 | ExtendedLength \<Rightarrow> 8
     | ExtendedLengthWithFrameDivision \<Rightarrow> 12)"

definition sealed_frame :: "(byte list \<Rightarrow> byte) \<Rightarrow> nat \<Rightarrow> byte list \<Rightarrow> bool" where
  "sealed_frame cs n g \<longleftrightarrow> (\<exists>body. g = seal cs (STX # body) \<and> n \<le> Suc (length body))"

fun recv_shape :: "(byte list \<Rightarrow> byte) \<Rightarrow> RecvState \<Rightarrow> TransmitionType \<Rightarrow> byte list \<Rightarrow> bool" where
  "recv_shape cs R_idle t f \<longleftrightarrow> f = []"
| "recv_shape cs R_poll t f \<longleftrightarrow> f = []"
| "recv_shape cs R_repoll t f \<longleftrightarrow> f = []"
| "recv_shape cs R_enquiry t f \<longleftrightarrow> f = []"
| "recv_shape cs R_ack t f \<longleftrightarrow> f = []"
| "recv_shape cs R_stx t f \<longleftrightarrow> f = []"
| "recv_shape cs R_len t f \<longleftrightarrow> f = [STX]"
| "recv_shape cs R_datacmd t f \<longleftrightarrow> (\<exists>b. f = [STX, b])"
| "recv_shape cs R_dataextlen t f \<longleftrightarrow> (\<exists>b. f = STX # b \<and> length b = 4)"
| "recv_shape cs R_dataframenumber t f \<longleftrightarrow> t \<noteq> NotDefinedYet \<and>
     (\<exists>b. f = STX # b \<and> length b = (if t = Regular then 4 else 7))"
| "recv_shape cs R_data t f \<longleftrightarrow> t \<noteq> NotDefinedYet \<and>
     (\<exists>b. f = STX # b \<and> Suc (length b) = header_length t)"
| "recv_shape cs R_etx t f \<longleftrightarrow> t \<noteq> NotDefinedYet \<and>
     (\<exists>b. f = STX # b \<and> header_length t \<le> Suc (length b))"
| "recv_shape cs R_cs t f \<longleftrightarrow> t \<noteq> NotDefinedYet \<and>
     (\<exists>b. f = STX # b @ [ETX] \<and> header_length t \<le> Suc (length b))"
| "recv_shape cs R_ack2 t f \<longleftrightarrow> t \<noteq> NotDefinedYet \<and> sealed_frame cs (header_length t) f"
| "recv_shape cs R_done t f \<longleftrightarrow> t \<noteq> NotDefinedYet \<and> sealed_frame cs (header_length t) f"
| "recv_shape cs _ t f \<longleftrightarrow> True"

definition recv_inv :: "(byte list \<Rightarrow> byte) \<Rightarrow> RecvState \<Rightarrow> 'd recv_world \<Rightarrow> bool" where
  "recv_inv cs q w \<longleftrightarrow> (let c = fst w in \<exists>fs f.
     m_frames c = fs @ [f] \<and> m_currentFrame c = length fs \<and> (\<forall>g\<in>set fs. sealed_frame cs 12 g) \<and>
     recv_shape cs q (m_transmitionType c) f \<and> m_frameNumber c < 65536 \<and>
     (q \<noteq> R_end \<longrightarrow> \<not> m_result c) \<and>
     (q = R_end \<and> m_result c \<longrightarrow> recv_shape cs R_done (m_transmitionType c) f \<and>
        (m_transmitionType c = ExtendedLengthWithFrameDivision \<longrightarrow> m_frameNumber c = m_totalFrames c - 1)))"

lemma recv_invI:
  assumes "m_frames c = fs @ [f]" "m_currentFrame c = length fs" "\<forall>g\<in>set fs. sealed_frame cs 12 g"
    "recv_shape cs q (m_transmitionType c) f" "m_frameNumber c < 65536" "q \<noteq> R_end" "\<not> m_result c"
  shows "recv_inv cs q (c, p)"
  using assms by (auto simp: recv_inv_def Let_def)

lemma recv_invE:
  assumes "recv_inv cs q (c, p)"
  obtains fs f where "m_frames c = fs @ [f]" "m_currentFrame c = length fs"
    "\<forall>g\<in>set fs. sealed_frame cs 12 g" "recv_shape cs q (m_transmitionType c) f" "m_frameNumber c < 65536"
    "q \<noteq> R_end \<Longrightarrow> \<not> m_result c"
    "q = R_end \<Longrightarrow> m_result c \<Longrightarrow> recv_shape cs R_done (m_transmitionType c) f"
    "q = R_end \<Longrightarrow> m_result c \<Longrightarrow> m_transmitionType c = ExtendedLengthWithFrameDivision \<Longrightarrow>
       m_frameNumber c = m_totalFrames c - 1"
  using assms by (auto simp: recv_inv_def Let_def)

lemma current_of_frames:
  assumes "m_frames c = fs @ [f]" "m_currentFrame c = length fs"
  shows "currentFrame c = Ret f" and "set_currentFrame g c = c\<lparr>m_frames := fs @ [g]\<rparr>"
    and "append_current bs c = Ret (c\<lparr>m_frames := fs @ [f @ bs]\<rparr>)"
  using assms by (simp_all add: currentFrame_def set_currentFrame_def append_current_def vec_at_def)

lemma ucast_u16_below: "(ucast (x :: 16 word) :: u32) < 65536"
proof -
  have "unat (ucast x :: u32) < 65536"
    using unsigned_less [of x, where 'a = nat] by (simp add: unsigned_ucast_eq take_bit_nat_eq_self)
  then show ?thesis by (simp add: word_less_nat_alt)
qed

lemmas recv_handler_defs =
  recvIdle_def recvPoll_def recvRepoll_def recvEnquiry_def recvAcknowledgement_def recvControlCode_def
  recvLength_def recvDataCommand_def recvDataExtLen_def recvDataFrameNumber_def recvData_def
  recvChecksum_def recvAcknowledgement2_def recvNak_def recvRetry_def recvDone_def recvError_def
  recvEnd_def read_into_frame_def

lemma read_event_eq [simp]:
  "read_event r = Pass \<longleftrightarrow> r = IO_Success" "read_event r = Deny \<longleftrightarrow> r = IO_Timeout"
  "read_event r = Fail \<longleftrightarrow> r = IO_Error" "read_event r \<noteq> Busy" "read_event r \<noteq> Wait"
  by (cases r; simp add: read_event_def)+

lemma recv_inv_step_idle:
  assumes "recv_inv cs q w" and "q \<in> {R_idle, R_poll, R_repoll, R_enquiry, R_ack, R_ack2, R_nak, R_error}"
    and "recv_handlers cs D q w = Ret (e, w')"
  shows "recv_inv cs (recv_next q e) w'"
proof -
  obtain c p where w: "w = (c, p)" by (cases w)
  obtain c' p' where w': "w' = (c', p')" by (cases w')
  obtain fs f where f: "m_frames c = fs @ [f]" "m_currentFrame c = length fs"
    "\<forall>g\<in>set fs. sealed_frame cs 12 g" "recv_shape cs q (m_transmitionType c) f" "m_frameNumber c < 65536"
    "\<not> m_result c"
    using assms(1,2) unfolding w by (auto elim!: recv_invE)
  have "c' = c \<or> (q = R_error \<and> c' = c\<lparr>m_result := False\<rparr>)"
    using assms(2,3) unfolding w w'
    by (auto simp: recv_handler_defs outcome_eqs case_prod_beta Let_def split: option.splits if_splits)
  moreover have "q \<noteq> R_error \<Longrightarrow> recv_shape cs (recv_next q e) (m_transmitionType c) f \<and> recv_next q e \<noteq> R_end"
    using assms(2,3) f(4) by (auto split: Event.splits)
  ultimately show ?thesis
    using f unfolding w'
    by (cases "q = R_error") (auto simp: recv_inv_def Let_def)
qed


lemma recv_inv_set:
  assumes "m_frames c = fs @ [f]" "m_currentFrame c = length fs" "\<forall>g\<in>set fs. sealed_frame cs 12 g"
    "m_frames c' = fs @ [f']" "m_currentFrame c' = m_currentFrame c" "m_frameNumber c' < 65536"
    "\<not> m_result c'" "q' \<noteq> R_end" "recv_shape cs q' (m_transmitionType c') f'"
  shows "recv_inv cs q' (c', p')"
  using assms by (auto simp: recv_inv_def Let_def)

lemma recv_inv_step_code:
  assumes "recv_inv cs q w" and "q \<in> {R_stx, R_len, R_etx, R_cs}"
    and "recv_handlers cs D q w = Ret (e, w')"
  shows "recv_inv cs (recv_next q e) w'"
proof -
  obtain c p where w: "w = (c, p)" by (cases w)
  obtain c' p' where w': "w' = (c', p')" by (cases w')
  obtain fs f where f: "m_frames c = fs @ [f]" "m_currentFrame c = length fs"
    "\<forall>g\<in>set fs. sealed_frame cs 12 g" and sh: "recv_shape cs q (m_transmitionType c) f"
    and nr: "m_frameNumber c < 65536" "\<not> m_result c"
    using assms(1,2) unfolding w by (auto elim!: recv_invE)
  have *: "m_currentFrame c' = m_currentFrame c \<and> m_frameNumber c' = m_frameNumber c \<and> m_result c' = m_result c \<and>
    recv_next q e \<noteq> R_end \<and>
    (\<exists>f'. m_frames c' = fs @ [f'] \<and> recv_shape cs (recv_next q e) (m_transmitionType c') f')"
    using assms(2,3) sh f(1,2) unfolding w w'
    by (auto simp: recv_handler_defs outcome_eqs case_prod_beta Let_def current_of_frames [OF f(1,2)]
        append_current_def set_currentFrame_def currentFrame_def vec_at_def
        sealed_frame_def seal_def header_length_def
      split: if_splits Event.splits)
  then show ?thesis
    unfolding w' using recv_inv_set [OF f] nr by metis
qed

lemma recv_inv_step_read:
  assumes "recv_inv cs q w" and "q \<in> {R_datacmd, R_dataextlen, R_dataframenumber, R_data}"
    and "recv_handlers cs D q w = Ret (e, w')"
  shows "recv_inv cs (recv_next q e) w'"
proof -
  obtain c p where w: "w = (c, p)" by (cases w)
  obtain c' p' where w': "w' = (c', p')" by (cases w')
  obtain fs f where f: "m_frames c = fs @ [f]" "m_currentFrame c = length fs"
    "\<forall>g\<in>set fs. sealed_frame cs 12 g" and sh: "recv_shape cs q (m_transmitionType c) f"
    and nr: "m_frameNumber c < 65536" "\<not> m_result c"
    using assms(1,2) unfolding w by (auto elim!: recv_invE)
  have *: "m_currentFrame c' = m_currentFrame c \<and> m_frameNumber c' < 65536 \<and> m_result c' = m_result c \<and>
    recv_next q e \<noteq> R_end \<and>
    (\<exists>f'. m_frames c' = fs @ [f'] \<and> recv_shape cs (recv_next q e) (m_transmitionType c') f')"
    using assms(2,3) sh nr f(1,2) unfolding w w'
    by (auto simp: recv_handler_defs outcome_eqs case_prod_beta Let_def current_of_frames [OF f(1,2)]
        header_length_def ucast_u16_below
      split: if_splits Event.splits TransmitionType.splits)
  then show ?thesis
    unfolding w' using recv_inv_set [OF f] nr by metis
qed

lemma recv_inv_step_retry:
  assumes "recv_inv cs R_retry w" and "recv_handlers cs D R_retry w = Ret (e, w')"
  shows "recv_inv cs (recv_next R_retry e) w'"
proof -
  obtain c p where w: "w = (c, p)" by (cases w)
  obtain fs f where f: "m_frames c = fs @ [f]" "m_currentFrame c = length fs"
    "\<forall>g\<in>set fs. sealed_frame cs 12 g" and nr: "m_frameNumber c < 65536" "\<not> m_result c"
    using assms(1) unfolding w by (auto elim!: recv_invE)
  then show ?thesis
    using assms(2) nr unfolding w
    by (auto simp: recvRetry_def outcome_eqs current_of_frames [OF f(1,2)] Let_def
      intro!: recv_inv_set [OF f, where f' = "[]"] split: Event.splits if_splits)
qed

lemma recv_inv_step_done:
  assumes "recv_inv cs R_done w" and "recv_handlers cs D R_done w = Ret (e, w')"
  shows "recv_inv cs (recv_next R_done e) w'"
proof -
  obtain c p where w: "w = (c, p)" by (cases w)
  obtain fs f where f: "m_frames c = fs @ [f]" "m_currentFrame c = length fs"
    "\<forall>g\<in>set fs. sealed_frame cs 12 g" and sh: "recv_shape cs R_done (m_transmitionType c) f"
    and nr: "m_frameNumber c < 65536" "\<not> m_result c"
    using assms(1) unfolding w by (auto elim!: recv_invE)
  show ?thesis
  proof (cases "m_transmitionType c = ExtendedLengthWithFrameDivision \<and> m_frameNumber c \<noteq> m_totalFrames c - 1")
    case True
    then have "e = Wait \<and> w' = (c\<lparr>m_frames := (fs @ [f]) @ [[]], m_currentFrame := length (fs @ [f])\<rparr>, p)"
      using assms(2) f unfolding w
      by (auto simp: recvDone_def outcome_eqs recv_onFrameCompleted_def onFrameCompleted_def Let_def split: if_splits)
    moreover have "sealed_frame cs 12 f" using True sh by (simp add: header_length_def)
    ultimately show ?thesis using f(3) nr by (auto intro!: recv_invI [where fs = "fs @ [f]" and f = "[]"])
  next
    case False
    then have "e = Pass \<and> w' = (c\<lparr>m_result := True\<rparr>, p)"
      using assms(2) unfolding w by (auto simp: recvDone_def split: TransmitionType.splits if_splits)
    then show ?thesis using f nr sh False by (auto simp: recv_inv_def Let_def)
  qed
qed

lemma recv_inv_step:
  assumes "recv_inv cs q w" and "q \<noteq> R_end" and "recv_handlers cs D q w = Ret (e, w')"
  shows "recv_inv cs (recv_next q e) w'"
proof -
  consider "q \<in> {R_idle, R_poll, R_repoll, R_enquiry, R_ack, R_ack2, R_nak, R_error}"
    | "q \<in> {R_stx, R_len, R_etx, R_cs}" | "q \<in> {R_datacmd, R_dataextlen, R_dataframenumber, R_data}"
    | "q = R_retry" | "q = R_done"
    using assms(2) by (cases q) simp_all
  then show ?thesis
    using assms(1,3)
    by cases (metis recv_inv_step_idle, metis recv_inv_step_code, metis recv_inv_step_read,
      metis recv_inv_step_retry, metis recv_inv_step_done)
qed

lemma recv_inv_path:
  assumes "fsm_path (recv_handlers cs D) recv_transitions R_end n (q, w) (q', w')" and "recv_inv cs q w"
  shows "recv_inv cs q' w'"
  using assms(1)
proof (induction rule: fsm_path_invariant)
  case (step q w e w' q')
  then show ?case using recv_inv_step [of cs q w D e w'] by (simp add: recv_transitions_def split: if_splits)
qed (rule assms(2))

lemma recv_inv_start: "recv_inv cs R_idle (RecvContext, p)"
  by (rule recv_invI [where fs = "[]" and f = "[]"]) (simp_all add: RecvContext_def)
section \<open>The mutex, faults and the retry counter\<close>

definition recv_locked :: "RecvState \<Rightarrow> 'd recv_world \<Rightarrow> bool" where
  "recv_locked q w \<longleftrightarrow>
     m_accessLock (snd w) = (if q = R_idle \<or> q = R_poll then None else Some Receiving)"

definition polls_succeed :: "'d IODevice \<Rightarrow> bool" where
  "polls_succeed D \<longleftrightarrow> (\<forall>d. fst (dev_poll D d Infinite) = IO_Success)"

text \<open>Only a few handlers touch the mutex, the retry counter or the result flag.\<close>

lemma append_current_frames: "append_current bs c = Ret c' \<Longrightarrow> \<exists>fr. c' = c\<lparr>m_frames := fr\<rparr>"
  by (auto simp: append_current_def outcome_eqs set_currentFrame_def)

lemma read_into_frame_Ret:
  assumes "read_into_frame D n (c, p) = Ret (e, bs, w')"
  shows "\<exists>fr d. w' = (c\<lparr>m_frames := fr\<rparr>, p\<lparr>m_device := d\<rparr>)"
  using assms by (auto simp: read_into_frame_def outcome_eqs case_prod_beta set_currentFrame_def)

lemma recv_keeps_read:
  assumes "recv_handlers cs D q (c, p) = Ret (e, (c', p'))"
    and "q \<in> {R_datacmd, R_dataextlen, R_dataframenumber, R_data}"
  shows "m_accessLock p' = m_accessLock p \<and> m_r1 p' = m_r1 p \<and> m_result c' = m_result c"
  using assms
  by (auto simp: recvDataCommand_def recvDataExtLen_def recvDataFrameNumber_def recvData_def outcome_eqs Let_def
      split: if_splits dest!: read_into_frame_Ret)

lemma recv_keeps_code:
  assumes "recv_handlers cs D q (c, p) = Ret (e, (c', p'))" and "q \<in> {R_stx, R_len, R_etx, R_cs}"
  shows "m_accessLock p' = m_accessLock p \<and> m_r1 p' = m_r1 p \<and> m_result c' = m_result c"
  using assms
  by (auto simp: recvControlCode_def recvLength_def recvChecksum_def outcome_eqs Let_def case_prod_beta
      split: if_splits dest!: append_current_frames)

lemma recv_keeps_rest:
  assumes "recv_handlers cs D q (c, p) = Ret (e, (c', p'))"
    and "q \<in> {R_idle, R_poll, R_repoll, R_enquiry, R_ack, R_ack2, R_nak, R_retry, R_done, R_error, R_end}"
  shows "(q \<notin> {R_poll, R_repoll, R_end} \<longrightarrow> m_accessLock p' = m_accessLock p) \<and>
    (q \<notin> {R_idle, R_retry} \<longrightarrow> m_r1 p' = m_r1 p) \<and> (q \<notin> {R_done, R_error} \<longrightarrow> m_result c' = m_result c)"
  using assms(2,1)
  by (elim insertE emptyE)
     (auto simp: recv_handler_defs outcome_eqs case_prod_beta mutex_lock_def mutex_unlock_def Let_def
        set_currentFrame_def
      split: option.splits if_splits TransmitionType.splits)

lemma recv_keeps:
  assumes "recv_handlers cs D q (c, p) = Ret (e, (c', p'))"
  shows "q \<notin> {R_poll, R_repoll, R_end} \<Longrightarrow> m_accessLock p' = m_accessLock p"
    and "q \<notin> {R_idle, R_retry} \<Longrightarrow> m_r1 p' = m_r1 p"
    and "q \<notin> {R_done, R_error} \<Longrightarrow> m_result c' = m_result c"
  using recv_keeps_read [OF assms] recv_keeps_code [OF assms] recv_keeps_rest [OF assms]
  by (cases q; simp)+

lemma recv_locked_step:
  assumes "recv_locked q w" and "polls_succeed D" and "q \<noteq> R_end"
    and "recv_handlers cs D q w = Ret (e, w')"
  shows "recv_locked (recv_next q e) w'"
proof -
  obtain c p c' p' where w: "w = (c, p)" "w' = (c', p')" by (cases w; cases w')
  consider "q = R_poll" | "q = R_repoll" | "q = R_idle" | "q \<notin> {R_poll, R_repoll, R_end, R_idle}" using assms(3) by blast
  then show ?thesis
  proof cases
    case 4
    then have "recv_next q e \<notin> {R_idle, R_poll}" by (cases q) (auto split: Event.splits)
    then show ?thesis using 4 assms(1) recv_keeps(1) [OF assms(4) [unfolded w]] unfolding w by (auto simp: recv_locked_def)
  qed (use assms w in \<open>auto simp: recv_handler_defs recv_locked_def polls_succeed_def outcome_eqs mutex_lock_def
        mutex_unlock_def Let_def case_prod_beta split: option.splits\<close>)
qed

lemma recv_no_fault:
  assumes "recv_inv cs q w" and "recv_locked q w"
  shows "recv_handlers cs D q w \<noteq> Throw x"
proof -
  obtain c p where w: "w = (c, p)" by (cases w)
  obtain fs f where f: "m_frames c = fs @ [f]" "m_currentFrame c = length fs"
    and sh: "recv_shape cs q (m_transmitionType c) f"
    using assms(1) unfolding w by (auto elim!: recv_invE)
  have n: "currentFrame c = Ret f" "\<And>bs. append_current bs c \<noteq> Throw x"
      "\<And>bs t l. append_current bs (c\<lparr>m_transmitionType := t, m_dataLength := l\<rparr>) \<noteq> Throw x"
      "recv_onFrameCompleted c \<noteq> Throw x"
    using f by (simp_all add: currentFrame_def append_current_def recv_onFrameCompleted_def
      onFrameCompleted_def vec_at_def)
  have lock: "m_accessLock p = (if q = R_idle \<or> q = R_poll then None else Some Receiving)"
    using assms(2) unfolding w recv_locked_def by simp
  show ?thesis
  proof (cases q)
    case R_enquiry
    then show ?thesis unfolding w by (simp add: recvEnquiry_def case_prod_beta split: option.splits)
  next
    case R_len
    then show ?thesis unfolding w using n by (simp add: recvLength_def case_prod_beta Let_def outcome_eqs)
  next
    case R_done
    then show ?thesis unfolding w using n sh by (auto simp: recvDone_def outcome_eqs split: TransmitionType.splits)
  qed (use sh n lock w in \<open>auto simp: recv_handler_defs Let_def case_prod_beta outcome_eqs\<close>)
qed

definition recv_counts :: "RecvState \<Rightarrow> 'd recv_world \<Rightarrow> bool" where
  "recv_counts q w \<longleftrightarrow>
     (q \<noteq> R_idle \<longrightarrow> m_r1 (snd w) \<le> kMaxNumberOfRecvAttempts) \<and>
     (q \<notin> {R_idle, R_error, R_end} \<or> q = R_end \<and> m_result (fst w) \<longrightarrow>
        m_r1 (snd w) < kMaxNumberOfRecvAttempts)"

lemma u32_Suc_5: "(r :: u32) < 5 \<Longrightarrow> r + 1 \<le> 5"
  using word_less_nat_alt word_le_nat_alt by unat_arith

lemma recv_counts_step:
  assumes "recv_counts q w" and "q \<noteq> R_end" and "recv_handlers cs D q w = Ret (e, w')"
  shows "recv_counts (recv_next q e) w'"
proof -
  obtain c p c' p' where w: "w = (c, p)" "w' = (c', p')" by (cases w; cases w')
  consider "q = R_idle" | "q = R_retry" | "q = R_error" | "q \<notin> {R_idle, R_retry, R_error, R_end}" using assms(2) by blast
  then show ?thesis
  proof cases
    case 4
    then have "recv_next q e \<noteq> R_idle" by (cases q) (auto split: Event.splits)
    then show ?thesis using 4 assms(1) recv_keeps(2,3) [OF assms(3) [unfolded w]] unfolding w
      by (cases "q = R_done") (auto simp: recv_counts_def)
  qed (use assms w in \<open>auto simp: recv_handler_defs recv_counts_def outcome_eqs kMaxNumberOfRecvAttempts_def
        Let_def u32_Suc_5 split: if_splits Event.splits\<close>)
qed

section \<open>Extraction from sealed frames\<close>

lemma length_sealed: "sealed_frame cs n g \<Longrightarrow> n + 2 \<le> length g"
  by (auto simp: sealed_frame_def seal_def)

lemma join_frames_outcome:
  assumes "\<forall>g\<in>set frames. sealed_frame cs 12 g"
    and "5 \<le> length data \<or> (\<exists>js. is = 0 # js)"
  shows "(\<exists>d. join_frames frames t is data = Ret d \<and> 5 \<le> length d) \<or>
    join_frames frames t is data = Throw Out_of_range"
  using assms(2)
proof (induction "is" arbitrary: data)
  case (Cons i "is")
  show ?case
  proof (cases "i < length frames")
    case True
    then have g: "14 \<le> length (frames ! i)" using assms(1) length_sealed by fastforce
    then have g2: "12 \<le> length (frames ! i) - Suc (Suc 0)" by simp
    obtain data' where "join_frames frames t (i # is) data = join_frames frames t is data'" "5 \<le> length data'"
    proof (cases "i = 0")
      case i: True
      have "2 \<le> length (frames ! 0) - 7" "length (frames ! 0) - 9 \<le> length (frames ! 0) - 7"
        using g i by auto
      then have "join_frames frames t (i # is) data = join_frames frames t is
          (take 5 (frames ! 0) @ take (length (frames ! 0) - 14) (drop 12 (frames ! 0)))"
        using True g i unfolding i by (simp add: vec_erase_def numeral_2_eq_2 [symmetric] del: One_nat_def)
      then show thesis by (rule that) (use g i in simp)
    next
      case False
      then have len: "5 \<le> length data" using Cons.prems by auto
      obtain bs where *: "join_frames frames t (i # is) data = join_frames frames t is (data @ bs)"
        by (cases "(word_of_nat i :: u32) = t - 1") (use True g g2 False in \<open>simp_all add: vec_slice_def\<close>)
      show thesis by (rule that [OF *]) (use len in simp)
    qed
    then show ?thesis using Cons.IH by (simp only: simp_thms)
  next
    case False
    then show ?thesis by (simp add: vec_at_def)
  qed
qed simp

lemma extract_outcome:
  assumes "\<forall>g\<in>set fs. sealed_frame cs 12 g" and "sealed_frame cs (header_length t) f"
    and "t = ExtendedLengthWithFrameDivision \<Longrightarrow> 0 < tf" and "t \<noteq> NotDefinedYet"
  shows "(\<exists>d. extract_message t (fs @ [f]) (length fs) tf = Ret d) \<or>
    extract_message t (fs @ [f]) (length fs) tf = Throw Out_of_range"
proof (cases t)
  case ExtendedLengthWithFrameDivision
  then have s: "\<forall>g\<in>set (fs @ [f]). sealed_frame cs 12 g" and n: "0 < unat tf"
    using assms by (auto simp: header_length_def word_less_nat_alt)
  have "[0..<unat tf] = 0 # [1..<unat tf]" using n by (simp add: upt_conv_Cons)
  then have "(\<exists>d. join_frames (fs @ [f]) tf [0..<unat tf] [] = Ret d \<and> 5 \<le> length d) \<or>
    join_frames (fs @ [f]) tf [0..<unat tf] [] = Throw Out_of_range"
    using join_frames_outcome [OF s] by blast
  then show ?thesis using ExtendedLengthWithFrameDivision
    by (auto simp: extract_message_def strip_envelope_def vec_erase_def)
qed (use assms(4) length_sealed [OF assms(2)] in
  \<open>auto simp: extract_message_def strip_envelope_def vec_erase_def header_length_def sealed_frame_def seal_def\<close>)
end
