(* ===== verification/SendMachine.thy ===== *)
theory SendMachine
  imports StateMachine ProtocolState
begin

text \<open>
  Sending: the states and transitions that the constructor of \<^verbatim>\<open>Protocol\<close> configures for
  \<^verbatim>\<open>m_sendMachine\<close>, one definition per handler \<^verbatim>\<open>Protocol::send...\<close>, and
  \<^verbatim>\<open>Protocol::send\<close> itself (all in \<^verbatim>\<open>CpuComDaemon/src/vcpu/protocol/Protocol.cpp\<close>).
  Logging and the pauses between attempts are left out.
\<close>

section \<open>States and transitions\<close>

datatype SendState = S_idle | S_enquiry | S_reenquiry | S_ack | S_frame | S_ack2 | S_retry | S_nak
  | S_wait | S_done | S_error | S_end

fun send_next :: "SendState \<Rightarrow> Event \<Rightarrow> SendState" where
  "send_next S_idle e = (case e of Pass \<Rightarrow> S_enquiry | _ \<Rightarrow> S_retry)"
| "send_next S_enquiry e = (case e of Pass \<Rightarrow> S_reenquiry | _ \<Rightarrow> S_retry)"
| "send_next S_reenquiry e = (case e of Pass \<Rightarrow> S_ack | Wait \<Rightarrow> S_nak | _ \<Rightarrow> S_retry)"
| "send_next S_ack e = (case e of Pass \<Rightarrow> S_frame | Busy \<Rightarrow> S_reenquiry | Wait \<Rightarrow> S_nak | _ \<Rightarrow> S_retry)"
| "send_next S_frame e = (case e of Pass \<Rightarrow> S_ack2 | _ \<Rightarrow> S_retry)"
| "send_next S_ack2 e = (case e of Pass \<Rightarrow> S_done | _ \<Rightarrow> S_retry)"
| "send_next S_retry e = (case e of Pass \<Rightarrow> S_enquiry | Fail \<Rightarrow> S_error | _ \<Rightarrow> S_retry)"
| "send_next S_nak e = (case e of Pass \<Rightarrow> S_wait | _ \<Rightarrow> S_retry)"
| "send_next S_wait e = (case e of Pass \<Rightarrow> S_enquiry | _ \<Rightarrow> S_retry)"
| "send_next S_done e = (case e of Wait \<Rightarrow> S_reenquiry | _ \<Rightarrow> S_end)"
| "send_next S_error e = S_end"
| "send_next S_end e = S_end"

text \<open>The final state has no transitions.\<close>

definition send_transitions :: "(SendState, Event) transitions" where
  "send_transitions q e = (if q = S_end then None else Some (send_next q e))"

section \<open>Handlers\<close>

type_synonym SendContext = Context
type_synonym 'd send_world = "SendContext \<times> 'd Protocol"
type_synonym 'd send_handler = "'d send_world \<Rightarrow> (Event \<times> 'd send_world) outcome"

definition SendContext :: "(byte list \<Rightarrow> byte) \<Rightarrow> byte list \<Rightarrow> SendContext" where
  "SendContext cs data = \<lparr>m_currentFrame = 0, m_frames = prepareFrames cs data, m_result = False\<rparr>"

text \<open>
  \<^verbatim>\<open>m_currentFrame < m_frames.size() - 1\<close> in unsigned arithmetic: with no frames at all the
  right side is the largest \<^verbatim>\<open>size_t\<close>.
\<close>

definition hasFramesToSend :: "SendContext \<Rightarrow> bool" where
  "hasFramesToSend c \<longleftrightarrow> m_frames c = [] \<or> m_currentFrame c < length (m_frames c) - 1"

definition kMaxNumberOfSendAttempts :: u32 where "kMaxNumberOfSendAttempts = 240"
definition kSendAttemptsForPortReinit :: u32 where "kSendAttemptsForPortReinit = 6"

definition sendIdle :: "'d send_handler" where
  "sendIdle w = (case w of (c, p) \<Rightarrow> Ret (Pass, (c, p\<lparr>m_r2 := 0\<rparr>)))"

definition sendEnquiry :: "'d send_handler" where
  "sendEnquiry w = (case w of (c, p) \<Rightarrow> omap (\<lambda>p. (Pass, (c, p))) (mutex_lock Sending p))"

definition sendReenquiry :: "'d IODevice \<Rightarrow> 'd send_handler" where
  "sendReenquiry D w = (case w of (c, p) \<Rightarrow>
     (case drain D (IO_Success, 0, m_device p) of
        None \<Rightarrow> Diverges
      | Some (r, b, d) \<Rightarrow>
          if r = IO_Timeout
          then (case dev_write_byte D d ENQ of (r, d) \<Rightarrow>
                 Ret (if r = IO_Success then Pass else Fail, (c, p\<lparr>m_device := d\<rparr>)))
          else Ret (Fail, (c, p\<lparr>m_device := d\<rparr>))))"

definition sendAcknowledgement :: "'d IODevice \<Rightarrow> 'd send_handler" where
  "sendAcknowledgement D w = (case w of (c, p) \<Rightarrow>
     (case dev_read D (m_device p) kTimeout3 0 of (r, b, d) \<Rightarrow>
        Ret (case r of
               IO_Success \<Rightarrow> if b = ACK then Pass else if b = NAK then Busy
                             else if b = ENQ then Wait else Deny
             | IO_Timeout \<Rightarrow> Deny
             | IO_Error \<Rightarrow> Fail, (c, p\<lparr>m_device := d\<rparr>))))"

definition sendFrame :: "'d IODevice \<Rightarrow> 'd send_handler" where
  "sendFrame D w = (case w of (c, p) \<Rightarrow>
     obind (currentFrame c) (\<lambda>frame.
       case dev_write D (m_device p) frame of (r, d) \<Rightarrow>
         Ret (if r = IO_Success then Pass else Fail, (c, p\<lparr>m_device := d\<rparr>))))"

definition sendAcknowledgement2 :: "'d IODevice \<Rightarrow> 'd send_handler" where
  "sendAcknowledgement2 D w = sendAcknowledgement D w"

definition sendRetry :: "'d IODevice \<Rightarrow> 'd send_handler" where
  "sendRetry D w = (case w of (c, p) \<Rightarrow>
     let p = p\<lparr>m_r2 := m_r2 p + 1\<rparr> in
     if m_r2 p < kMaxNumberOfSendAttempts then
       omap (\<lambda>p. (Pass, (c,
           if m_r2 p mod kSendAttemptsForPortReinit = 0
           then p\<lparr>m_device := snd (dev_open D (dev_close D (m_device p)))\<rparr> else p)))
         (mutex_unlock Sending p)
     else Ret (Fail, (c, p)))"

definition sendNak :: "'d IODevice \<Rightarrow> 'd send_handler" where
  "sendNak D w = (case w of (c, p) \<Rightarrow>
     (case dev_write_byte D (m_device p) NAK of (r, d) \<Rightarrow>
        Ret (if r = IO_Success then Pass else Fail, (c, p\<lparr>m_device := d\<rparr>))))"

definition sendWait :: "'d send_handler" where
  "sendWait w = (case w of (c, p) \<Rightarrow> omap (\<lambda>p. (Pass, (c, p))) (mutex_unlock Sending p))"

definition sendDone :: "'d send_handler" where
  "sendDone w = (case w of (c, p) \<Rightarrow>
     if hasFramesToSend c then omap (\<lambda>c. (Wait, (c, p))) (onFrameCompleted c)
     else Ret (Pass, (c\<lparr>m_result := True\<rparr>, p)))"

definition sendError :: "'d send_handler" where
  "sendError w = (case w of (c, p) \<Rightarrow> Ret (Pass, (c\<lparr>m_result := False\<rparr>, p)))"

definition sendEnd :: "'d send_handler" where
  "sendEnd w = (case w of (c, p) \<Rightarrow> omap (\<lambda>p. (Pass, (c, p))) (mutex_unlock Sending p))"

fun send_handlers :: "'d IODevice \<Rightarrow> SendState \<Rightarrow> 'd send_handler" where
  "send_handlers D S_idle = sendIdle"
| "send_handlers D S_enquiry = sendEnquiry"
| "send_handlers D S_reenquiry = sendReenquiry D"
| "send_handlers D S_ack = sendAcknowledgement D"
| "send_handlers D S_frame = sendFrame D"
| "send_handlers D S_ack2 = sendAcknowledgement2 D"
| "send_handlers D S_retry = sendRetry D"
| "send_handlers D S_nak = sendNak D"
| "send_handlers D S_wait = sendWait"
| "send_handlers D S_done = sendDone"
| "send_handlers D S_error = sendError"
| "send_handlers D S_end = sendEnd"

section \<open>Protocol::send\<close>

text \<open>
  \<open>run\<close> is \<^verbatim>\<open>FiniteStateMachine::run\<close>. The call returns the result flag of the context
  and the protocol object it leaves behind.
\<close>

type_synonym 'd send_runner =
  "(SendState \<Rightarrow> 'd send_handler) \<Rightarrow> (SendState \<Rightarrow> Event \<Rightarrow> SendState option)
   \<Rightarrow> SendState \<Rightarrow> SendState \<Rightarrow> 'd send_world \<Rightarrow> 'd send_world outcome"

definition protocol_send ::
    "'d send_runner \<Rightarrow> (byte list \<Rightarrow> byte) \<Rightarrow> 'd IODevice \<Rightarrow> 'd Protocol \<Rightarrow> byte list \<Rightarrow>
     (bool \<times> 'd Protocol) outcome" where
  "protocol_send run cs D p data =
     (if 2 < length data then
        omap (\<lambda>(c, p). (m_result c, p))
          (run (send_handlers D) send_transitions S_idle S_end (SendContext cs data, p))
      else Throw Assertion_failed)"

section \<open>What every handler keeps\<close>

lemmas send_handler_defs =
  sendIdle_def sendEnquiry_def sendReenquiry_def sendAcknowledgement_def sendFrame_def
  sendAcknowledgement2_def sendRetry_def sendNak_def sendWait_def sendDone_def sendError_def
  sendEnd_def

text \<open>
  The frames are never changed, the current frame exists, and the mutex is held by the sender
  in every state but the two from which it is taken, and the retry counter is below its limit
  until the machine gives up.
\<close>

definition send_unlocked :: "SendState \<Rightarrow> bool" where
  "send_unlocked q \<longleftrightarrow> q = S_idle \<or> q = S_enquiry"

definition send_inv :: "byte list list \<Rightarrow> SendState \<Rightarrow> 'd send_world \<Rightarrow> bool" where
  "send_inv fs q w \<longleftrightarrow> m_frames (fst w) = fs \<and> m_currentFrame (fst w) < length fs \<and>
     m_accessLock (snd w) = (if send_unlocked q then None else Some Sending) \<and>
     (q \<notin> {S_idle, S_error, S_end} \<longrightarrow> m_r2 (snd w) < kMaxNumberOfSendAttempts)"

lemma u32_below_Suc: "(r :: u32) < 240 \<Longrightarrow> \<not> r + 1 < 240 \<Longrightarrow> r + 1 = 240"
  by unat_arith

lemma send_inv_step:
  assumes "send_inv fs q w" and "q \<noteq> S_end" and "send_handlers D q w = Ret (e, w')"
  shows "send_inv fs (send_next q e) w'"
  using assms
  by (cases q; cases w; cases e)
     (auto simp: send_handler_defs send_inv_def send_unlocked_def outcome_eqs mutex_lock_def
        mutex_unlock_def Let_def onFrameCompleted_def case_prod_beta kMaxNumberOfSendAttempts_def
      split: option.splits io_result.splits if_splits)

lemma send_no_fault:
  assumes "send_inv fs q w"
  shows "send_handlers D q w \<noteq> Throw x" and "send_handlers D q w \<noteq> Blocked"
  using assms
  by (cases q; cases w;
      fastforce simp: send_handler_defs send_inv_def send_unlocked_def outcome_eqs mutex_lock_def
        mutex_unlock_def Let_def onFrameCompleted_def hasFramesToSend_def currentFrame_def vec_at_def
        case_prod_beta
      split: option.splits io_result.splits if_splits)+

lemma send_inv_path:
  assumes "fsm_path (send_handlers D) send_transitions S_end n (q, w) (q', w')" and "send_inv fs q w"
  shows "send_inv fs q' w'"
  using assms
  by (induction rule: fsm_path_invariant)
     (auto simp: send_transitions_def dest: send_inv_step split: if_splits)

lemma send_inv_start:
  assumes "m_accessLock p = None" and "length data < 2 ^ 32"
  shows "send_inv (prepareFrames cs data) S_idle (SendContext cs data, p)"
  using assms prepareFrames_nonempty [of data cs]
  by (simp add: send_inv_def send_unlocked_def SendContext_def)

section \<open>What was acknowledged, and how often the machine retried\<close>

text \<open>
  Over any device that is observed from an empty log: the frames before the current one, and no
  others, are acknowledged; the result flag is set on the way to the final state only; and the
  retry counter stays below its limit until the machine gives up.
\<close>

definition send_progress :: "byte list list \<Rightarrow> SendState \<Rightarrow> ('d \<times> io_event list) send_world \<Rightarrow> bool"
  where
  "send_progress fs q w \<longleftrightarrow>
     (let c = fst w; r2 = m_r2 (snd w); l = snd (m_device (snd w)); k = m_currentFrame c in
      acked l = (if q = S_done then take (Suc k) fs
                 else if q = S_end \<and> m_result c then fs else take k fs) \<and>
      (q = S_ack2 \<longrightarrow> (\<exists>l'. l = Wrote IO_Success (fs ! k) # l')) \<and>
      (q \<noteq> S_ack2 \<longrightarrow> \<not> frame_written l) \<and>
      (q \<noteq> S_end \<longrightarrow> \<not> m_result c) \<and>
      (q = S_error \<or> q = S_end \<and> \<not> m_result c \<longrightarrow> r2 = kMaxNumberOfSendAttempts))"

lemmas send_step_simps =
  send_handler_defs send_progress_def send_inv_def send_unlocked_def Let_def outcome_eqs
  case_prod_beta mutex_lock_def mutex_unlock_def

lemma send_progress_drain:
  assumes "send_inv fs q (c, p)" and "send_progress fs q (c, p)" and "q = S_reenquiry"
    and "send_handlers (logged D) q (c, p) = Ret (e, w')"
  shows "send_progress fs (send_next q e) w'"
proof -
  obtain d l where d: "m_device p = (d, l)" by (cases "m_device p")
  show ?thesis using assms d
      by (auto simp: send_step_simps drain_logged
          split: option.splits if_splits)
qed

lemma send_progress_ack:
  assumes "send_inv fs q (c, p)" and "send_progress fs q (c, p)" and "q = S_ack"
    and "send_handlers (logged D) q (c, p) = Ret (e, w')"
  shows "send_progress fs (send_next q e) w'"
proof -
  obtain d l where d: "m_device p = (d, l)" by (cases "m_device p")
  show ?thesis using assms d
      by (auto simp: send_step_simps
          split: io_result.splits if_splits)
qed

lemma send_progress_ack2:
  assumes "send_inv fs q (c, p)" and "send_progress fs q (c, p)" and "q = S_ack2"
    and "send_handlers (logged D) q (c, p) = Ret (e, w')"
  shows "send_progress fs (send_next q e) w'"
proof -
  obtain d l where d: "m_device p = (d, l)" by (cases "m_device p")
  show ?thesis using assms d
      by (auto simp: send_step_simps take_Suc_conv_app_nth
          split: io_result.splits if_splits)
qed

lemma send_progress_retry:
  assumes "send_inv fs q (c, p)" and "send_progress fs q (c, p)" and "q = S_retry"
    and "send_handlers (logged D) q (c, p) = Ret (e, w')"
  shows "send_progress fs (send_next q e) w'"
proof -
  obtain d l where d: "m_device p = (d, l)" by (cases "m_device p")
  show ?thesis using assms d
      by (auto simp: send_step_simps kMaxNumberOfSendAttempts_def u32_below_Suc
          split: if_splits)
qed

lemma send_progress_done:
  assumes "send_inv fs q (c, p)" and "send_progress fs q (c, p)" and "q = S_done"
    and "send_handlers (logged D) q (c, p) = Ret (e, w')"
  shows "send_progress fs (send_next q e) w'"
proof -
  obtain d l where d: "m_device p = (d, l)" by (cases "m_device p")
  show ?thesis using assms d
      by (auto simp: send_step_simps hasFramesToSend_def
      onFrameCompleted_def
          split: if_splits)
qed

lemma send_progress_other:
  assumes "send_inv fs q (c, p)" and "send_progress fs q (c, p)"
    and "q \<in> {S_idle, S_enquiry, S_frame, S_nak, S_wait, S_error}"
    and "send_handlers (logged D) q (c, p) = Ret (e, w')"
  shows "send_progress fs (send_next q e) w'"
proof -
  obtain d l where d: "m_device p = (d, l)" by (cases "m_device p")
  from assms(3) consider "q = S_idle" | "q = S_enquiry" | "q = S_frame" | "q = S_nak" | "q = S_wait" | "q = S_error" by auto
  then show ?thesis using assms(1,2,4) d
      by cases (auto simp: send_step_simps currentFrame_def vec_at_def
          split: io_result.splits if_splits option.splits)
qed

lemma send_progress_step:
  assumes "send_inv fs q w" and "send_progress fs q w" and "q \<noteq> S_end"
    and "send_handlers (logged D) q w = Ret (e, w')"
  shows "send_progress fs (send_next q e) w'"
proof -
  obtain c p where w: "w = (c, p)" by (cases w)
  consider "q = S_reenquiry" | "q = S_ack" | "q = S_ack2" | "q = S_retry" | "q = S_done"
    | "q \<in> {S_idle, S_enquiry, S_frame, S_nak, S_wait, S_error}"
    using assms(3) by (cases q) simp_all
  then show ?thesis
    using assms(1,2,4) unfolding w
    by cases (metis send_progress_drain, metis send_progress_ack, metis send_progress_ack2,
      metis send_progress_retry, metis send_progress_done, metis send_progress_other)
qed

lemma send_progress_path:
  assumes "fsm_path (send_handlers (logged D)) send_transitions S_end n (q, w) (q', w')"
    and "send_inv fs q w" and "send_progress fs q w"
  shows "send_inv fs q' w' \<and> send_progress fs q' w'"
  using assms(1)
proof (induction rule: fsm_path_invariant)
  case (step q w e w' q')
  then show ?case
    by (auto simp: send_transitions_def dest: send_inv_step send_progress_step split: if_splits)
qed (use assms in simp)

lemma send_progress_start:
  assumes "m_device p = (d, [])"
  shows "send_progress (prepareFrames cs data) S_idle (SendContext cs data, p)"
  using assms by (simp add: send_progress_def SendContext_def Let_def)

section \<open>From paths to calls\<close>

lemma sendEnd_Ret: "send_handlers D S_end (c, p) = Ret (e, w') \<Longrightarrow> w' = (c, p\<lparr>m_accessLock := None\<rparr>)"
  by (auto simp: sendEnd_def outcome_eqs mutex_unlock_def split: if_splits)

text \<open>A returning call ends with the mutex free, ...\<close>

lemma protocol_send_Ret:
  assumes "fsm_runner run" and "protocol_send run cs D p data = Ret (r, p')"
  obtains n c q where "2 < length data"
    "fsm_path (send_handlers D) send_transitions S_end n (S_idle, (SendContext cs data, p)) (S_end, (c, q))"
    "r = m_result c" "p' = q\<lparr>m_accessLock := None\<rparr>"
proof -
  from assms(2) obtain c1 where "2 < length data" and r: "r = m_result c1"
    and "run (send_handlers D) send_transitions S_idle S_end (SendContext cs data, p) = Ret (c1, p')"
    by (auto simp: protocol_send_def omap_eq_Ret split: if_splits)
  from fsm_runner.run_returns [OF assms(1) this(3)] obtain n w0 e
    where "fsm_path (send_handlers D) send_transitions S_end n (S_idle, (SendContext cs data, p)) (S_end, w0)"
      and e: "send_handlers D S_end w0 = Ret (e, (c1, p'))" by blast
  with \<open>2 < length data\<close> r show ?thesis 
    using sendEnd_Ret [of D "fst w0" "snd w0" e "(c1,p')"]
    by (intro that [of n "fst w0" "snd w0"]) auto
qed

lemma send_progress_end:
  assumes "send_progress fs S_end (c, p)"
  shows "m_result c \<Longrightarrow> acked (snd (m_device p)) = fs"
    and "\<not> m_result c \<Longrightarrow> m_r2 p = kMaxNumberOfSendAttempts \<and> acked (snd (m_device p)) = take (m_currentFrame c) fs"
  using assms by (simp_all add: send_progress_def Let_def)

section \<open>Termination\<close>

text \<open>
  A line on which the sender's call comes to an end: reading until nothing is left ends, and
  only finitely many answers (\<open>budget\<close> many) are \<open>NAK\<close> or \<open>ENQ\<close>. Failed attempts are
  counted by the machine itself, so the line may fail as often as it likes.
\<close>

definition patience :: "'d IODevice \<Rightarrow> ('d \<Rightarrow> nat) \<Rightarrow> bool" where
  "patience D budget \<longleftrightarrow>
     (\<forall>d. drain D (IO_Success, 0, d) \<noteq> None) \<and>
     (\<forall>d t b. budget (snd (snd (dev_read D d t b))) \<le> budget d) \<and>
     (\<forall>d b. budget (snd (dev_write_byte D d b)) \<le> budget d) \<and>
     (\<forall>d bs. budget (snd (dev_write D d bs)) \<le> budget d) \<and>
     (\<forall>d. budget (snd (dev_open D (dev_close D d))) \<le> budget d) \<and>
     (\<forall>d r b d'. dev_read D d kTimeout3 0 = (r, b, d') \<longrightarrow> r = IO_Success \<longrightarrow> b = NAK \<or> b = ENQ \<longrightarrow>
        budget d' < budget d)"

lemma drain_budget:
  assumes "patience D budget" and "drain D (r, b, d) = Some (r', b', d')"
  shows "budget d' \<le> budget d"
proof -
  have "(\<lambda>(r, b, d'). budget d' \<le> budget d) (r', b', d')"
    using assms(2) unfolding drain_def
  proof (rule while_option_rule [rotated])
    fix s :: "io_result \<times> byte \<times> 'a"
    assume "case s of (r, b, d') \<Rightarrow> budget d' \<le> budget d"
    then show "case (case s of (r, b, d) \<Rightarrow> dev_read D d Immediate b) of (r, b, d') \<Rightarrow> budget d' \<le> budget d"
      using assms(1) unfolding patience_def
      by (cases s) (simp add: case_prod_beta, meson order_trans)
  qed simp
  then show ?thesis by simp
qed

fun send_rank :: "SendState \<Rightarrow> nat" where
  "send_rank S_idle = 10" | "send_rank S_enquiry = 9" | "send_rank S_reenquiry = 8"
| "send_rank S_ack = 7" | "send_rank S_frame = 6" | "send_rank S_ack2 = 5" | "send_rank S_done = 4"
| "send_rank S_retry = 3" | "send_rank S_error = 2" | "send_rank S_end = 1"
| "send_rank S_nak = 15" | "send_rank S_wait = 14"

definition send_measure :: "('d \<Rightarrow> nat) \<Rightarrow> SendState \<Rightarrow> 'd send_world \<Rightarrow> nat" where
  "send_measure budget q w =
     20 * ((if q = S_idle then 240 else 240 - unat (m_r2 (snd w))) +
           (length (m_frames (fst w)) - m_currentFrame (fst w)) + budget (m_device (snd w)))
     + send_rank q"

lemma unat_retry:
  assumes "(r :: u32) < 240"
  shows "unat (r + 1) = Suc (unat r)" and "unat r < 240"
proof -
  show l: "unat r < 240" using assms by (simp add: word_less_nat_alt)
  then show "unat (r + 1) = Suc (unat r)" by (simp add: unat_word_ariths)
qed

lemma patienceD:
  assumes "patience D budget"
  shows "drain D (IO_Success, 0, d) \<noteq> None"
    and "budget (snd (snd (dev_read D d t b))) \<le> budget d"
    and "budget (snd (dev_write_byte D d b)) \<le> budget d"
    and "budget (snd (dev_write D d bs)) \<le> budget d"
    and "budget (snd (dev_open D (dev_close D d))) \<le> budget d"
    and "dev_read D d kTimeout3 0 = (IO_Success, a, d') \<Longrightarrow> a = NAK \<or> a = ENQ \<Longrightarrow> budget d' < budget d"
  using assms unfolding patience_def by blast+

lemma send_returns:
  assumes "send_inv fs q w" and "patience D budget"
  shows "\<exists>e w'. send_handlers D q w = Ret (e, w')"
proof (cases "send_handlers D q w")
  case Diverges
  have d: "drain D (IO_Success, 0, m_device (snd w)) \<noteq> None"
    using assms(2) unfolding patience_def by blast
  obtain c p where w: "w = (c, p)" by (cases w)
  have "False"
    using d Diverges unfolding w
    by (cases q)
       (auto simp: send_handler_defs case_prod_beta mutex_lock_def mutex_unlock_def Let_def
          onFrameCompleted_def currentFrame_def vec_at_def
        split: option.splits if_splits)
  then show ?thesis ..
qed (use send_no_fault [OF assms(1)] in auto)

lemma send_decreases_reenquiry:
  assumes pat: "patience D budget" and h: "send_handlers D S_reenquiry (c, p) = Ret (e, w')"
  shows "send_measure budget (send_next S_reenquiry e) w' < send_measure budget S_reenquiry (c, p)"
proof -
  obtain r b d where d: "drain D (IO_Success, 0, m_device p) = Some (r, b, d)"
    using h by (auto simp: sendReenquiry_def split: option.splits)
  have "budget d \<le> budget (m_device p)" by (rule drain_budget [OF pat d])
  moreover have "budget (snd (dev_write_byte D d ENQ)) \<le> budget d" by (rule patienceD(3) [OF pat])
  ultimately show ?thesis using h d
    by (auto simp: sendReenquiry_def send_measure_def case_prod_beta split: if_splits)
qed

lemma send_decreases_ack:
  assumes pat: "patience D budget" and h: "send_handlers D S_ack (c, p) = Ret (e, w')"
  shows "send_measure budget (send_next S_ack e) w' < send_measure budget S_ack (c, p)"
proof -
  obtain r b d where d: "dev_read D (m_device p) kTimeout3 0 = (r, b, d)" by (metis prod_cases3)
  have "budget d \<le> budget (m_device p)" using patienceD(2) [OF pat, of "m_device p" kTimeout3 0] d by simp
  moreover have "r = IO_Success \<Longrightarrow> b = NAK \<or> b = ENQ \<Longrightarrow> budget d < budget (m_device p)"
    using patienceD(6) [OF pat] d by blast
  ultimately show ?thesis using h d
    by (cases r) (auto simp: sendAcknowledgement_def send_measure_def split: if_splits)
qed

lemma send_decreases_ack2:
  assumes pat: "patience D budget" and h: "send_handlers D S_ack2 (c, p) = Ret (e, w')"
  shows "send_measure budget (send_next S_ack2 e) w' < send_measure budget S_ack2 (c, p)"
proof -
  obtain r b d where d: "dev_read D (m_device p) kTimeout3 0 = (r, b, d)" by (metis prod_cases3)
  have "budget d \<le> budget (m_device p)" using patienceD(2) [OF pat, of "m_device p" kTimeout3 0] d by simp
  then show ?thesis using h d
    by (cases r) (auto simp: sendAcknowledgement2_def sendAcknowledgement_def send_measure_def split: if_splits)
qed

lemma send_decreases_frame:
  assumes pat: "patience D budget" and h: "send_handlers D S_frame (c, p) = Ret (e, w')"
  shows "send_measure budget (send_next S_frame e) w' < send_measure budget S_frame (c, p)"
proof -
  obtain fr where "w' = (c, p\<lparr>m_device := snd (dev_write D (m_device p) fr)\<rparr>)" and "e \<in> {Pass, Fail}"
    using h by (auto simp: sendFrame_def case_prod_beta outcome_eqs)
  then show ?thesis using patienceD(4) [OF pat, of "m_device p" fr]
    by (auto simp: send_measure_def)
qed

lemma send_decreases_retry:
  assumes pat: "patience D budget" and h: "send_handlers D S_retry (c, p) = Ret (e, w')"
    and r: "m_r2 p < kMaxNumberOfSendAttempts"
  shows "send_measure budget (send_next S_retry e) w' < send_measure budget S_retry (c, p)"
proof -
  note u = unat_retry [OF r [unfolded kMaxNumberOfSendAttempts_def]]
  show ?thesis using h u patienceD(5) [OF pat, of "m_device p"]
    by (auto simp: sendRetry_def send_measure_def Let_def outcome_eqs mutex_unlock_def split: if_splits)
qed

lemma send_decreases:
  assumes inv: "send_inv fs q w" and pat: "patience D budget" and "q \<noteq> S_end"
    and h: "send_handlers D q w = Ret (e, w')"
  shows "send_measure budget (send_next q e) w' < send_measure budget q w"
proof -
  obtain c p where w: "w = (c, p)" by (cases w)
  have r: "q \<notin> {S_idle, S_error, S_end} \<Longrightarrow> m_r2 p < kMaxNumberOfSendAttempts"
    and cur: "m_currentFrame c < length (m_frames c)"
    using inv by (auto simp: send_inv_def w)
  have nak: "budget (snd (dev_write_byte D (m_device p) NAK)) \<le> budget (m_device p)"
    by (rule patienceD(3) [OF pat])
  consider "q = S_reenquiry" | "q = S_ack" | "q = S_ack2" | "q = S_frame" | "q = S_retry"
    | "q \<in> {S_idle, S_enquiry, S_nak, S_wait, S_done, S_error}"
    using assms(3) by (cases q) simp_all
  then show ?thesis
  proof cases
    case 6
    then show ?thesis using h nak cur unfolding w
      by (auto simp: send_handler_defs send_measure_def Let_def outcome_eqs case_prod_beta
        mutex_lock_def mutex_unlock_def onFrameCompleted_def hasFramesToSend_def split: if_splits option.splits)
  next
    case 1
    with h w show ?thesis using send_decreases_reenquiry [OF pat] by metis
  next
    case 2
    with h w show ?thesis using send_decreases_ack [OF pat] by metis
  next
    case 3
    with h w show ?thesis using send_decreases_ack2 [OF pat] by metis
  next
    case 4
    with h w show ?thesis using send_decreases_frame [OF pat] by metis
  next
    case 5
    with r have "m_r2 p < kMaxNumberOfSendAttempts" by simp
    with 5 h w show ?thesis using send_decreases_retry [OF pat] by metis
  qed
qed

end
