(* ===== verification/SendProperties.thy ===== *)
theory SendProperties
  imports SendMachine
begin

text \<open>
  What \<^verbatim>\<open>Protocol::send\<close> promises, over any device and any runner that meets the contract
  \<open>fsm_runner\<close>: the frames a successful send delivered, the bounded number of attempts, the
  mutex, exceptions, termination, and the line on which it does not terminate. The witnesses run
  the reference runner on small devices.
\<close>

section \<open>Devices for the witnesses\<close>

text \<open>A peer that answers every waited-for read with the same byte and accepts every write.\<close>

definition steady_peer :: "io_result \<Rightarrow> byte \<Rightarrow> unit IODevice" where
  "steady_peer r b = \<lparr>
     dev_open = (\<lambda>d. (True, d)), dev_close = (\<lambda>d. d),
     dev_read = (\<lambda>d t x. if t = Immediate then (if r = IO_Success then IO_Timeout else r, x, d) else (r, b, d)),
     dev_readMulti = (\<lambda>d n t. (r, replicate n b, d)),
     dev_write_byte = (\<lambda>d x. (IO_Success, d)), dev_write = (\<lambda>d x. (IO_Success, d)),
     dev_poll = (\<lambda>d t. (r, d))\<rparr>"

lemma steady_peer_simps [simp]:
  "dev_open (steady_peer r b) d = (True, d)" "dev_close (steady_peer r b) d = d"
  "dev_read (steady_peer r b) d t x =
     (if t = Immediate then (if r = IO_Success then IO_Timeout else r, x, d) else (r, b, d))"
  "dev_readMulti (steady_peer r b) d n t = (r, replicate n b, d)"
  "dev_write_byte (steady_peer r b) d x = (IO_Success, d)"
  "dev_write (steady_peer r b) d bs = (IO_Success, d)"
  "dev_poll (steady_peer r b) d t = (r, d)"
  by (simp_all add: steady_peer_def)

definition fresh :: "'d \<Rightarrow> 'd Protocol" where
  "fresh d = \<lparr>m_device = d, m_accessLock = None, m_r1 = 0, m_r2 = 0\<rparr>"

lemma fresh_simps [simp]: "m_device (fresh d) = d" "m_accessLock (fresh d) = None"
  "m_r1 (fresh d) = 0" "m_r2 (fresh d) = 0"
  by (simp_all add: fresh_def)

lemma steady_peer_drain [simp]:
  "drain (logged (steady_peer IO_Success b)) (IO_Success, x, (), l) =
     Some (IO_Timeout, x, (), ReadByte IO_Timeout x # l)"
  by (simp add: drain_unfold)

definition no_checksum :: "byte list \<Rightarrow> byte" where "no_checksum bs = 0"

text \<open>The evaluation rules of the send machine on a concrete device.\<close>

lemmas send_run = protocol_send_def fsm_run_unfold [of _ _ S_idle] fsm_run_unfold [of _ _ S_enquiry]
  fsm_run_unfold [of _ _ S_reenquiry] fsm_run_unfold [of _ _ S_ack] fsm_run_unfold [of _ _ S_frame]
  fsm_run_unfold [of _ _ S_ack2] fsm_run_unfold [of _ _ S_done] fsm_run_unfold [of _ _ S_end]
  send_transitions_def send_handler_defs SendContext_def prepareFrames_def currentFrame_def
  hasFramesToSend_def kTimeout3_def

section \<open>A line on which every read fails\<close>

text \<open>
  The attempts of a send when every read fails. One attempt takes the machine from
  \<open>S_enquiry\<close> through a failed read to \<open>S_retry\<close>, and every sixth one reopens the device.
\<close>

definition dead_line :: "'d IODevice \<Rightarrow> bool" where
  "dead_line D \<longleftrightarrow> (\<forall>d t b. fst (dev_read D d t b) = IO_Error)"

fun reads_in :: "io_event list \<Rightarrow> nat" where
  "reads_in [] = 0"
| "reads_in (ReadByte r b # l) = Suc (reads_in l)"
| "reads_in (e # l) = reads_in l"

fun opens_in :: "io_event list \<Rightarrow> nat" where
  "opens_in [] = 0"
| "opens_in (Opened r # l) = Suc (opens_in l)"
| "opens_in (e # l) = opens_in l"

fun writes_in :: "io_event list \<Rightarrow> nat" where
  "writes_in [] = 0"
| "writes_in (Wrote r f # l) = Suc (writes_in l)"
| "writes_in (WroteByte r b # l) = Suc (writes_in l)"
| "writes_in (e # l) = writes_in l"

lemma drain_dead:
  assumes "dead_line D"
  obtains b d' where "drain (logged D) (IO_Success, 0, d, l) = Some (IO_Error, b, d', ReadByte IO_Error b # l)"
proof -
  obtain r b d' where "dev_read D d Immediate 0 = (r, b, d')" by (metis prod_cases3)
  moreover have "r = IO_Error" using assms calculation unfolding dead_line_def by (metis fst_conv)
  ultimately show thesis using that [of b d'] by (simp add: drain_unfold)
qed

text \<open>A retry beyond the limit ends the call.\<close>

lemma retry_gives_up:
  assumes "fsm_runner run" and "\<not> m_r2 p + 1 < kMaxNumberOfSendAttempts" and "m_accessLock p = Some Sending"
  shows "run (send_handlers D) send_transitions S_retry S_end (c, p) =
    Ret (c\<lparr>m_result := False\<rparr>, p\<lparr>m_r2 := m_r2 p + 1, m_accessLock := None\<rparr>)"
proof -
  note next_step = fsm_runner.run_next [OF assms(1)]
  let ?h = "send_handlers D" and ?t = send_transitions and ?p = "p\<lparr>m_r2 := m_r2 p + 1\<rparr>"
  have "run ?h ?t S_retry S_end (c, p) = run ?h ?t S_error S_end (c, ?p)"
    by (rule next_step [where e = Fail]) (simp_all add: sendRetry_def Let_def assms(2) send_transitions_def)
  also have "\<dots> = run ?h ?t S_end S_end (c\<lparr>m_result := False\<rparr>, ?p)"
    by (rule next_step [where e = Pass]) (simp_all add: sendError_def send_transitions_def)
  also have "\<dots> = Ret (c\<lparr>m_result := False\<rparr>, ?p\<lparr>m_accessLock := None\<rparr>)"
    by (rule fsm_runner.run_final [OF assms(1), where e = Pass]) (simp add: sendEnd_def assms(3))
  finally show ?thesis by simp
qed

lemma send_dead_attempt:
  assumes "fsm_runner run" and dead: "dead_line D" and dev: "m_device p = (d, l)"
    and lock: "m_accessLock p = None" and k: "m_r2 p = word_of_nat k" "k < 240"
  obtains d' l' p' where "m_device p' = (d', l')" "m_r2 p' = word_of_nat (Suc k)"
    "reads_in l' = Suc (reads_in l)" "writes_in l' = writes_in l"
    "opens_in l' = (if Suc k < 240 \<and> 6 dvd Suc k then Suc (opens_in l) else opens_in l)"
    "m_accessLock p' = None"
    "run (send_handlers (logged D)) send_transitions S_enquiry S_end (c, p) =
      (if Suc k < 240 then run (send_handlers (logged D)) send_transitions S_enquiry S_end (c, p')
       else Ret (c\<lparr>m_result := False\<rparr>, p'))"
proof -
  note next_step = fsm_runner.run_next [OF assms(1)]
  let ?h = "send_handlers (logged D)" and ?t = send_transitions
  obtain b d1 where dr: "drain (logged D) (IO_Success, 0, d, l) = Some (IO_Error, b, d1, ReadByte IO_Error b # l)"
    by (rule drain_dead [OF dead])
  let ?p1 = "p\<lparr>m_accessLock := Some Sending\<rparr>"
  let ?p2 = "?p1\<lparr>m_device := (d1, ReadByte IO_Error b # l)\<rparr>"
  let ?p3 = "?p2\<lparr>m_r2 := m_r2 p + 1\<rparr>"
  have r: "m_r2 p + 1 = word_of_nat (Suc k)" using k by simp
  have "run ?h ?t S_enquiry S_end (c, p) = run ?h ?t S_reenquiry S_end (c, ?p1)"
    by (rule next_step [where e = Pass]) (simp_all add: sendEnquiry_def lock send_transitions_def)
  also have "\<dots> = run ?h ?t S_retry S_end (c, ?p2)"
    by (rule next_step [where e = Fail]) (simp_all add: sendReenquiry_def dev dr send_transitions_def)
  finally have start: "run ?h ?t S_enquiry S_end (c, p) = run ?h ?t S_retry S_end (c, ?p2)" .
  show thesis
  proof (cases "Suc k < 240")
    case True
    then have lim: "m_r2 p + 1 < kMaxNumberOfSendAttempts"
      unfolding r by (simp add: kMaxNumberOfSendAttempts_def word_less_nat_alt del: of_nat_Suc)
    have md: "(m_r2 p + 1) mod kSendAttemptsForPortReinit = 0 \<longleftrightarrow> 6 dvd Suc k"
      unfolding r using True
      by (simp add: kSendAttemptsForPortReinit_def word_unat_eq_iff unat_mod dvd_eq_mod_eq_0 del: of_nat_Suc)
    let ?dev = "if 6 dvd Suc k then snd (dev_open (logged D) (dev_close (logged D) (d1, ReadByte IO_Error b # l)))
                else (d1, ReadByte IO_Error b # l)"
    let ?p4 = "?p3\<lparr>m_accessLock := None, m_device := ?dev\<rparr>"
    have "?h S_retry (c, ?p2) = Ret (Pass, (c, ?p4))"
      using lim md by (simp add: sendRetry_def Let_def)
    then have "run ?h ?t S_retry S_end (c, ?p2) = run ?h ?t S_enquiry S_end (c, ?p4)"
      by (intro next_step [where e = Pass]) (simp_all add: send_transitions_def)
    with start have e: "run ?h ?t S_enquiry S_end (c, p) = run ?h ?t S_enquiry S_end (c, ?p4)" by simp
    show thesis
      by (rule that [of ?p4 "fst ?dev" "snd ?dev"]) (use True r e in simp_all)
  next
    case False
    with k(2) have "Suc k = 240" by simp
    then have lim: "\<not> m_r2 p + 1 < kMaxNumberOfSendAttempts"
      unfolding r by (simp add: kMaxNumberOfSendAttempts_def word_less_nat_alt del: of_nat_Suc)
    have e: "run ?h ?t S_enquiry S_end (c, p) = Ret (c\<lparr>m_result := False\<rparr>, ?p3\<lparr>m_accessLock := None\<rparr>)"
      using retry_gives_up [OF assms(1), of ?p2 "logged D" c] lim start by simp
    show thesis
      by (rule that [of "?p3\<lparr>m_accessLock := None\<rparr>" d1 "ReadByte IO_Error b # l"]) (use False r e in simp_all)
  qed
qed

lemma send_dead_attempts:
  assumes "fsm_runner run" and dead: "dead_line D" and "m_device p = (d, l)"
    and "m_accessLock p = None" and "m_r2 p = word_of_nat k" "k < 240"
  shows "\<exists>d' l' p'. run (send_handlers (logged D)) send_transitions S_enquiry S_end (c, p) =
        Ret (c\<lparr>m_result := False\<rparr>, p') \<and> m_device p' = (d', l') \<and> reads_in l' = reads_in l + (240 - k) \<and>
        writes_in l' = writes_in l \<and> opens_in l' = opens_in l + (39 - k div 6)"
  using assms(3-)
proof (induction "240 - k" arbitrary: k p d l)
  case (Suc m)
  obtain d' l' p' where p': "m_device p' = (d', l')" "m_r2 p' = word_of_nat (Suc k)"
    "reads_in l' = Suc (reads_in l)" "writes_in l' = writes_in l"
    "opens_in l' = (if Suc k < 240 \<and> 6 dvd Suc k then Suc (opens_in l) else opens_in l)"
    "m_accessLock p' = None"
    and run: "run (send_handlers (logged D)) send_transitions S_enquiry S_end (c, p) =
      (if Suc k < 240 then run (send_handlers (logged D)) send_transitions S_enquiry S_end (c, p')
       else Ret (c\<lparr>m_result := False\<rparr>, p'))"
    by (rule send_dead_attempt [OF assms(1) dead Suc.prems])
  show ?case
  proof (cases "Suc k < 240")
    case True
    have "m = 240 - Suc k" using Suc.hyps(2) by simp
    from Suc.hyps(1) [OF this p'(1,6,2) True] obtain d'' l'' p'' where
      "run (send_handlers (logged D)) send_transitions S_enquiry S_end (c, p') = Ret (c\<lparr>m_result := False\<rparr>, p'')"
      "m_device p'' = (d'', l'')" "reads_in l'' = reads_in l' + (240 - Suc k)"
      "writes_in l'' = writes_in l'" "opens_in l'' = opens_in l' + (39 - Suc k div 6)" by blast
    moreover have "Suc k div 6 = (if 6 dvd Suc k then Suc (k div 6) else k div 6)" by (simp add: div_Suc dvd_eq_mod_eq_0)
    moreover have "6 dvd Suc k \<Longrightarrow> k div 6 < 39" using True by presburger
    ultimately show ?thesis using True run p' by (auto split: if_splits)
  next
    case False
    with Suc.prems(4) have "k = 239" by simp
    then show ?thesis using run p' by auto
  qed
qed simp

section \<open>A peer that is always busy\<close>

text \<open>
  Nothing is pending, every enquiry is written and answered with \<open>NAK\<close>.
\<close>

definition busy_line :: "'d IODevice \<Rightarrow> bool" where
  "busy_line D \<longleftrightarrow>
     (\<forall>d b. fst (dev_read D d Immediate b) = IO_Timeout) \<and>
     (\<forall>d b. \<exists>d'. dev_read D d kTimeout3 b = (IO_Success, NAK, d')) \<and>
     (\<forall>d b. fst (dev_write_byte D d b) = IO_Success)"

lemma busy_line_drain:
  assumes "busy_line D" obtains b d' where "drain D (IO_Success, 0, d) = Some (IO_Timeout, b, d')"
proof -
  obtain r b d' where "dev_read D d Immediate 0 = (r, b, d')" by (metis prod_cases3)
  moreover have "r = IO_Timeout" using assms calculation unfolding busy_line_def by (metis fst_conv)
  ultimately show thesis using that [of b d'] by (simp add: drain_unfold)
qed

lemma send_busy_step:
  assumes "busy_line D" and "q \<in> {S_idle, S_enquiry, S_reenquiry, S_ack}"
    and "m_accessLock (snd w) = (if send_unlocked q then None else Some Sending)"
    and "send_handlers D q w = Ret (e, w')"
  shows "send_next q e \<in> {S_idle, S_enquiry, S_reenquiry, S_ack} \<and>
     m_accessLock (snd w') = (if send_unlocked (send_next q e) then None else Some Sending)"
proof -
  obtain c p where w: "w = (c, p)" by (cases w)
  obtain b d where dr: "drain D (IO_Success, 0, m_device p) = Some (IO_Timeout, b, d)"
    by (rule busy_line_drain [OF assms(1)])
  obtain d' where nak: "dev_read D (m_device p) kTimeout3 0 = (IO_Success, NAK, d')"
    using assms(1) unfolding busy_line_def by blast
  have "fst (dev_write_byte D d ENQ) = IO_Success" using assms(1) by (simp add: busy_line_def)
  then show ?thesis using assms(2-) dr nak w
    by (auto simp: send_handler_defs send_unlocked_def outcome_eqs case_prod_beta)
qed

lemma send_no_throw:
  assumes "fsm_runner run" and "m_accessLock p = None" and "2 < length data" and "length data < 2 ^ 32"
  shows "protocol_send run cs D p data \<noteq> Throw x"
proof
  assume "protocol_send run cs D p data = Throw x"
  then have "run (send_handlers D) send_transitions S_idle S_end (SendContext cs data, p) = Throw x"
    using assms(3) by (simp add: protocol_send_def omap_eq_Throw)
  then obtain n q w where path: "fsm_path (send_handlers D) send_transitions S_end n
      (S_idle, (SendContext cs data, p)) (q, w)" and t: "send_handlers D q w = Throw x"
    using fsm_runner.run_throws [OF assms(1), of _ _ _ S_end] by (metis send_transitions_def option.distinct(1))
  have "send_inv (prepareFrames cs data) q w"
    by (rule send_inv_path [OF path send_inv_start [OF assms(2,4)]])
  then show False using send_no_fault(1) t by blast
qed

lemma send_outcome:
  assumes "fsm_runner run" and "m_device p = (d, [])" and "m_accessLock p = None"
    and "length data < 2 ^ 32" and "protocol_send run cs (logged D) p data = Ret (r, p')"
  shows "m_accessLock p' = None \<and>
    (if r then acked (snd (m_device p')) = prepareFrames cs data
     else m_r2 p' = kMaxNumberOfSendAttempts \<and>
       (\<exists>k < length (prepareFrames cs data).
          acked (snd (m_device p')) = take k (prepareFrames cs data)))"
proof (rule protocol_send_Ret [OF assms(1,5)])
  fix n c q
  assume path: "fsm_path (send_handlers (logged D)) send_transitions S_end n
      (S_idle, (SendContext cs data, p)) (S_end, (c, q))"
    and r: "r = m_result c" and p': "p' = q\<lparr>m_accessLock := None\<rparr>"
  have "send_inv (prepareFrames cs data) S_end (c, q) \<and> send_progress (prepareFrames cs data) S_end (c, q)"
    by (rule send_progress_path [OF path send_inv_start [OF assms(3,4)] send_progress_start [OF assms(2)]])
  then have inv: "m_currentFrame c < length (prepareFrames cs data)"
    and pr: "send_progress (prepareFrames cs data) S_end (c, q)" by (simp_all add: send_inv_def)
  show ?thesis
  proof (cases "m_result c")
    case True
    then show ?thesis using send_progress_end(1) [OF pr] r p' by simp
  next
    case False
    then show ?thesis using send_progress_end(2) [OF pr] r p' inv by auto
  qed
qed

section \<open>Properties\<close>

text \<open>
  C1: when a send returns true, every frame of the message was acknowledged, in order, and no
  other; when it returns false, the machine made all of its 240 attempts and the acknowledged
  frames are a proper prefix of the message. Either way the mutex is free again.
\<close>

theorem send_result:
  assumes "fsm_runner run" and "m_device p = (d, [])" and "m_accessLock p = None"
    and "length data < 2 ^ 32" and "protocol_send run cs (logged D) p data = Ret (r, p')"
  shows "m_accessLock p' = None \<and>
    (if r then acked (snd (m_device p')) = prepareFrames cs data
     else m_r2 p' = kMaxNumberOfSendAttempts \<and>
       (\<exists>k < length (prepareFrames cs data).
          acked (snd (m_device p')) = take k (prepareFrames cs data)))"
  by (rule send_outcome [OF assms])

lemma send_result_witness:
  "\<exists>p'. protocol_send fsm_run no_checksum (logged (steady_peer IO_Success ACK)) (fresh ((), [])) [1, 2, 3, 4]
      = Ret (True, p') \<and>
    m_accessLock p' = None \<and> acked (snd (m_device p')) = [[STX, 6, 1, 2, 3, 4, ETX, 0]]"
proof -
  let ?send = "protocol_send fsm_run no_checksum (logged (steady_peer IO_Success ACK)) (fresh ((), [])) [1, 2, 3, 4]"
  obtain p' where p': "?send = Ret (True, p')"
    by (simp add: send_run)
  have "m_accessLock p' = None \<and> acked (snd (m_device p')) = prepareFrames no_checksum [1, 2, 3, 4]"
    using send_result [OF ref.fsm_runner_axioms _ _ _ p'] by simp
  then show ?thesis using p'
    by (simp add: prepareFrames_def regular_frame_def seal_def no_checksum_def)
qed



text \<open>
  C6: a send returns when the line is patient: draining it ends and the peer answers \<open>NAK\<close> or
  \<open>ENQ\<close> only finitely often. Nothing else is asked of the line; reads and writes may fail
  forever.
\<close>

theorem send_terminates:
  assumes "fsm_runner run" and "patience D budget" and "m_accessLock p = None"
    and "2 < length data" and "length data < 2 ^ 32"
  shows "\<exists>r p'. protocol_send run cs D p data = Ret (r, p')"
proof -
  have "\<exists>w'. run (send_handlers D) send_transitions S_idle S_end (SendContext cs data, p) = Ret w'"
  proof (rule fsm_runner.run_terminates [OF assms(1), where I = "send_inv (prepareFrames cs data)"
        and m = "send_measure budget"])
    show "send_inv (prepareFrames cs data) S_idle (SendContext cs data, p)"
      by (rule send_inv_start [OF assms(3,5)])
  next
    fix q w e w'
    assume a: "send_inv (prepareFrames cs data) q w" "q \<noteq> S_end" "send_handlers D q w = Ret (e, w')"
    show "\<exists>q'. send_transitions q e = Some q' \<and> send_inv (prepareFrames cs data) q' w' \<and>
        send_measure budget q' w' < send_measure budget q w"
      using a send_inv_step [OF a] send_decreases [OF a(1) assms(2) a(2,3)]
      by (simp add: send_transitions_def)
  qed (rule send_returns [OF _ assms(2)])
  then show ?thesis using assms(4) by (auto simp: protocol_send_def)
qed

lemma send_terminates_witness:
  "\<exists>r p'. protocol_send fsm_run no_checksum (steady_peer IO_Success ACK) (fresh ()) [1, 2, 3] = Ret (r, p')"
proof (rule send_terminates [OF ref.fsm_runner_axioms, where budget = "\<lambda>_. 0"])
  show "patience (steady_peer IO_Success ACK) (\<lambda>_. 0)"
    by (auto simp: patience_def kTimeout3_def drain_unfold)
qed simp_all

text \<open>
  C34: on a line where every read fails a send gives up with false after exactly 240 reads, has
  reopened the device 39 times, and has written nothing.
\<close>

theorem send_dead_line:
  assumes "fsm_runner run" and "dead_line D" and "m_device p = (d, [])"
    and "m_accessLock p = None" and "2 < length data"
  shows "\<exists>p'. protocol_send run cs (logged D) p data = Ret (False, p') \<and>
    (let l = snd (m_device p') in reads_in l = 240 \<and> opens_in l = 39 \<and> writes_in l = 0)"
proof -
  let ?c = "SendContext cs data"
  have "run (send_handlers (logged D)) send_transitions S_idle S_end (?c, p) =
      run (send_handlers (logged D)) send_transitions S_enquiry S_end (?c, p\<lparr>m_r2 := 0\<rparr>)"
    by (rule fsm_runner.run_next [OF assms(1), where e = Pass]) (simp_all add: sendIdle_def send_transitions_def)
  then show ?thesis
    using send_dead_attempts [OF assms(1,2), of "p\<lparr>m_r2 := 0\<rparr>" d "[]" 0 ?c] assms(3-)
    by (auto simp: protocol_send_def)
qed

lemma send_dead_line_witness:
  "\<exists>p'. protocol_send fsm_run no_checksum (logged (steady_peer IO_Error 0)) (fresh ((), [])) [1, 2, 3] = Ret (False, p') \<and>
    (let l = snd (m_device p') in reads_in l = 240 \<and> opens_in l = 39 \<and> writes_in l = 0)"
  by (rule send_dead_line [OF ref.fsm_runner_axioms]) (simp_all add: dead_line_def)

text \<open>
  A peer that answers every enquiry with \<open>NAK\<close> is asked again without end: the call never
  returns, since a busy answer is not counted as an attempt.
\<close>

lemma send_busy_line:
  assumes "fsm_runner run" and "busy_line D" and "m_accessLock p = None"
  shows "protocol_send run cs D p data \<noteq> Ret r"
proof
  assume r: "protocol_send run cs D p data = Ret r"
  obtain b p' where "r = (b, p')" by (cases r)
  with r obtain n w where path:
    "fsm_path (send_handlers D) send_transitions S_end n (S_idle, (SendContext cs data, p)) (S_end, w)"
    using protocol_send_Ret [OF assms(1)] by metis
  define I where "I q w \<longleftrightarrow> q \<in> {S_idle, S_enquiry, S_reenquiry, S_ack} \<and>
     m_accessLock (snd w) = (if send_unlocked q then None else Some Sending)" for q and w :: "'a send_world"
  have "I S_end w"
    using path
  proof (induction rule: fsm_path_invariant)
    case init
    then show ?case using assms(3) by (simp add: I_def send_unlocked_def)
  next
    case (step q w e w' q')
    then show ?case
      using send_busy_step [OF assms(2), of q w e w'] by (auto simp: I_def send_transitions_def split: if_splits)
  qed
  then show False by (simp add: I_def)
qed

end
