(* ===== verification/RecvProperties.thy ===== *)
theory RecvProperties
  imports RecvMachine SendProperties
begin

text \<open>
  What \<^verbatim>\<open>Protocol::receive\<close> promises: the messages that \<^verbatim>\<open>prepareFrames\<close> encodes come
  back from a sender that keeps pace with the receiver, only frames with a matching checksum are
  accepted, and the exceptions the code can raise; and the sizes and lines on which it does not
  do what it should.
\<close>

section \<open>A sender that keeps pace\<close>

text \<open>
  The line of a sender that follows the protocol step by step: \<open>fst\<close> holds the bytes that can
  be read now, \<open>snd\<close> what it puts on the line after each further \<open>ACK\<close>. A read of more
  bytes than there are times out.
\<close>

type_synonym paced = "byte list \<times> byte list list"

definition paced_line :: "paced IODevice" where
  "paced_line = \<lparr>
     dev_open = (\<lambda>d. (True, d)), dev_close = (\<lambda>d. d),
     dev_read = (\<lambda>(av, pe) t b. case av of [] \<Rightarrow> (IO_Timeout, b, (av, pe)) | x # xs \<Rightarrow> (IO_Success, x, (xs, pe))),
     dev_readMulti = (\<lambda>(av, pe) n t. if n \<le> length av then (IO_Success, take n av, (drop n av, pe))
                                        else (IO_Timeout, av, ([], pe))),
     dev_write_byte = (\<lambda>(av, pe) b. (IO_Success, if b = ACK then (concat (take 1 pe), drop 1 pe) else ([], pe))),
     dev_write = (\<lambda>d bs. (IO_Success, d)),
     dev_poll = (\<lambda>d t. (IO_Success, d))\<rparr>"

lemma paced_line_simps [simp]:
  "dev_read paced_line ([], pe) t b = (IO_Timeout, b, ([], pe))"
  "dev_read paced_line (x # xs, pe) t b = (IO_Success, x, (xs, pe))"
  "dev_readMulti paced_line (av, pe) n t = (if n \<le> length av then (IO_Success, take n av, (drop n av, pe))
                                        else (IO_Timeout, av, ([], pe)))"
  "dev_write_byte paced_line (av, pe) b = (IO_Success, if b = ACK then (concat (take 1 pe), drop 1 pe) else ([], pe))"
  "dev_poll paced_line d t = (IO_Success, d)"
  by (simp_all add: paced_line_def)

lemma recv_run_unfold:
  assumes "fsm_runner run" and "q \<noteq> R_end"
  shows "run (recv_handlers cs D) recv_transitions q R_end w =
    obind (recv_handlers cs D q w) (\<lambda>(e, w'). run (recv_handlers cs D) recv_transitions (recv_next q e) R_end w')"
  using assms(2) by (intro fsm_runner.run_unfold [OF assms(1)]) (simp_all add: recv_transitions_def)

lemmas recv_frame_unfold = recv_run_unfold [of _ R_enquiry] recv_run_unfold [of _ R_ack] recv_run_unfold [of _ R_stx]
  recv_run_unfold [of _ R_len] recv_run_unfold [of _ R_datacmd] recv_run_unfold [of _ R_dataextlen]
  recv_run_unfold [of _ R_dataframenumber] recv_run_unfold [of _ R_data] recv_run_unfold [of _ R_etx]
  recv_run_unfold [of _ R_cs] recv_run_unfold [of _ R_ack2]

lemma frames_ops:
  assumes "m_frames c = fs @ [f]" "m_currentFrame c = length fs"
  shows "currentFrame c = Ret f" and "set_currentFrame g c = c\<lparr>m_frames := fs @ [g]\<rparr>"
    and "append_current bs c = Ret (c\<lparr>m_frames := fs @ [f @ bs]\<rparr>)"
  using assms by (simp_all add: currentFrame_def set_currentFrame_def append_current_def vec_at_def)

lemma recv_regular_frame:
  assumes run: "fsm_runner run" and d: "3 \<le> length d" "length d \<le> 251"
    and c: "m_frames c = fs @ [[]]" "m_currentFrame c = length fs"
  shows "run (recv_handlers cs paced_line) recv_transitions R_enquiry R_end
      (c, p\<lparr>m_device := ([ENQ], regular_frame cs d # rest)\<rparr>) =
    run (recv_handlers cs paced_line) recv_transitions R_done R_end
      (c\<lparr>m_transmitionType := Regular, m_dataLength := word_of_nat (length d),
         m_frames := fs @ [regular_frame cs d]\<rparr>, p\<lparr>m_device := (concat (take 1 rest), drop 1 rest)\<rparr>)"
proof -
  define l where "l = (word_of_nat (length d + 2) :: byte)"
  have l: "unat l = length d + 2" unfolding l_def by (rule unat_word_of_nat_byte) (use d in simp)
  then have e: "l \<noteq> EXT_LEN" using d by (auto simp: EXT_LEN_def)
  have w: "(word_of_nat (length d) :: u32) - 3 = word_of_nat (length d - 3)" using d by (simp add: of_nat_diff)
  have u: "unat (word_of_nat (length d - 3) :: u32) = length d - 3" using d by (intro unat_word_of_nat_u32) simp
  have f: "regular_frame cs d = STX # l # take 3 d @ drop 3 d @ [ETX, cs (l # d @ [ETX])]"
    by (simp add: regular_frame_def seal_def l_def)
  have a: "take 3 d @ drop 3 d @ xs = d @ xs" for xs by (metis append_assoc append_take_drop_id)
  show ?thesis
    unfolding f using d c l e
    by (simp add: a recv_frame_unfold [OF run] recv_handler_defs drain_unfold append_current_def currentFrame_def
      set_currentFrame_def vec_at_def recv_data_size_def kTimeout3_def kTimeout4_def read_event_def w u del: of_nat_diff)
qed

text \<open>A frame with an extended length \<open>n\<close>, divided or not.\<close>

definition long_frame :: "(byte list \<Rightarrow> byte) \<Rightarrow> byte list \<Rightarrow> nat \<Rightarrow> byte list \<Rightarrow> byte list" where
  "long_frame cs header n body = seal cs ([STX, EXT_LEN] @ header @ length_bytes (word_of_nat n) @ body)"

lemma decode_word_of_nat:
  assumes "n < 2 ^ 24"
  shows "decode_length (length_bytes (word_of_nat n) ! 0) (length_bytes (word_of_nat n) ! 1)
     (length_bytes (word_of_nat n) ! 2) = word_of_nat n"
  using assms by (intro decode_length_bytes) (simp add: word_less_nat_alt)

lemma recv_extended_frame:
  assumes run: "fsm_runner run" and h: "length h = 3" and n: "n = length P + 8" "n \<le> 1032"
    and c: "m_frames c = fs @ [[]]" "m_currentFrame c = length fs" "m_transmitionType c \<in> {NotDefinedYet, ExtendedLength}"
  shows "run (recv_handlers cs paced_line) recv_transitions R_enquiry R_end
      (c, p\<lparr>m_device := ([ENQ], long_frame cs h n P # rest)\<rparr>) =
    run (recv_handlers cs paced_line) recv_transitions R_done R_end
      (c\<lparr>m_dataLength := word_of_nat n - 2, m_transmitionType := ExtendedLength,
         m_frames := fs @ [long_frame cs h n P]\<rparr>, p\<lparr>m_device := (concat (take 1 rest), drop 1 rest)\<rparr>)"
proof -
  let ?L = "length_bytes (word_of_nat n)"
  have dec: "decode_length (?L ! 0) (?L ! 1) (?L ! 2) = word_of_nat n" by (rule decode_word_of_nat) (use n in simp)
  have w: "(word_of_nat n :: u32) - 8 = word_of_nat (length P)" using n by simp
  have u: "unat (word_of_nat (length P) :: u32) = length P" using n by (intro unat_word_of_nat_u32) simp
  have lim: "\<not> 1032 < (word_of_nat n :: u32)" using n by (simp add: word_less_nat_alt del: of_nat_add)
  have f: "long_frame cs h n P = STX # EXT_LEN # h @ ?L @ P @ [ETX, cs (EXT_LEN # h @ ?L @ P @ [ETX])]"
    by (simp add: long_frame_def seal_def)
  have t: "m_transmitionType c \<noteq> Regular" "m_transmitionType c \<noteq> ExtendedLengthWithFrameDivision" using c(3) by auto
  have L: "length ?L = 3" by simp
  show ?thesis
    unfolding f using c(1,2) t h L
    by (simp add: recv_frame_unfold [OF run] recv_handler_defs drain_unfold append_current_def currentFrame_def
      set_currentFrame_def vec_at_def recv_data_size_def kTimeout3_def kTimeout4_def read_event_def w u lim dec [unfolded One_nat_def] Let_def
      del: of_nat_diff length_length_bytes)
qed

lemma recv_division_frame:
  assumes run: "fsm_runner run" and h: "length h = 3" and n: "n = length P + 12" "n < 2 ^ 24" and nb: "length nb = 4"
    and c: "m_frames c = fs @ [[]]" "m_currentFrame c = length fs" "m_transmitionType c \<noteq> Regular"
      "1032 < n \<or> m_transmitionType c = ExtendedLengthWithFrameDivision"
  shows "run (recv_handlers cs paced_line) recv_transitions R_enquiry R_end
      (c, p\<lparr>m_device := ([ENQ], long_frame cs h n (nb @ P) # rest)\<rparr>) =
    run (recv_handlers cs paced_line) recv_transitions R_done R_end
      (c\<lparr>m_dataLength := word_of_nat n - 2, m_transmitionType := ExtendedLengthWithFrameDivision,
         m_totalFrames := ucast (decode_number (nb ! 2) (nb ! 3)),
         m_frameNumber := ucast (decode_number (nb ! 0) (nb ! 1)),
         m_frames := fs @ [long_frame cs h n (nb @ P)]\<rparr>,
       p\<lparr>m_device := (concat (take 1 rest), drop 1 rest)\<rparr>)"
proof -
  let ?L = "length_bytes (word_of_nat n)"
  have dec: "decode_length (?L ! 0) (?L ! 1) (?L ! 2) = word_of_nat n" by (rule decode_word_of_nat) (use n in simp)
  have w: "(word_of_nat n :: u32) - 12 = word_of_nat (length P)" using n by simp
  have u: "unat (word_of_nat (length P) :: u32) = length P" using n by (intro unat_word_of_nat_u32) simp
  have lim: "1032 < (word_of_nat n :: u32) \<longleftrightarrow> 1032 < n" using n by (simp add: word_less_nat_alt del: of_nat_add)
  have f: "long_frame cs h n (nb @ P) = STX # EXT_LEN # h @ ?L @ nb @ P @ [ETX, cs (EXT_LEN # h @ ?L @ nb @ P @ [ETX])]"
    by (simp add: long_frame_def seal_def)
  have L: "length ?L = 3" by simp
  show ?thesis
    unfolding f using c h L nb
    by (simp add: recv_frame_unfold [OF run] recv_handler_defs drain_unfold append_current_def currentFrame_def
      set_currentFrame_def vec_at_def recv_data_size_def kTimeout3_def kTimeout4_def read_event_def w u lim
      dec [unfolded One_nat_def] Let_def
      del: of_nat_diff length_length_bytes)
qed

section \<open>Whole messages\<close>

text \<open>The sender enquires, waits for \<open>ACK\<close>, writes a frame, and waits for \<open>ACK\<close> again.\<close>

fun wire :: "byte list list \<Rightarrow> byte list list" where
  "wire [] = []"
| "wire (f # fs) = [ENQ] # f # wire fs"

definition paced_start :: "byte list list \<Rightarrow> paced" where
  "paced_start frames = (concat (take 1 (wire frames)), drop 1 (wire frames))"

definition listening :: "byte list list \<Rightarrow> paced Protocol" where
  "listening frames = \<lparr>m_device = paced_start frames, m_accessLock = None, m_r1 = 0, m_r2 = 0\<rparr>"

lemma recv_begin:
  assumes "fsm_runner run" and "m_accessLock p = None"
  shows "run (recv_handlers cs paced_line) recv_transitions R_idle R_end (c, p) =
    run (recv_handlers cs paced_line) recv_transitions R_enquiry R_end
      (c, p\<lparr>m_r1 := 0, m_accessLock := Some Receiving\<rparr>)"
  using assms(2)
  by (simp add: recv_run_unfold [OF assms(1), of R_idle] recv_run_unfold [OF assms(1), of R_poll] recvIdle_def recvPoll_def)

lemma recv_finish:
  assumes "fsm_runner run" and "m_accessLock p = Some Receiving"
    and "m_transmitionType c \<in> {Regular, ExtendedLength} \<or>
      m_transmitionType c = ExtendedLengthWithFrameDivision \<and> m_frameNumber c = m_totalFrames c - 1"
  shows "run (recv_handlers cs D) recv_transitions R_done R_end (c, p) =
    Ret (c\<lparr>m_result := True\<rparr>, p\<lparr>m_accessLock := None\<rparr>)"
proof -
  have "run (recv_handlers cs D) recv_transitions R_end R_end (c\<lparr>m_result := True\<rparr>, p) =
      Ret (c\<lparr>m_result := True\<rparr>, p\<lparr>m_accessLock := None\<rparr>)"
    using assms(2) by (intro fsm_runner.run_final [OF assms(1), where e = Pass]) (simp add: recvEnd_def)
  then show ?thesis
    using assms(3) by (auto simp: recv_run_unfold [OF assms(1), of R_done] recvDone_def)
qed

lemma recv_next_frame:
  assumes "fsm_runner run" and "m_transmitionType c = ExtendedLengthWithFrameDivision"
    and "m_frameNumber c \<noteq> m_totalFrames c - 1" and "length (m_frames c) = Suc (m_currentFrame c)"
  shows "run (recv_handlers cs D) recv_transitions R_done R_end (c, p) =
    run (recv_handlers cs D) recv_transitions R_enquiry R_end
      (c\<lparr>m_frames := m_frames c @ [[]], m_currentFrame := Suc (m_currentFrame c)\<rparr>, p)"
  using assms(2-)
  by (simp add: recv_run_unfold [OF assms(1), of R_done] recvDone_def recv_onFrameCompleted_def onFrameCompleted_def)

lemma ucast_number:
  assumes "j < 65536"
  shows "(ucast (ucast (word_of_nat j :: u32) :: 16 word) :: u32) = word_of_nat j"
  using assms by (simp add: word_unat_eq_iff unsigned_ucast_eq unsigned_take_bit_eq take_bit_nat_eq_self)

lemma decode_numbers:
  assumes "j < 65536" "n < 65536"
  shows "ucast (decode_number ((number_bytes (word_of_nat j) @ number_bytes (word_of_nat n)) ! 0)
      ((number_bytes (word_of_nat j) @ number_bytes (word_of_nat n)) ! 1)) = (word_of_nat j :: u32)"
    and "ucast (decode_number ((number_bytes (word_of_nat j) @ number_bytes (word_of_nat n)) ! 2)
      ((number_bytes (word_of_nat j) @ number_bytes (word_of_nat n)) ! 3)) = (word_of_nat n :: u32)"
  using decode_number_bytes [of "word_of_nat j"] decode_number_bytes [of "word_of_nat n"] ucast_number assms
  by (simp_all add: nth_append)

lemma division_as_long:
  assumes "len = word_of_nat n"
  shows "division_frame cs fc c s cb i len chunk = long_frame cs [c, s, cb] n ((number_bytes i @ number_bytes fc) @ chunk)"
  by (simp add: division_frame_def long_frame_def assms)

text \<open>
  The frames of a divided message in the order \<open>js\<close> in which they arrive: the receiver does not
  compare their numbers with what it has, it counts them in until the last one has come.
\<close>

lemma recv_arrivals:
  assumes run: "fsm_runner run" and n: "n = (length P + 1023) div 1024" "1024 < length P" "n < 65536"
    and js: "js \<noteq> []" "set js \<subseteq> {..<n}" "last js = n - 1" "n - 1 \<notin> set (butlast js)"
    and c: "m_frames c = fs @ [[]]" "m_currentFrame c = length fs"
      "m_transmitionType c = (if fs = [] then NotDefinedYet else ExtendedLengthWithFrameDivision)"
      "fs = [] \<Longrightarrow> hd js < n - 1"
    and p: "m_accessLock p = Some Receiving"
  shows "\<exists>c' p'. run (recv_handlers cs paced_line) recv_transitions R_enquiry R_end
      (c, p\<lparr>m_device := paced_start (map (nth_division_frame cs n a s cb P) js)\<rparr>) = Ret (c', p') \<and>
      m_result c' \<and> m_frames c' = fs @ map (nth_division_frame cs n a s cb P) js \<and>
      m_currentFrame c' = length fs + length js - 1 \<and>
      m_totalFrames c' = word_of_nat n \<and> m_transmitionType c' = ExtendedLengthWithFrameDivision"
  using js c
proof (induction js arbitrary: fs c)
  case (Cons i js)
  let ?F = "nth_division_frame cs n a s cb P"
  let ?P = "take 1024 (drop (1024 * i) P)" and ?k = "min 1024 (length P - 1024 * i) + 12"
    and ?h = "[a, s, if Suc i = n then cb OR 0x03 else cb OR 0x02]"
    and ?nb = "number_bytes (word_of_nat i) @ number_bytes (word_of_nat n)"
  have i: "i < n" using Cons.prems(2) by simp
  have F: "?F i = long_frame cs ?h ?k (?nb @ ?P)"
    unfolding nth_division_frame_def by (rule division_as_long) simp
  have k: "?k = length ?P + 12" "?k < 2 ^ 24" by auto
  have "1024 * (n - 1) < length P" using n(1,2) by linarith
  then have "fs = [] \<Longrightarrow> 1024 * Suc i \<le> length P" using Cons.prems(8) by auto
  then have big: "1032 < ?k \<or> m_transmitionType c = ExtendedLengthWithFrameDivision"
    using Cons.prems(7) by (cases "fs = []") auto
  have nr: "m_transmitionType c \<noteq> Regular" using Cons.prems(7) by simp
  have dn: "i < 65536" using i n(3) by simp
  note num = decode_numbers [OF dn n(3)]
  let ?c = "c\<lparr>m_dataLength := word_of_nat ?k - 2, m_transmitionType := ExtendedLengthWithFrameDivision,
         m_totalFrames := word_of_nat n, m_frameNumber := word_of_nat i, m_frames := fs @ [?F i]\<rparr>"
  let ?p = "p\<lparr>m_device := paced_start (map ?F js)\<rparr>"
  have start: "paced_start (map ?F (i # js)) = ([ENQ], ?F i # wire (map ?F js))"
    by (simp add: paced_start_def)
  have step: "run (recv_handlers cs paced_line) recv_transitions R_enquiry R_end
      (c, p\<lparr>m_device := paced_start (map ?F (i # js))\<rparr>) =
      run (recv_handlers cs paced_line) recv_transitions R_done R_end (?c, ?p)"
    using recv_division_frame [OF run _ k _ Cons.prems(5,6) nr big, where h = ?h and nb = ?nb and cs = cs and p = p
        and rest = "wire (map ?F js)"] num start
    by (simp add: F paced_start_def)
  have last: "(word_of_nat i :: u32) = word_of_nat n - 1 \<longleftrightarrow> Suc i = n"
    by (rule word_of_nat_eq_pred) (use i n(3) in simp_all)
  show ?case
  proof (cases "js = []")
    case True
    then have "Suc i = n" using Cons.prems(3) i by simp
    then have "run (recv_handlers cs paced_line) recv_transitions R_done R_end (?c, ?p) =
        Ret (?c\<lparr>m_result := True\<rparr>, ?p\<lparr>m_accessLock := None\<rparr>)"
      by (intro recv_finish [OF run]) (use p last in simp_all)
    then show ?thesis using step True Cons.prems(6) by auto
  next
    case False
    let ?c' = "?c\<lparr>m_frames := m_frames ?c @ [[]], m_currentFrame := Suc (m_currentFrame ?c)\<rparr>"
    have "Suc i \<noteq> n" using False Cons.prems(4) by auto
    then have next_frame: "run (recv_handlers cs paced_line) recv_transitions R_done R_end (?c, ?p) =
        run (recv_handlers cs paced_line) recv_transitions R_enquiry R_end (?c', ?p)"
      by (intro recv_next_frame [OF run]) (use last Cons.prems(6) in simp_all)
    show ?thesis unfolding step next_frame
      using Cons.IH [of ?c' "fs @ [?F i]"] False Cons.prems(2,3,4,6) by (auto split: if_splits)
  qed
qed simp

lemma recv_division_frames:
  assumes run: "fsm_runner run" and n: "n = (length P + 1023) div 1024" "1024 < length P" "n < 65536"
    and p: "m_accessLock p = Some Receiving"
  shows "\<exists>c' p'. run (recv_handlers cs paced_line) recv_transitions R_enquiry R_end
      (RecvContext, p\<lparr>m_device := paced_start (map (nth_division_frame cs n a s cb P) [0..<n])\<rparr>) = Ret (c', p') \<and>
      m_result c' \<and> m_frames c' = map (nth_division_frame cs n a s cb P) [0..<n] \<and> m_currentFrame c' = n - 1 \<and>
      m_totalFrames c' = word_of_nat n \<and> m_transmitionType c' = ExtendedLengthWithFrameDivision"
proof -
  have "1 < n" using n by simp
  then have "\<exists>m. n = Suc (Suc m)" by presburger
  then obtain m where m: "n = Suc (Suc m)" ..
  have js: "[0..<n] \<noteq> []" "set [0..<n] \<subseteq> {..<n}" "last [0..<n] = n - 1" "n - 1 \<notin> set (butlast [0..<n])" "hd [0..<n] < n - 1"
    unfolding m by (auto simp: butlast_append hd_append)
  show ?thesis
    using recv_arrivals [OF run n js(1-4), of RecvContext "[]" p cs a s cb] js(5) p by (simp add: RecvContext_def)
qed

section \<open>From paths to calls\<close>

lemma recv_path_result:
  assumes "fsm_runner run" and "run (recv_handlers cs D) recv_transitions R_idle R_end (RecvContext, p) = Ret (c, p')"
    and "polls_succeed D" and "m_accessLock p = None"
  shows "recv_inv cs R_end (c, p')" and "m_accessLock p' = None"
    and "m_r1 p' \<le> kMaxNumberOfRecvAttempts" and "m_result c \<Longrightarrow> m_r1 p' < kMaxNumberOfRecvAttempts"
proof -
  obtain n c0 p0 e where path: "fsm_path (recv_handlers cs D) recv_transitions R_end n
      (R_idle, (RecvContext, p)) (R_end, (c0, p0))" and e: "recv_handlers cs D R_end (c0, p0) = Ret (e, (c, p'))"
    using fsm_runner.run_returns [OF assms(1,2)] by (metis surj_pair)
  define I where "I q w \<longleftrightarrow> recv_locked q w \<and> recv_counts q w" for q and w :: "'a recv_world"
  have "I R_end (c0, p0)"
    using path
  proof (induction rule: fsm_path_invariant)
    case init
    then show ?case using assms(4) by (simp add: I_def recv_locked_def recv_counts_def)
  next
    case (step q w e w' q')
    then show ?case using recv_locked_step [of q w D cs e w'] recv_counts_step [of q w cs D e w'] assms(3)
      by (simp add: I_def recv_transitions_def split: if_splits)
  qed
  moreover have "c = c0" "p' = p0\<lparr>m_accessLock := None\<rparr>"
    using e by (auto simp: recvEnd_def outcome_eqs mutex_unlock_def split: if_splits)
  moreover have "recv_inv cs R_end (c0, p0)" by (rule recv_inv_path [OF path recv_inv_start])
  ultimately show "recv_inv cs R_end (c, p')" and "m_accessLock p' = None"
    and "m_r1 p' \<le> kMaxNumberOfRecvAttempts" and "m_result c \<Longrightarrow> m_r1 p' < kMaxNumberOfRecvAttempts"
    by (auto simp: I_def recv_counts_def recv_inv_def)
qed

lemma recv_path_throw:
  assumes "fsm_runner run" and "polls_succeed D" and "m_accessLock p = None"
  shows "run (recv_handlers cs D) recv_transitions R_idle R_end (RecvContext, p) \<noteq> Throw x"
proof
  assume "run (recv_handlers cs D) recv_transitions R_idle R_end (RecvContext, p) = Throw x"
  then obtain n q w where path: "fsm_path (recv_handlers cs D) recv_transitions R_end n
      (R_idle, (RecvContext, p)) (q, w)" and t: "recv_handlers cs D q w = Throw x"
    using fsm_runner.run_throws [OF assms(1), of _ _ _ R_end] by (metis recv_transitions_def option.distinct(1))
  have "recv_locked q w"
    using path
  proof (induction rule: fsm_path_invariant)
    case init
    then show ?case using assms(3) by (simp add: recv_locked_def)
  next
    case (step q w e w' q')
    then show ?case using recv_locked_step [of q w D cs e w'] assms(2)
      by (simp add: recv_transitions_def split: if_splits)
  qed
  then show False using recv_no_fault [OF recv_inv_path [OF path recv_inv_start]] t by blast
qed

text \<open>The frames of a finished reception, with the header length its type asks for.\<close>

lemma recv_inv_end:
  assumes "recv_inv cs R_end (c, p)" and "m_result c"
  obtains fs f where "m_frames c = fs @ [f]" "m_currentFrame c = length fs"
    "\<forall>g\<in>set fs. sealed_frame cs 12 g" "sealed_frame cs (header_length (m_transmitionType c)) f"
    "m_transmitionType c \<noteq> NotDefinedYet"
    "m_transmitionType c = ExtendedLengthWithFrameDivision \<Longrightarrow> 0 < m_totalFrames c"
proof -
  obtain fs f where f: "m_frames c = fs @ [f]" "m_currentFrame c = length fs"
    "\<forall>g\<in>set fs. sealed_frame cs 12 g" and n: "m_frameNumber c < 65536"
    and sh: "recv_shape cs R_done (m_transmitionType c) f"
    and d: "m_transmitionType c = ExtendedLengthWithFrameDivision \<Longrightarrow> m_frameNumber c = m_totalFrames c - 1"
    using assms by (auto elim!: recv_invE)
  have "m_totalFrames c \<noteq> 0" if "m_transmitionType c = ExtendedLengthWithFrameDivision"
    using d [OF that] n by auto
  then show thesis
    using that [OF f] sh by (auto simp: word_neq_0_conv)
qed

lemma receive_returns:
  assumes "run (recv_handlers cs D) recv_transitions R_idle R_end (RecvContext, p) = Ret (c, p')"
    and "m_result c"
    and "extract_message (m_transmitionType c) (m_frames c) (m_currentFrame c) (m_totalFrames c) = Ret data"
  shows "\<exists>p'. protocol_receive run cs D p = Ret (Some data, p')"
  using assms by (simp add: protocol_receive_def)

lemma new_context:
  "m_frames RecvContext = [] @ [[]]" "m_currentFrame RecvContext = length []" "m_transmitionType RecvContext = NotDefinedYet"
  by (simp_all add: RecvContext_def)

lemma begins_listening:
  assumes "fsm_runner run"
  shows "run (recv_handlers cs paced_line) recv_transitions R_idle R_end (RecvContext, listening fs) =
    run (recv_handlers cs paced_line) recv_transitions R_enquiry R_end
      (RecvContext, (listening fs)\<lparr>m_r1 := 0, m_accessLock := Some Receiving\<rparr>)"
  by (rule recv_begin [OF assms]) (simp add: listening_def)

lemma receive_regular:
  assumes run: "fsm_runner run" and len: "3 \<le> length data" "length data \<le> 251"
  shows "\<exists>p'. protocol_receive run cs paced_line (listening [regular_frame cs data]) = Ret (Some data, p')"
proof -
  let ?p = "(listening [regular_frame cs data])\<lparr>m_r1 := 0, m_accessLock := Some Receiving\<rparr>"
  note c = new_context(1,2)
  have "run (recv_handlers cs paced_line) recv_transitions R_enquiry R_end
      (RecvContext, ?p\<lparr>m_device := ([ENQ], regular_frame cs data # [])\<rparr>) =
    run (recv_handlers cs paced_line) recv_transitions R_done R_end
      (RecvContext\<lparr>m_transmitionType := Regular, m_dataLength := word_of_nat (length data),
         m_frames := [] @ [regular_frame cs data]\<rparr>, ?p\<lparr>m_device := (concat (take 1 []), drop 1 [])\<rparr>)"
    by (rule recv_regular_frame [OF run len c])
  moreover have "?p\<lparr>m_device := ([ENQ], regular_frame cs data # [])\<rparr> = ?p"
    by (simp add: listening_def paced_start_def)
  ultimately have r: "run (recv_handlers cs paced_line) recv_transitions R_idle R_end
      (RecvContext, listening ([regular_frame cs data])) =
    Ret (RecvContext\<lparr>m_transmitionType := Regular, m_dataLength := word_of_nat (length data),
       m_frames := [regular_frame cs data], m_result := True\<rparr>,
       ?p\<lparr>m_device := ([], []), m_accessLock := None\<rparr>)"
    by (simp add: begins_listening [OF run] recv_finish [OF run] c)
  show ?thesis by (rule receive_returns [where run = run, OF r])
    (use extract_regular [of cs data] in \<open>simp_all add: message_of_frames_def
        RecvContext_def extract_message_def\<close>)
qed

section \<open>Properties\<close>

text \<open>A divided message arrives with the division flag of its first frame.\<close>

definition as_delivered :: "byte list \<Rightarrow> byte list" where
  "as_delivered data = (if length data \<le> 1027 then data else data[2 := data ! 2 OR 0x02])"

lemma receive_extended:
  assumes run: "fsm_runner run" and len: "251 < length data" "length data \<le> 1027"
  shows "\<exists>p'. protocol_receive run cs paced_line (listening (prepareFrames cs data)) = Ret (Some data, p')"
proof -
  have "3 \<le> length data" using len(1) by simp
  then obtain a s cb P where d: "data = a # s # cb # P"
    by (metis Suc_le_length_iff numeral_3_eq_3)
  let ?p = "(listening (prepareFrames cs data))\<lparr>m_r1 := 0, m_accessLock := Some Receiving\<rparr>"
    and ?f = "long_frame cs [a, s, cb] (length P + 8) P"
  note c = new_context
  have f: "extended_frame cs data = ?f"
    by (simp add: extended_frame_def long_frame_def d Let_def add.commute)
  then have pf: "prepareFrames cs data = [?f]" using len by (simp add: prepareFrames_def)
  have "run (recv_handlers cs paced_line) recv_transitions R_enquiry R_end
      (RecvContext, ?p\<lparr>m_device := ([ENQ], ?f # [])\<rparr>) =
    run (recv_handlers cs paced_line) recv_transitions R_done R_end
      (RecvContext\<lparr>m_dataLength := word_of_nat (length P + 8) - 2, m_transmitionType := ExtendedLength,
         m_frames := [] @ [?f]\<rparr>, ?p\<lparr>m_device := (concat (take 1 []), drop 1 [])\<rparr>)"
    by (rule recv_extended_frame [OF run _ _ _ c(1,2)]) (use len d c in simp_all)
  moreover have "?p\<lparr>m_device := ([ENQ], ?f # [])\<rparr> = ?p"
    by (simp add: pf listening_def paced_start_def)
  ultimately have r: "run (recv_handlers cs paced_line) recv_transitions R_idle R_end
      (RecvContext, listening (prepareFrames cs data)) =
    Ret (RecvContext\<lparr>m_dataLength := word_of_nat (length P + 8) - 2,
       m_transmitionType := ExtendedLength, m_frames := [?f], m_result := True\<rparr>,
       ?p\<lparr>m_device := ([], []), m_accessLock := None\<rparr>)"
    by (simp add: begins_listening [OF run] recv_finish [OF run] c)
  show ?thesis by (rule receive_returns [where run = run, OF r])
    (use extract_extended [of data cs] len f in \<open>simp_all add: message_of_frames_def
        RecvContext_def extract_message_def\<close>)
qed

lemma receive_divided:
  assumes run: "fsm_runner run" and len: "1030 < length data" "length data \<le> 3 + 1024 * 65535"
  shows "\<exists>p'. protocol_receive run cs paced_line (listening (prepareFrames cs data)) =
    Ret (Some (data[2 := data ! 2 OR 0x02]), p')"
proof -
  have "3 \<le> length data" using len(1) by simp
  then obtain a s cb P where d: "data = a # s # cb # P"
    by (metis Suc_le_length_iff numeral_3_eq_3)
  let ?p = "(listening (prepareFrames cs data))\<lparr>m_r1 := 0, m_accessLock := Some Receiving\<rparr>"
    and ?n = "(length P + 1023) div 1024"
  have P: "1024 < length P" "length P < 2 ^ 32 - 3" "?n < 65536" using len d by auto
  have pf: "prepareFrames cs data = map (nth_division_frame cs ?n a s cb P) [0..<?n]"
    using len divided_frames_eq [OF d P(1,2)] by (simp add: prepareFrames_def)
  have dev: "?p\<lparr>m_device := paced_start (map (nth_division_frame cs ?n a s cb P) [0..<?n])\<rparr> = ?p"
    by (simp add: pf listening_def)
  obtain c' p' where r: "run (recv_handlers cs paced_line) recv_transitions R_enquiry R_end (RecvContext, ?p) = Ret (c', p')"
    and c': "m_result c'" "m_frames c' = map (nth_division_frame cs ?n a s cb P) [0..<?n]" "m_currentFrame c' = ?n - 1"
      "m_totalFrames c' = word_of_nat ?n" "m_transmitionType c' = ExtendedLengthWithFrameDivision"
    using recv_division_frames [OF run refl P(1,3), of ?p cs a s cb] dev by auto
  have "extract_message ExtendedLengthWithFrameDivision (m_frames c') (m_currentFrame c') (m_totalFrames c')
      = Ret (a # s # (cb OR 0x02) # P)"
    using extract_divided [OF d P(1,2), of cs] c' divided_frames_eq [OF d P(1,2), of cs]
    by (simp add: message_of_frames_def)
  then show ?thesis
    by (intro receive_returns [where run = run, OF r [folded begins_listening [OF run]] c'(1)]) (simp add: c'(5) d)
qed

lemma receive_frames:
  assumes run: "fsm_runner run" and len: "3 \<le> length data" "length data \<notin> {1028, 1029, 1030}"
    "length data \<le> 3 + 1024 * 65535"
  shows "\<exists>p'. protocol_receive run cs paced_line (listening (prepareFrames cs data)) =
    Ret (Some (as_delivered data), p')"
proof -
  consider "length data \<le> 251" | "251 < length data" "length data \<le> 1027" | "1030 < length data"
    using len(2) by fastforce
  then show ?thesis
  proof cases
    case 1
    then have "prepareFrames cs data = [regular_frame cs data]" by (simp add: prepareFrames_def)
    then show ?thesis using receive_regular [OF run len(1) 1] 1 by (simp add: as_delivered_def)
  next
    case 2
    then show ?thesis using receive_extended [OF run 2] by (simp add: as_delivered_def)
  next
    case 3
    then show ?thesis using receive_divided [OF run 3 len(3)] by (simp add: as_delivered_def)
  qed
qed
text \<open>
  C2: a message that \<^verbatim>\<open>prepareFrames\<close> puts on the line is returned by \<^verbatim>\<open>receive\<close>, with
  the division flag added to its codebit when it was divided. It holds for every checksum
  function, for all lengths up to 65535 full frames but three.
\<close>

theorem receive_prepared:
  assumes "fsm_runner run" and "3 \<le> length data" "length data \<notin> {1028, 1029, 1030}"
    "length data \<le> 3 + 1024 * 65535"
  shows "\<exists>p'. protocol_receive run cs paced_line (listening (prepareFrames cs data)) =
    Ret (Some (if length data \<le> 1027 then data else data[2 := data ! 2 OR 0x02]), p')"
  using receive_frames [OF assms] by (simp add: as_delivered_def)

lemma receive_prepared_witness:
  "\<exists>p'. protocol_receive fsm_run no_checksum paced_line
      (listening (prepareFrames no_checksum (0x8f # 0x01 # 0x04 # replicate 2000 7))) =
    Ret (Some (0x8f # 0x01 # 0x06 # replicate 2000 7), p')"
  using receive_prepared [OF ref.fsm_runner_axioms, of "0x8f # 0x01 # 0x04 # replicate 2000 7" no_checksum]
  by simp

lemma short_arrivals:
  assumes "length js < n" "1 < n" "n < 65536"
  shows "extract_message ExtendedLengthWithFrameDivision (map (nth_division_frame cs n a s cb P) js) m (word_of_nat n) =
    Throw Out_of_range"
proof -
  let ?frames = "map (nth_division_frame cs n a s cb P) js"
  have upt: "[0..<n] = 0 # [1..<n]" using assms(2) by (simp add: upt_first)
  have sealed: "\<forall>g\<in>set ?frames. sealed_frame cs 12 g"
    by (auto simp: nth_division_frame_def division_frame_def sealed_frame_def intro!: exI conjI)
  have "join_frames ?frames (word_of_nat n) [0..<n] [] \<noteq> Ret d" for d
    using join_frames_within [of ?frames "word_of_nat n" "[0..<n]" "[]" d] assms(1)
    by (auto dest!: bspec [of _ _ "length js"])
  then have "join_frames ?frames (word_of_nat n) [0..<n] [] = Throw Out_of_range"
    using join_frames_outcome [OF sealed, of "[]" "[0..<n]" "word_of_nat n"] upt by blast
  then show ?thesis using assms(3) by (simp add: extract_message_def)
qed

lemma long_arrivals:
  assumes "n \<le> length js" "1 < n" "n < 65536" "hd js < n - 1"
  shows "extract_message ExtendedLengthWithFrameDivision (map (nth_division_frame cs n a s cb P) js) m (word_of_nat n) =
    Ret (a # s # (cb OR 0x02) # concat (map (\<lambda>j. take 1024 (drop (1024 * j) P)) (take n js)))"
proof -
  let ?cb = "\<lambda>j. if Suc j = n then cb OR 0x03 else cb OR 0x02"
  let ?h = "\<lambda>j. [STX, EXT_LEN, a, s, ?cb j] @
    length_bytes (word_of_nat (min 1024 (length P - 1024 * j) + 12)) @
    number_bytes (word_of_nat j) @ number_bytes (word_of_nat n)"
  let ?ch = "\<lambda>j. take 1024 (drop (1024 * j) P)"
  let ?ft = "\<lambda>j. [ETX, cs (tl (?h j @ ?ch j @ [ETX]))]"
  let ?frames = "map (nth_division_frame cs n a s cb P) js"
  have "join_frames ?frames (word_of_nat n) [0..<n] [] =
      Ret (take 5 (?h (js ! 0)) @ concat (map (\<lambda>i. ?ch (js ! i)) [0..<n]) @ ?ft (js ! (n - 1)))"
    by (rule join_frames_all) (use assms in \<open>simp_all add: nth_division_frame_def division_frame_def seal_append\<close>)
  moreover have "map (\<lambda>i. ?ch (js ! i)) [0..<n] = map ?ch (take n js)"
    using assms(1) by (intro nth_equalityI) simp_all
  moreover have "js ! 0 = hd js" "Suc (hd js) \<noteq> n" using assms by (auto intro: hd_conv_nth [symmetric])
  ultimately show ?thesis using assms(3) by (simp add: extract_message_def)
qed




text \<open>
  A receiver that meets a message in its last frame: the frame says that nothing follows, and the
  earlier frames are missing.
\<close>

lemma receive_last_frame:
  assumes run: "fsm_runner run" and h: "length h = 3" and n: "n = length P + 12" "1032 < n" "n < 2 ^ 24"
    and nb: "length nb = 4" and num: "ucast (decode_number (nb ! 0) (nb ! 1)) = (ucast (decode_number (nb ! 2) (nb ! 3)) - 1 :: u32)"
    and tf: "1 < (ucast (decode_number (nb ! 2) (nb ! 3)) :: u32)"
  shows "protocol_receive run cs paced_line (listening [long_frame cs h n (nb @ P)]) = Throw Out_of_range"
proof -
  let ?f = "long_frame cs h n (nb @ P)" and ?tf = "ucast (decode_number (nb ! 2) (nb ! 3)) :: u32"
  let ?p = "(listening [?f])\<lparr>m_r1 := 0, m_accessLock := Some Receiving\<rparr>"
  let ?c = "RecvContext\<lparr>m_dataLength := word_of_nat n - 2, m_transmitionType := ExtendedLengthWithFrameDivision,
         m_totalFrames := ?tf, m_frameNumber := ucast (decode_number (nb ! 0) (nb ! 1)), m_frames := [?f]\<rparr>"
  note c = new_context
  have "run (recv_handlers cs paced_line) recv_transitions R_idle R_end (RecvContext, listening [?f]) =
      run (recv_handlers cs paced_line) recv_transitions R_enquiry R_end (RecvContext, ?p)"
    by (rule begins_listening [OF run])
  also have "?p = ?p\<lparr>m_device := ([ENQ], ?f # [])\<rparr>" by (simp add: listening_def paced_start_def)
  also have "run (recv_handlers cs paced_line) recv_transitions R_enquiry R_end (RecvContext, ?p\<lparr>m_device := ([ENQ], ?f # [])\<rparr>) =
      run (recv_handlers cs paced_line) recv_transitions R_done R_end (?c, ?p\<lparr>m_device := ([], [])\<rparr>)"
    using recv_division_frame [OF run h n(1,3) nb c(1,2), where p = ?p and cs = cs and rest = "[]"] n(2) c(3)
    by simp
  also have "\<dots> = Ret (?c\<lparr>m_result := True\<rparr>, ?p\<lparr>m_device := ([], []), m_accessLock := None\<rparr>)"
    using num by (simp add: recv_finish [OF run])
  finally have r: "run (recv_handlers cs paced_line) recv_transitions R_idle R_end (RecvContext, listening [?f]) =
      Ret (?c\<lparr>m_result := True\<rparr>, ?p\<lparr>m_device := ([], []), m_accessLock := None\<rparr>)" .
  have "1 < unat ?tf" using tf by (simp add: word_less_nat_alt)
  then have "[0..<unat ?tf] = 0 # 1 # [2..<unat ?tf]" by (simp add: upt_conv_Cons numeral_2_eq_2)
  moreover have "14 \<le> length ?f" using nb h n by (simp add: long_frame_def seal_def)
  moreover from this have "Suc (Suc 0) \<le> length ?f - 7" "length ?f - 9 \<le> length ?f - 7" by auto
  ultimately have "join_frames [?f] ?tf [0..<unat ?tf] [] = Throw Out_of_range"
    by (simp add: vec_erase_def vec_at_def)
  then show ?thesis using r by (simp add: protocol_receive_def extract_message_def)
qed

lemma receive_only:
  assumes "fsm_runner run" and "polls_succeed D" and "m_accessLock p = None"
    and "protocol_receive run cs D p = Throw x"
  shows "x = Out_of_range"
proof -
  obtain c p' where c: "run (recv_handlers cs D) recv_transitions R_idle R_end (RecvContext, p) = Ret (c, p')"
    and res: "m_result c"
    and x: "extract_message (m_transmitionType c) (m_frames c) (m_currentFrame c) (m_totalFrames c) = Throw x"
    using assms(4) recv_path_throw [OF assms(1-3), of cs]
    by (auto simp: protocol_receive_def outcome_eqs split: if_splits)
  show ?thesis
  proof (rule recv_inv_end [OF recv_path_result(1) [OF assms(1) c assms(2,3)] res])
    fix fs f
    assume f: "m_frames c = fs @ [f]" "m_currentFrame c = length fs" "\<forall>g\<in>set fs. sealed_frame cs 12 g"
      "sealed_frame cs (header_length (m_transmitionType c)) f" "m_transmitionType c \<noteq> NotDefinedYet"
      "m_transmitionType c = ExtendedLengthWithFrameDivision \<Longrightarrow> 0 < m_totalFrames c"
    show ?thesis using extract_outcome [OF f(3,4,6,5)] x f(1,2) by auto
  qed
qed



text \<open>
  When the poll fails the machine runs through \<open>error\<close> to \<open>end\<close>, which unlocks a mutex
  that was never locked: undefined behaviour.
\<close>

lemma receive_poll_failure:
  assumes "fsm_runner run" and "m_accessLock p = None" and "fst (dev_poll D (m_device p) Infinite) \<noteq> IO_Success"
  shows "protocol_receive run cs D p = Throw Mutex_misuse"
proof -
  let ?h = "recv_handlers cs D" and ?t = recv_transitions
  have "run ?h ?t R_end R_end w = Throw Mutex_misuse" if "m_accessLock (snd w) = None" for w
    using that by (intro fsm_runner.run_throw [OF assms(1)]) (simp add: recvEnd_def mutex_unlock_def case_prod_beta)
  then have "run ?h ?t R_idle R_end (RecvContext, p) = Throw Mutex_misuse"
    using assms(2,3)
    by (simp add: recv_run_unfold [OF assms(1), of R_idle] recv_run_unfold [OF assms(1), of R_poll]
      recv_run_unfold [OF assms(1), of R_error] recvIdle_def recvPoll_def recvError_def case_prod_beta)
  then show ?thesis by (simp add: protocol_receive_def)
qed

section \<open>Frames the receiver misreads\<close>

lemma concat_take_wire: "(concat (take 1 (wire fs)), drop 1 (wire fs)) = paced_start fs"
  by (simp add: paced_start_def)

lemma oversized_frame:
  assumes "length lost \<in> {1028, 1029, 1030}"
  shows "prepareFrames cs lost =
    [long_frame cs (take 3 lost) (length (drop 7 lost) + 12) (take 4 (drop 3 lost) @ drop 7 lost)]"
proof -
  have body: "take 4 (drop 3 lost) @ drop 7 lost = drop 3 lost"
    using append_take_drop_id [of 4 "drop 3 lost"] by simp
  have "3 \<le> length lost" using assms by auto
  then have h: "take 3 lost = [lost ! 0, lost ! 1, lost ! 2]"
    by (auto simp: Suc_le_length_iff numeral_3_eq_3 numeral_2_eq_2)
  have n: "length (drop 7 lost) + 12 = length lost + 5" using assms by auto
  have "prepareFrames cs lost = [extended_frame cs lost]" using assms by (auto simp: prepareFrames_def)
  then show ?thesis
    unfolding n by (simp add: extended_frame_def long_frame_def body h Let_def ac_simps)
qed



text \<open>
  A receiver that comes up between the frames of a divided message, and so meets its last
  frame only, throws \<^verbatim>\<open>std::out_of_range\<close> when that frame is full.
\<close>

lemma receive_resumed_message:
  assumes "fsm_runner run" and len: "length data = 3 + 1024 * n" "2 \<le> n" "n < 65536"
  shows "protocol_receive run cs paced_line (listening [last (prepareFrames cs data)]) = Throw Out_of_range"
proof -
  obtain a s cb P where d: "data = a # s # cb # P"
    using len(1) by (metis Suc_le_length_iff numeral_3_eq_3 le_add1)
  have P: "length P = 1024 * n" using d len by simp
  have n: "(length P + 1023) div 1024 = n" unfolding P by (rule div_nat_eqI) auto
  have "prepareFrames cs data = map (nth_division_frame cs n a s cb P) [0..<n]"
    using divided_frames_eq [OF d, of cs] len P n by (simp add: prepareFrames_def)
  then have "last (prepareFrames cs data) = nth_division_frame cs n a s cb P (n - 1)"
    using len(2) by (simp add: last_conv_nth)
  also have "\<dots> = long_frame cs [a, s, cb OR 0x03] 1036
      ((number_bytes (word_of_nat (n - 1)) @ number_bytes (word_of_nat n)) @ take 1024 (drop (1024 * (n - 1)) P))"
  proof -
    have "min 1024 (length P - 1024 * (n - 1)) = 1024" "Suc (n - 1) = n"
      using P len(2) by (auto simp: algebra_simps)
    then show ?thesis unfolding nth_division_frame_def by (subst division_as_long [of _ 1036]) simp_all
  qed
  moreover have "length P - 1024 * (n - 1) = 1024" using P len(2) by (simp add: algebra_simps)
  moreover have "n - 1 < 65536" using len by simp
  ultimately show ?thesis
    by (simp only:) (rule receive_last_frame [OF assms(1)];
      use decode_numbers [OF \<open>n - 1 < 65536\<close> len(3)] len in \<open>simp_all add: word_less_nat_alt of_nat_diff\<close>)
qed

end
