(* ===== verification/Cpu.thy ===== *)
theory Cpu
  imports RecvProperties Daemon
begin

text \<open>
  The CPU layer (\<^verbatim>\<open>CpuComDaemon/src/vcpu\<close>): the packing of a command into a message and the
  address bits of the codebit (\<^verbatim>\<open>CPUCommon.cpp\<close>), the classes \<^verbatim>\<open>CPU\<close>, which sends and
  receives on one protocol object, and \<^verbatim>\<open>MultipleCPU\<close>, which has one for each direction.
  Both meet the contract \<open>icpu\<close>.
\<close>

section \<open>CPUCommon\<close>

definition pack :: "CpuCommand \<Rightarrow> byte \<Rightarrow> byte list \<Rightarrow> byte list" where
  "pack cpuCommand codeBit data = [fst cpuCommand] @ [snd cpuCommand] @ [codeBit] @ data"

text \<open>The iterators run past a message of fewer than three bytes.\<close>

definition unpack :: "byte list \<Rightarrow> (CpuCommand \<times> byte \<times> byte list) outcome" where
  "unpack data =
     (if 3 \<le> length data then Ret ((data ! 0, data ! 1), data ! 2, drop 3 data)
      else Throw Undefined_behaviour)"

definition kAddressVCPU :: byte where "kAddressVCPU = 0x01"
definition kAddressMCPU :: byte where "kAddressMCPU = 0x02"

definition getSendCodebit :: "byte \<Rightarrow> byte" where
  "getSendCodebit address =
     (let receiverAddress = address;
          senderAddress = (if address = kAddressVCPU then kAddressMCPU else kAddressVCPU)
      in push_bit 5 senderAddress + push_bit 2 receiverAddress + 0x00)"

definition getReceiveCodebit :: "byte \<Rightarrow> byte" where
  "getReceiveCodebit address =
     (let senderAddress = address;
          receiverAddress = (if address = kAddressVCPU then kAddressMCPU else kAddressVCPU)
      in push_bit 5 senderAddress + push_bit 2 receiverAddress + 0x00)"

section \<open>CPU\<close>

record 'd CPU =
  m_protocol :: "'d Protocol"
  m_sendCodebit :: byte
  m_receiveCodebit :: byte

definition CPU_new :: "'d Protocol \<Rightarrow> byte \<Rightarrow> 'd CPU" where
  "CPU_new protocol address =
     \<lparr>m_protocol = protocol, m_sendCodebit = getSendCodebit address,
      m_receiveCodebit = getReceiveCodebit address\<rparr>"

definition CPU_initialize :: "'d CPU \<Rightarrow> bool \<times> 'd CPU" where
  "CPU_initialize cpu = (True, cpu)"

text \<open>The message is dropped when its codebit is not exactly the expected one.\<close>

definition accept_message :: "byte \<Rightarrow> byte list option \<Rightarrow> (CpuCommand \<times> byte list) option outcome" where
  "accept_message codebit received =
     (case received of
        None \<Rightarrow> Ret None
      | Some data \<Rightarrow> omap (\<lambda>(command, cb, bytes). if cb = codebit then Some (command, bytes) else None)
                       (unpack data))"

definition CPU_read ::
    "'d recv_runner \<Rightarrow> (byte list \<Rightarrow> byte) \<Rightarrow> 'd IODevice \<Rightarrow> 'd CPU \<Rightarrow>
     ((CpuCommand \<times> byte list) option \<times> 'd CPU) outcome" where
  "CPU_read run cs D cpu =
     obind (protocol_receive run cs D (m_protocol cpu)) (\<lambda>(received, p).
       omap (\<lambda>v. (v, cpu\<lparr>m_protocol := p\<rparr>)) (accept_message (m_receiveCodebit cpu) received))"

definition CPU_write ::
    "'d send_runner \<Rightarrow> (byte list \<Rightarrow> byte) \<Rightarrow> 'd IODevice \<Rightarrow> 'd CPU \<Rightarrow> CpuCommand \<Rightarrow> byte list \<Rightarrow>
     (bool \<times> 'd CPU) outcome" where
  "CPU_write run cs D cpu command data =
     omap (\<lambda>(r, p). (r, cpu\<lparr>m_protocol := p\<rparr>))
       (protocol_send run cs D (m_protocol cpu) (pack command (m_sendCodebit cpu) data))"

definition CPU_ops ::
    "'d send_runner \<Rightarrow> 'd recv_runner \<Rightarrow> (byte list \<Rightarrow> byte) \<Rightarrow> 'd IODevice \<Rightarrow> 'd CPU ICPU" where
  "CPU_ops runS runR cs D =
     \<lparr>cpu_initialize = CPU_initialize, cpu_read = CPU_read runR cs D, cpu_write = CPU_write runS cs D\<rparr>"

section \<open>MultipleCPU\<close>

record 'd MultipleCPU =
  mProtocolReceive :: "'d Protocol"
  mProtocolTransmit :: "'d Protocol"
  mc_sendCodebit :: byte
  mc_receiveCodebit :: byte

definition MultipleCPU_new :: "'d Protocol \<Rightarrow> 'd Protocol \<Rightarrow> byte \<Rightarrow> 'd MultipleCPU" where
  "MultipleCPU_new receive transmit address =
     \<lparr>mProtocolReceive = receive, mProtocolTransmit = transmit,
      mc_sendCodebit = getSendCodebit address, mc_receiveCodebit = getReceiveCodebit address\<rparr>"

definition MultipleCPU_initialize :: "'d MultipleCPU \<Rightarrow> bool \<times> 'd MultipleCPU" where
  "MultipleCPU_initialize cpu = (True, cpu)"

definition MultipleCPU_read ::
    "'d recv_runner \<Rightarrow> (byte list \<Rightarrow> byte) \<Rightarrow> 'd IODevice \<Rightarrow> 'd MultipleCPU \<Rightarrow>
     ((CpuCommand \<times> byte list) option \<times> 'd MultipleCPU) outcome" where
  "MultipleCPU_read run cs D cpu =
     obind (protocol_receive run cs D (mProtocolReceive cpu)) (\<lambda>(received, p).
       omap (\<lambda>v. (v, cpu\<lparr>mProtocolReceive := p\<rparr>)) (accept_message (mc_receiveCodebit cpu) received))"

definition MultipleCPU_write ::
    "'d send_runner \<Rightarrow> (byte list \<Rightarrow> byte) \<Rightarrow> 'd IODevice \<Rightarrow> 'd MultipleCPU \<Rightarrow> CpuCommand \<Rightarrow>
     byte list \<Rightarrow> (bool \<times> 'd MultipleCPU) outcome" where
  "MultipleCPU_write run cs D cpu command data =
     omap (\<lambda>(r, p). (r, cpu\<lparr>mProtocolTransmit := p\<rparr>))
       (protocol_send run cs D (mProtocolTransmit cpu) (pack command (mc_sendCodebit cpu) data))"

definition MultipleCPU_ops ::
    "'d send_runner \<Rightarrow> 'd recv_runner \<Rightarrow> (byte list \<Rightarrow> byte) \<Rightarrow> 'd IODevice \<Rightarrow> 'd MultipleCPU ICPU" where
  "MultipleCPU_ops runS runR cs D =
     \<lparr>cpu_initialize = MultipleCPU_initialize, cpu_read = MultipleCPU_read runR cs D,
      cpu_write = MultipleCPU_write runS cs D\<rparr>"

section \<open>The contract\<close>

lemma unpack_pack: "unpack (pack cmd cb data) = Ret (cmd, cb, data)"
  by (simp add: unpack_def pack_def)

lemma length_pack [simp]: "length (pack cmd cb data) = length data + 3"
  by (simp add: pack_def)

lemma accept_message_throws: "accept_message cb r = Throw x \<Longrightarrow> x = Undefined_behaviour"
  by (auto simp: accept_message_def unpack_def split: option.splits if_splits)

lemma receive_ready:
  assumes "fsm_runner run" and "polls_succeed D" and "m_accessLock p = None"
    and "protocol_receive run cs D p = Ret (r, p')"
  shows "m_accessLock p' = None"
proof -
  obtain c where "run (recv_handlers cs D) recv_transitions R_idle R_end (RecvContext, p) = Ret (c, p')"
    using assms(4) by (auto simp: protocol_receive_def outcome_eqs split: if_splits)
  then show "m_accessLock p' = None" by (rule recv_path_result(2) [OF assms(1) _ assms(2,3)])
qed

lemma send_ready:
  assumes "fsm_runner run" and "protocol_send run cs D p data = Ret (r, p')"
  shows "m_accessLock p' = None"
  by (rule protocol_send_Ret [OF assms]) simp

definition line_ready :: "'d send_runner \<Rightarrow> 'd recv_runner \<Rightarrow> 'd IODevice \<Rightarrow> bool" where
  "line_ready runS runR D \<longleftrightarrow> fsm_runner runS \<and> fsm_runner runR \<and> polls_succeed D"

lemma line_receive:
  assumes "line_ready runS runR D" and "m_accessLock p = None"
    and "obind (protocol_receive runR cs D p) (\<lambda>(received, p). omap (\<lambda>v. (v, f p)) (accept_message cb received)) = s"
  shows "s = Ret (v, c) \<Longrightarrow> \<exists>p'. c = f p' \<and> m_accessLock p' = None"
    and "s = Throw x \<Longrightarrow> x = Out_of_range \<or> x = Undefined_behaviour"
proof -
  have r: "fsm_runner runR" and p: "polls_succeed D" using assms(1) by (simp_all add: line_ready_def)
  show "\<exists>p'. c = f p' \<and> m_accessLock p' = None" if s: "s = Ret (v, c)"
  proof -
    obtain r' p' where rp: "protocol_receive runR cs D p = Ret (r', p')" "c = f p'"
      using assms(3) s by (auto simp: outcome_eqs)
    then show ?thesis using receive_ready [OF r p assms(2) rp(1)] by auto
  qed
  show "x = Out_of_range \<or> x = Undefined_behaviour" if s: "s = Throw x"
  proof (cases "protocol_receive runR cs D p = Throw x")
    case True
    then show ?thesis using receive_only [OF r p assms(2)] by auto
  next
    case False
    then show ?thesis using assms(3) s by (auto simp: outcome_eqs dest: accept_message_throws)
  qed
qed

lemma line_send:
  assumes "line_ready runS runR D" and "m_accessLock p = None"
    and "omap (\<lambda>(r, p). (r, f p)) (protocol_send runS cs D p (pack command cb data)) = s"
  shows "s = Ret (v, c) \<Longrightarrow> \<exists>p'. c = f p' \<and> m_accessLock p' = None"
    and "length data < 2 ^ 32 - 3 \<Longrightarrow> s \<noteq> Throw x"
proof -
  have r: "fsm_runner runS" using assms(1) by (simp add: line_ready_def)
  show "\<exists>p'. c = f p' \<and> m_accessLock p' = None" if s: "s = Ret (v, c)"
  proof -
    obtain r' p' where rp: "protocol_send runS cs D p (pack command cb data) = Ret (r', p')" "c = f p'"
      using assms(3) s by (auto simp: outcome_eqs)
    then show ?thesis using send_ready [OF r rp(1)] by auto
  qed
  assume "length data < 2 ^ 32 - 3"
  then have "protocol_send runS cs D p (pack command cb data) \<noteq> Throw x"
    by (intro send_no_throw [OF r assms(2)]) simp_all
  then show "s \<noteq> Throw x" using assms(3) by (auto simp: outcome_eqs)
qed

interpretation cpu: icpu "CPU_ops runS runR cs D"
  "\<lambda>cpu. line_ready runS runR D \<and> m_accessLock (m_protocol cpu) = None"
proof unfold_locales
  fix c :: "'a CPU"
  assume "line_ready runS runR D \<and> m_accessLock (m_protocol c) = None"
  then have line: "line_ready runS runR D" and lock: "m_accessLock (m_protocol c) = None"
    by simp_all
  show "line_ready runS runR D \<and> m_accessLock (m_protocol (snd (cpu_initialize (CPU_ops runS runR cs D) c))) = None"
    using line lock by (simp add: CPU_ops_def CPU_initialize_def)
  note rd = line_receive [OF line lock refl, of cs "\<lambda>p. c\<lparr>m_protocol := p\<rparr>" "m_receiveCodebit c"]
  show "cpu_read (CPU_ops runS runR cs D) c = Ret (v, c') \<Longrightarrow>
      line_ready runS runR D \<and> m_accessLock (m_protocol c') = None" for v c'
    using rd(1) line lock by (fastforce simp: CPU_ops_def CPU_read_def)
  show "cpu_read (CPU_ops runS runR cs D) c = Throw x \<Longrightarrow> x = Out_of_range \<or> x = Undefined_behaviour" for x
    using rd(2) by (simp add: CPU_ops_def CPU_read_def)
  fix data :: "byte list"
  note wr = line_send [OF line lock refl, where f = "\<lambda>p. c\<lparr>m_protocol := p\<rparr>" and cs = cs and data = data and cb = "m_sendCodebit c"]
  show "cpu_write (CPU_ops runS runR cs D) c cmd data = Ret (r, c') \<Longrightarrow>
      line_ready runS runR D \<and> m_accessLock (m_protocol c') = None" for cmd r c'
    using wr(1) [where command = cmd] line lock by (fastforce simp: CPU_ops_def CPU_write_def)
  show "length data < 2 ^ 32 - 3 \<Longrightarrow> cpu_write (CPU_ops runS runR cs D) c cmd data \<noteq> Throw x" for cmd x
    using wr(2) [where command = cmd] by (simp add: CPU_ops_def CPU_write_def)
qed

interpretation multiple: icpu "MultipleCPU_ops runS runR cs D"
  "\<lambda>cpu. line_ready runS runR D \<and> m_accessLock (mProtocolReceive cpu) = None \<and>
     m_accessLock (mProtocolTransmit cpu) = None"
proof unfold_locales
  fix c :: "'a MultipleCPU"
  assume "line_ready runS runR D \<and> m_accessLock (mProtocolReceive c) = None \<and>
     m_accessLock (mProtocolTransmit c) = None"
  then have line: "line_ready runS runR D" and lock: "m_accessLock (mProtocolReceive c) = None" "m_accessLock (mProtocolTransmit c) = None"
    by simp_all
  show "line_ready runS runR D \<and> m_accessLock (mProtocolReceive (snd (cpu_initialize (MultipleCPU_ops runS runR cs D) c))) = None \<and>
     m_accessLock (mProtocolTransmit (snd (cpu_initialize (MultipleCPU_ops runS runR cs D) c))) = None"
    using line lock by (simp add: MultipleCPU_ops_def MultipleCPU_initialize_def)
  note rd = line_receive [OF line lock(1) refl, of cs "\<lambda>p. c\<lparr>mProtocolReceive := p\<rparr>" "mc_receiveCodebit c"]
  show "cpu_read (MultipleCPU_ops runS runR cs D) c = Ret (v, c') \<Longrightarrow>
      line_ready runS runR D \<and> m_accessLock (mProtocolReceive c') = None \<and>
     m_accessLock (mProtocolTransmit c') = None" for v c'
    using rd(1) line lock by (fastforce simp: MultipleCPU_ops_def MultipleCPU_read_def)
  show "cpu_read (MultipleCPU_ops runS runR cs D) c = Throw x \<Longrightarrow> x = Out_of_range \<or> x = Undefined_behaviour" for x
    using rd(2) by (simp add: MultipleCPU_ops_def MultipleCPU_read_def)
  fix data :: "byte list"
  note wr = line_send [OF line lock(2) refl, where f = "\<lambda>p. c\<lparr>mProtocolTransmit := p\<rparr>" and cs = cs and data = data and cb = "mc_sendCodebit c"]
  show "cpu_write (MultipleCPU_ops runS runR cs D) c cmd data = Ret (r, c') \<Longrightarrow>
      line_ready runS runR D \<and> m_accessLock (mProtocolReceive c') = None \<and>
     m_accessLock (mProtocolTransmit c') = None" for cmd r c'
    using wr(1) [where command = cmd] line lock by (fastforce simp: MultipleCPU_ops_def MultipleCPU_write_def)
  show "length data < 2 ^ 32 - 3 \<Longrightarrow> cpu_write (MultipleCPU_ops runS runR cs D) c cmd data \<noteq> Throw x" for cmd x
    using wr(2) [where command = cmd] by (simp add: MultipleCPU_ops_def MultipleCPU_write_def)
qed

section \<open>Properties\<close>

lemma CPU_read_frames:
  assumes "fsm_runner run" and "length data + 3 \<notin> {1028, 1029, 1030}" and "length data \<le> 1024 * 65535"
  shows "\<exists>cpu'. CPU_read run cs paced_line (CPU_new (listening (prepareFrames cs (pack command cb data))) address) =
    Ret (if (if length data \<le> 1024 then cb else cb OR 0x02) = getReceiveCodebit address
         then Some (command, data) else None, cpu')"
proof -
  let ?m = "pack command cb data"
  let ?b = "if length data \<le> 1024 then cb else cb OR 0x02"
  have "as_delivered ?m = pack command ?b data"
    by (simp add: as_delivered_def pack_def numeral_2_eq_2)
  moreover obtain p' where "protocol_receive run cs paced_line (listening (prepareFrames cs ?m)) = Ret (Some (as_delivered ?m), p')"
    using receive_frames [OF assms(1), of ?m cs] assms(2,3) by auto
  ultimately show ?thesis by (simp add: CPU_read_def CPU_new_def accept_message_def unpack_pack)
qed

text \<open>
  The codebit one CPU sends is the one the CPU of the other address expects, and no other; its
  two division flags are clear.
\<close>

lemma codebits_match:
  "getSendCodebit kAddressMCPU = getReceiveCodebit kAddressVCPU \<and>
   getSendCodebit kAddressVCPU = getReceiveCodebit kAddressMCPU \<and>
   getReceiveCodebit kAddressVCPU \<noteq> getReceiveCodebit kAddressMCPU \<and>
   getSendCodebit kAddressVCPU AND 0x03 = 0 \<and> getSendCodebit kAddressMCPU AND 0x03 = 0"
  by (simp add: getSendCodebit_def getReceiveCodebit_def kAddressVCPU_def kAddressMCPU_def)

text \<open>
  A command with up to 1024 bytes of data, packed for a CPU and put on the line, is what that
  CPU reads.
\<close>

lemma cpu_exchange:
  assumes "fsm_runner run" and "address \<in> {kAddressVCPU, kAddressMCPU}" and "length data \<le> 1024"
  shows "\<exists>cpu'. CPU_read run cs paced_line
      (CPU_new (listening (prepareFrames cs (pack command (getReceiveCodebit address) data))) address) =
    Ret (Some (command, data), cpu')"
  using CPU_read_frames [OF assms(1), of data cs command "getReceiveCodebit address" address] assms(3)
  by simp


end
