(* ===== verification/System.thy ===== *)
theory System
  imports Cpu DaemonProperties
begin

text \<open>
  The daemon on its CPU: properties that run through the message handlers, the CPU class and the
  protocol, with the laws of \<open>icpu\<close> taken from its interpretations on \<open>CPU_ops\<close> and
  \<open>MultipleCPU_ops\<close>.
\<close>

lemma cpu_write_log:
  assumes "fsm_runner runS" and "m_device (m_protocol cpu) = (dev, [])" and "m_accessLock (m_protocol cpu) = None"
    and "length data < 2 ^ 32 - 3"
    and "cpu_write (CPU_ops runS runR cs (logged D)) cpu command data = Ret (r, cpu')"
  shows "r \<longleftrightarrow> acked (snd (m_device (m_protocol cpu'))) = prepareFrames cs (pack command (m_sendCodebit cpu) data)"
proof -
  obtain p' where s: "protocol_send runS cs (logged D) (m_protocol cpu) (pack command (m_sendCodebit cpu) data) = Ret (r, p')"
    and cpu': "cpu' = cpu\<lparr>m_protocol := p'\<rparr>"
    using assms(5) by (auto simp: CPU_ops_def CPU_write_def omap_eq_Ret)
  have "length (pack command (m_sendCodebit cpu) data) < 2 ^ 32" using assms(4) by simp
  from send_outcome [OF assms(1-3) this s] show ?thesis
    by (auto simp: cpu' split: if_splits dest!: arg_cong [where f = length])
qed

section \<open>Properties\<close>

text \<open>
  C12: the delivery status a client is told is the truth of the line: it is true exactly when every
  frame of the packed command was acknowledged.
\<close>

theorem delivery_status_truthful:
  assumes "fsm_runner runS" and "m_device (m_protocol (m_vcpu d)) = (dev, [])"
    and "m_accessLock (m_protocol (m_vcpu d)) = None" and "length data < 2 ^ 32 - 3"
    and "handle_message (CPU_ops runS runR cs (logged D)) s (SendCommandWithDeliveryStatus u command data) d = Ret d'"
  shows "\<exists>r. m_messageServer d' = m_messageServer d @ [(s, DeliveryStatus u r)] \<and>
    (r \<longleftrightarrow> acked (snd (m_device (m_protocol (m_vcpu d')))) =
            prepareFrames cs (pack command (m_sendCodebit (m_vcpu d)) data))"
proof -
  have h: "onSendCommandWithDeliveryStatus (CPU_ops runS runR cs (logged D)) s u command data d = Ret d'"
    using assms(5) by simp
  show ?thesis
    by (rule onSendCommandWithDeliveryStatus_Ret [OF h]) (use cpu_write_log [OF assms(1-4)] in auto)
qed

lemma delivery_status_truthful_witness:
  "\<exists>d'. handle_message (CPU_ops fsm_run fsm_run no_checksum (logged (steady_peer IO_Success ACK))) (1 :: nat)
      (SendCommandWithDeliveryStatus (7 :: nat) (0x8f, 1) [4])
      (CpuComDaemon_new (CPU_new (fresh ((), [])) kAddressVCPU)) = Ret d' \<and>
    m_messageServer d' = [(1, DeliveryStatus 7 True)] \<and>
    acked (snd (m_device (m_protocol (m_vcpu d')))) = [[STX, 6, 0x8f, 1, 0x44, 4, ETX, 0]]"
proof -
  let ?d = "CpuComDaemon_new (CPU_new (fresh ((), [])) kAddressVCPU)"
  let ?h = "handle_message (CPU_ops fsm_run fsm_run no_checksum (logged (steady_peer IO_Success ACK))) (1 :: nat)
      (SendCommandWithDeliveryStatus (7 :: nat) (0x8f, 1) [4]) ?d"
  obtain d' where d': "?h = Ret d'" and m: "m_messageServer d' = [(1, DeliveryStatus 7 True)]"
    by (simp add: onSendCommandWithDeliveryStatus_def cpu_write_daemon_def CPU_ops_def CPU_write_def
        CpuComDaemon_new_def CPU_new_def pack_def send_run)
  have v: "m_vcpu ?d = CPU_new (fresh ((), [])) kAddressVCPU" "m_messageServer ?d = []"
    by (simp_all add: CpuComDaemon_new_def)
  have "prepareFrames no_checksum (pack (0x8f, 1) (m_sendCodebit (m_vcpu ?d)) [4]) = [[STX, 6, 0x8f, 1, 0x44, 4, ETX, 0]]"
    by (simp add: v CPU_new_def getSendCodebit_def kAddressVCPU_def kAddressMCPU_def pack_def prepareFrames_def
        regular_frame_def seal_def no_checksum_def)
  then show ?thesis
    using delivery_status_truthful [OF ref.fsm_runner_axioms _ _ _ d', of "()"] d' m v
    by (simp add: CPU_new_def)
qed

text \<open>
  A client that sends a command without asking for a status is told that the line is busy
  exactly when some frame of the command was not acknowledged; otherwise it is told nothing.
\<close>

lemma send_error_reported:
  assumes "fsm_runner runS" and "m_device (m_protocol (m_vcpu d)) = (dev, [])"
    and "m_accessLock (m_protocol (m_vcpu d)) = None" and "length data < 2 ^ 32 - 3"
    and "handle_message (CPU_ops runS runR cs (logged D)) s (SendCommand command data) d = Ret d'"
  shows "m_messageServer d' = m_messageServer d @
    (if acked (snd (m_device (m_protocol (m_vcpu d')))) =
        prepareFrames cs (pack command (m_sendCodebit (m_vcpu d)) data)
     then [] else [(s, SendCommandResult command ERR_BUSY)])"
proof -
  have h: "onSendCommand (CPU_ops runS runR cs (logged D)) s command data d = Ret d'"
    using assms(5) by simp
  show ?thesis by (rule onSendCommand_Ret [OF h]) (use cpu_write_log [OF assms(1-4)] in auto)
qed



text \<open>
  Whatever the clients send and whatever arrives, the daemon on one CPU leaves the mutex of
  the protocol free after every event.
\<close>

lemma daemon_keeps_line_ready:
  assumes "line_ready runS runR D" and "m_accessLock (m_protocol (m_vcpu d)) = None"
    and "daemon_run (CPU_ops runS runR cs D) es d = Ret d'"
  shows "m_accessLock (m_protocol (m_vcpu d')) = None"
  using cpu.run_ready [of runS runR D d cs es d'] assms by simp

text \<open>
  On the two protocol objects of \<^verbatim>\<open>MultipleCPU\<close> no message of a client makes the daemon
  throw: an exception can only come from the thread that reads the CPU, and then it is the missing
  frame of a divided message or a message too short to unpack.
\<close>

lemma clients_cannot_crash_daemon:
  assumes "line_ready runS runR D" and "m_accessLock (mProtocolReceive (m_vcpu d)) = None"
    and "m_accessLock (mProtocolTransmit (m_vcpu d)) = None"
    and "\<forall>e\<in>set es. length (event_data e) < 2 ^ 32 - 3"
    and "daemon_run (MultipleCPU_ops runS runR cs D) es d = Throw x"
  shows "VcpuRound \<in> set es \<and> (x = Out_of_range \<or> x = Undefined_behaviour)"
  using multiple.run_throws [of runS runR D d es cs x] assms by simp

end
