(* ===== verification/Messaging.thy ===== *)
theory Messaging
  imports ClientV1 System
begin

text \<open>
  The messages between the libraries and the daemon as they are handed to the common library: the
  interfaces \<^verbatim>\<open>IMessageServer\<close> and \<^verbatim>\<open>IMessenger\<close>, the classes \<^verbatim>\<open>CpuComMessageServer\<close> and
  \<^verbatim>\<open>CpuComMessenger\<close> that implement them, and the registration of the handlers in
  \<^verbatim>\<open>CpuComDaemon::start\<close> and \<^verbatim>\<open>v2::CpuCom::initialize\<close>. The library's \<^verbatim>\<open>MessageServer\<close> and
  \<^verbatim>\<open>Messenger\<close> are not part of the repository: they are records of operations, parameters, and what is relied
  on from them are the locales \<open>library_server\<close> and \<open>library_messenger\<close>. That the lists of messages of the other
  theories are what goes through these classes is the theorem \<open>messages_reach_methods\<close>.
\<close>

section \<open>Identifiers\<close>

text \<open>The value of an identifier, which is the byte it is on the way; identifiers are compared by it.\<close>

primrec id_value :: "CpuComId \<Rightarrow> byte" where
  "id_value Id_SendCommand = 0"
| "id_value Id_SendCommandResult = 1"
| "id_value Id_Subscribe = 2"
| "id_value Id_Unsubscribe = 3"
| "id_value Id_Notification = 4"
| "id_value Id_SendCommandWithDeliveryStatus = 5"
| "id_value Id_DeliveryStatus = 6"
| "id_value Id_Request = 7"
| "id_value Id_RequestResponse = 8"
| "id_value Id_CancelRequest = 9"

lemma id_value_inj: "id_value i = id_value j \<longleftrightarrow> i = j"
  by (cases i; cases j) simp_all

instantiation CpuComId :: linorder
begin

definition less_eq_CpuComId :: "CpuComId \<Rightarrow> CpuComId \<Rightarrow> bool" where "i \<le> j \<longleftrightarrow> id_value i \<le> id_value j"
definition less_CpuComId :: "CpuComId \<Rightarrow> CpuComId \<Rightarrow> bool" where "i < j \<longleftrightarrow> id_value i < id_value j"

instance
  by standard (auto simp: less_eq_CpuComId_def less_CpuComId_def simp flip: id_value_inj)

end

section \<open>The common library\<close>

text \<open>
  A message on its way is its identifier and the values it was sent with, in order. A handler is a function of
  values of given types; the library takes them out of the message again. \<open>None\<close> is a message that does
  not have the values the handler takes. An \<^verbatim>\<open>Error\<close> is read as the number that stands for it.
\<close>

datatype 'u field = Command_field CpuCommand | Data_field "byte list" | Uuid_field 'u | Error_field error | Bool_field bool

type_synonym 'u packet = "CpuComId \<times> 'u field list"

datatype ('u, 'd) handler =
    Takes_command "CpuCommand \<Rightarrow> 'd \<Rightarrow> 'd outcome"
  | Takes_command_data "CpuCommand \<Rightarrow> byte list \<Rightarrow> 'd \<Rightarrow> 'd outcome"
  | Takes_command_int "CpuCommand \<Rightarrow> int \<Rightarrow> 'd \<Rightarrow> 'd outcome"
  | Takes_uuid "'u \<Rightarrow> 'd \<Rightarrow> 'd outcome"
  | Takes_uuid_data "'u \<Rightarrow> byte list \<Rightarrow> 'd \<Rightarrow> 'd outcome"
  | Takes_uuid_bool "'u \<Rightarrow> bool \<Rightarrow> 'd \<Rightarrow> 'd outcome"
  | Takes_uuid_command_data "'u \<Rightarrow> CpuCommand \<Rightarrow> byte list \<Rightarrow> 'd \<Rightarrow> 'd outcome"
  | Takes_uuid_command_data_command "'u \<Rightarrow> CpuCommand \<Rightarrow> byte list \<Rightarrow> CpuCommand \<Rightarrow> 'd \<Rightarrow> 'd outcome"

primrec call_handler :: "(error \<Rightarrow> int) \<Rightarrow> ('u, 'd) handler \<Rightarrow> 'u field list \<Rightarrow> 'd \<Rightarrow> 'd outcome option" where
  "call_handler code (Takes_command f) fs d = (case fs of [Command_field c] \<Rightarrow> Some (f c d) | _ \<Rightarrow> None)"
| "call_handler code (Takes_command_data f) fs d =
     (case fs of [Command_field c, Data_field xs] \<Rightarrow> Some (f c xs d) | _ \<Rightarrow> None)"
| "call_handler code (Takes_command_int f) fs d =
     (case fs of [Command_field c, Error_field e] \<Rightarrow> Some (f c (code e) d) | _ \<Rightarrow> None)"
| "call_handler code (Takes_uuid f) fs d = (case fs of [Uuid_field u] \<Rightarrow> Some (f u d) | _ \<Rightarrow> None)"
| "call_handler code (Takes_uuid_data f) fs d =
     (case fs of [Uuid_field u, Data_field xs] \<Rightarrow> Some (f u xs d) | _ \<Rightarrow> None)"
| "call_handler code (Takes_uuid_bool f) fs d =
     (case fs of [Uuid_field u, Bool_field b] \<Rightarrow> Some (f u b d) | _ \<Rightarrow> None)"
| "call_handler code (Takes_uuid_command_data f) fs d =
     (case fs of [Uuid_field u, Command_field c, Data_field xs] \<Rightarrow> Some (f u c xs d) | _ \<Rightarrow> None)"
| "call_handler code (Takes_uuid_command_data_command f) fs d =
     (case fs of [Uuid_field u, Command_field c, Data_field xs, Command_field r] \<Rightarrow> Some (f u c xs r d) | _ \<Rightarrow> None)"

text \<open>
  The delivery of messages, in the order they were sent, to the object whose handlers are registered. A message
  without a handler, or that its handler cannot take, is not delivered.
\<close>

fun deliver :: "(error \<Rightarrow> int) \<Rightarrow> (CpuComId \<rightharpoonup> ('u, 'd) handler) \<Rightarrow> 'u packet list \<Rightarrow> 'd \<Rightarrow> 'd outcome option" where
  "deliver code H [] d = Some (Ret d)"
| "deliver code H ((i, fs) # ps) d =
     (case H i of
        None \<Rightarrow> None
      | Some h \<Rightarrow>
          (case call_handler code h fs d of
             None \<Rightarrow> None
           | Some r \<Rightarrow> (case r of Ret d' \<Rightarrow> deliver code H ps d' | _ \<Rightarrow> Some r)))"

text \<open>
  \<^verbatim>\<open>MessageServer\<close> has many peers: its handlers take the session a message came from.
\<close>

record ('m, 's, 'u, 'd) MessageServer =
  ms_initialize :: "('s \<Rightarrow> 'd \<Rightarrow> 'd) \<Rightarrow> ('s \<Rightarrow> 'd \<Rightarrow> 'd) \<Rightarrow> 'm \<Rightarrow> bool \<times> 'm"
  ms_start :: "'m \<Rightarrow> bool \<times> 'm"
  ms_stop :: "'m \<Rightarrow> 'm"
  ms_setMessageHandler :: "CpuComId \<Rightarrow> ('s \<Rightarrow> ('u, 'd) handler) \<Rightarrow> 'm \<Rightarrow> 'm"
  ms_sendMessage :: "'s \<Rightarrow> CpuComId \<Rightarrow> 'u field list \<Rightarrow> 'm \<Rightarrow> 'm"

record ('m, 'u, 'd) Messenger =
  me_initialize :: "('d \<Rightarrow> 'd) \<Rightarrow> ('d \<Rightarrow> 'd) \<Rightarrow> 'm \<Rightarrow> bool \<times> 'm"
  me_connect :: "'m \<Rightarrow> bool \<times> 'm"
  me_disconnect :: "'m \<Rightarrow> 'm"
  me_setMessageHandler :: "CpuComId \<Rightarrow> ('u, 'd) handler \<Rightarrow> 'm \<Rightarrow> 'm"
  me_sendMessage :: "CpuComId \<Rightarrow> 'u field list \<Rightarrow> 'm \<Rightarrow> 'm"

section \<open>The daemon's side\<close>

text \<open>The operations of the interface, and the class that hands them to the library's server.\<close>

record ('m, 's, 'u, 'd) IMessageServer =
  server_initialize :: "('s \<Rightarrow> 'd \<Rightarrow> 'd) \<Rightarrow> ('s \<Rightarrow> 'd \<Rightarrow> 'd) \<Rightarrow> 'm \<Rightarrow> bool \<times> 'm"
  server_start :: "'m \<Rightarrow> bool \<times> 'm"
  server_stop :: "'m \<Rightarrow> 'm"
  setSendCommandMessageHandler :: "('s \<Rightarrow> CpuCommand \<Rightarrow> byte list \<Rightarrow> 'd \<Rightarrow> 'd outcome) \<Rightarrow> 'm \<Rightarrow> 'm"
  setSubscribeMessageHandler :: "('s \<Rightarrow> CpuCommand \<Rightarrow> 'd \<Rightarrow> 'd outcome) \<Rightarrow> 'm \<Rightarrow> 'm"
  setUnsubscribeMessageHandler :: "('s \<Rightarrow> CpuCommand \<Rightarrow> 'd \<Rightarrow> 'd outcome) \<Rightarrow> 'm \<Rightarrow> 'm"
  setRequestMessageHandler :: "('s \<Rightarrow> 'u \<Rightarrow> CpuCommand \<Rightarrow> byte list \<Rightarrow> CpuCommand \<Rightarrow> 'd \<Rightarrow> 'd outcome) \<Rightarrow> 'm \<Rightarrow> 'm"
  setCancelRequestMessageHandler :: "('s \<Rightarrow> 'u \<Rightarrow> 'd \<Rightarrow> 'd outcome) \<Rightarrow> 'm \<Rightarrow> 'm"
  setSendCommandWithDeliveryStatusMessageHandler ::
    "('s \<Rightarrow> 'u \<Rightarrow> CpuCommand \<Rightarrow> byte list \<Rightarrow> 'd \<Rightarrow> 'd outcome) \<Rightarrow> 'm \<Rightarrow> 'm"
  sendNotificationMessage :: "'s \<Rightarrow> CpuCommand \<Rightarrow> byte list \<Rightarrow> 'm \<Rightarrow> 'm"
  sendRequestResponseMessage :: "'s \<Rightarrow> 'u \<Rightarrow> byte list \<Rightarrow> 'm \<Rightarrow> 'm"
  sendSendCommandResultMessage :: "'s \<Rightarrow> CpuCommand \<Rightarrow> error \<Rightarrow> 'm \<Rightarrow> 'm"
  sendDeliveryStatusMessage :: "'s \<Rightarrow> 'u \<Rightarrow> bool \<Rightarrow> 'm \<Rightarrow> 'm"

definition CpuComMessageServer :: "('m, 's, 'u, 'd) MessageServer \<Rightarrow> ('m, 's, 'u, 'd) IMessageServer" where
  "CpuComMessageServer MS = \<lparr>
     server_initialize = ms_initialize MS,
     server_start = ms_start MS,
     server_stop = ms_stop MS,
     setSendCommandMessageHandler = (\<lambda>h. ms_setMessageHandler MS Id_SendCommand (\<lambda>s. Takes_command_data (h s))),
     setSubscribeMessageHandler = (\<lambda>h. ms_setMessageHandler MS Id_Subscribe (\<lambda>s. Takes_command (h s))),
     setUnsubscribeMessageHandler = (\<lambda>h. ms_setMessageHandler MS Id_Unsubscribe (\<lambda>s. Takes_command (h s))),
     setRequestMessageHandler =
       (\<lambda>h. ms_setMessageHandler MS Id_Request (\<lambda>s. Takes_uuid_command_data_command (h s))),
     setCancelRequestMessageHandler = (\<lambda>h. ms_setMessageHandler MS Id_CancelRequest (\<lambda>s. Takes_uuid (h s))),
     setSendCommandWithDeliveryStatusMessageHandler =
       (\<lambda>h. ms_setMessageHandler MS Id_SendCommandWithDeliveryStatus (\<lambda>s. Takes_uuid_command_data (h s))),
     sendNotificationMessage =
       (\<lambda>s command data. ms_sendMessage MS s Id_Notification [Command_field command, Data_field data]),
     sendRequestResponseMessage = (\<lambda>s u data. ms_sendMessage MS s Id_RequestResponse [Uuid_field u, Data_field data]),
     sendSendCommandResultMessage =
       (\<lambda>s command e. ms_sendMessage MS s Id_SendCommandResult [Command_field command, Error_field e]),
     sendDeliveryStatusMessage = (\<lambda>s u result. ms_sendMessage MS s Id_DeliveryStatus [Uuid_field u, Bool_field result])\<rparr>"

text \<open>\<^verbatim>\<open>CpuComDaemon::start\<close> with its server: the handlers, and the result, the server and the daemon afterwards.\<close>

definition register_handlers ::
    "('m, 's::linorder, 'u, ('c, 's, 'u) CpuComDaemon) IMessageServer \<Rightarrow> 'c ICPU \<Rightarrow> 'm \<Rightarrow> 'm" where
  "register_handlers M C m =
     (let m = setSendCommandMessageHandler M (onSendCommand C) m;
          m = setSubscribeMessageHandler M (\<lambda>s command d. Ret (onSubscribe s command d)) m;
          m = setUnsubscribeMessageHandler M (\<lambda>s command d. Ret (onUnsubscribe s command d)) m;
          m = setRequestMessageHandler M (onRequest C) m;
          m = setCancelRequestMessageHandler M (\<lambda>s u d. Ret (onCancelRequest s u d)) m
      in setSendCommandWithDeliveryStatusMessageHandler M (onSendCommandWithDeliveryStatus C) m)"

definition CpuComDaemon_start ::
    "('m, 's::linorder, 'u, ('c, 's, 'u) CpuComDaemon) IMessageServer \<Rightarrow> 'c ICPU \<Rightarrow> 'm \<Rightarrow> ('c, 's, 'u) CpuComDaemon \<Rightarrow>
     bool \<times> 'm \<times> ('c, 's, 'u) CpuComDaemon" where
  "CpuComDaemon_start M C m d =
     (case cpu_initialize C (m_vcpu d) of
        (initialized, vcpu) \<Rightarrow>
          let d = d\<lparr>m_vcpu := vcpu\<rparr>;
              d = (if initialized then d\<lparr>m_running := True\<rparr> else d);
              m = snd (server_initialize M onClientConnected onClientDisconnected m);
              m = register_handlers M C m
          in case server_start M m of (r, m) \<Rightarrow> (r, m, d))"

text \<open>The send that \<open>send_message\<close> stands for.\<close>

primrec server_send :: "('m, 's, 'u, 'd) IMessageServer \<Rightarrow> 's \<Rightarrow> 'u DaemonMessage \<Rightarrow> 'm \<Rightarrow> 'm" where
  "server_send M s (Notification command data) = sendNotificationMessage M s command data"
| "server_send M s (RequestResponse u data) = sendRequestResponseMessage M s u data"
| "server_send M s (SendCommandResult command e) = sendSendCommandResultMessage M s command e"
| "server_send M s (DeliveryStatus u result) = sendDeliveryStatusMessage M s u result"

text \<open>\<^verbatim>\<open>~CpuComDaemon\<close> stops the server last.\<close>

definition CpuComDaemon_delete ::
    "('m, 's, 'u, ('c, 's, 'u) CpuComDaemon) IMessageServer \<Rightarrow> 'm \<Rightarrow> ('c, 's, 'u) CpuComDaemon \<Rightarrow>
     'm \<times> ('c, 's, 'u) CpuComDaemon" where
  "CpuComDaemon_delete M m d = (let d = d\<lparr>m_running := False\<rparr> in (server_stop M m, d))"

section \<open>The client's side\<close>

record ('m, 'u, 'd) IMessenger =
  messenger_initialize :: "('d \<Rightarrow> 'd) \<Rightarrow> ('d \<Rightarrow> 'd) \<Rightarrow> 'm \<Rightarrow> bool \<times> 'm"
  messenger_connect :: "'m \<Rightarrow> bool \<times> 'm"
  messenger_disconnect :: "'m \<Rightarrow> 'm"
  setSendCommandResultMessageHandler :: "(CpuCommand \<Rightarrow> int \<Rightarrow> 'd \<Rightarrow> 'd outcome) \<Rightarrow> 'm \<Rightarrow> 'm"
  setNotificationMessageHandler :: "(CpuCommand \<Rightarrow> byte list \<Rightarrow> 'd \<Rightarrow> 'd outcome) \<Rightarrow> 'm \<Rightarrow> 'm"
  setRequestResponseMessageHandler :: "('u \<Rightarrow> byte list \<Rightarrow> 'd \<Rightarrow> 'd outcome) \<Rightarrow> 'm \<Rightarrow> 'm"
  setDeliveryStatusMessageHandler :: "('u \<Rightarrow> bool \<Rightarrow> 'd \<Rightarrow> 'd outcome) \<Rightarrow> 'm \<Rightarrow> 'm"
  sendCancelRequestMessage :: "'u \<Rightarrow> 'm \<Rightarrow> 'm"
  sendSubscribeMessage :: "CpuCommand \<Rightarrow> 'm \<Rightarrow> 'm"
  sendUnsubscribeMessage :: "CpuCommand \<Rightarrow> 'm \<Rightarrow> 'm"
  sendSendCommandMessage :: "CpuCommand \<Rightarrow> byte list \<Rightarrow> 'm \<Rightarrow> 'm"
  sendSendCommandWithDeliveryStatusMessage :: "'u \<Rightarrow> CpuCommand \<Rightarrow> byte list \<Rightarrow> 'm \<Rightarrow> 'm"
  sendRequestMessage :: "'u \<Rightarrow> CpuCommand \<Rightarrow> byte list \<Rightarrow> CpuCommand \<Rightarrow> 'm \<Rightarrow> 'm"

definition CpuComMessenger :: "('m, 'u, 'd) Messenger \<Rightarrow> ('m, 'u, 'd) IMessenger" where
  "CpuComMessenger ME = \<lparr>
     messenger_initialize = me_initialize ME,
     messenger_connect = me_connect ME,
     messenger_disconnect = me_disconnect ME,
     setSendCommandResultMessageHandler = (\<lambda>h. me_setMessageHandler ME Id_SendCommandResult (Takes_command_int h)),
     setNotificationMessageHandler = (\<lambda>h. me_setMessageHandler ME Id_Notification (Takes_command_data h)),
     setRequestResponseMessageHandler = (\<lambda>h. me_setMessageHandler ME Id_RequestResponse (Takes_uuid_data h)),
     setDeliveryStatusMessageHandler = (\<lambda>h. me_setMessageHandler ME Id_DeliveryStatus (Takes_uuid_bool h)),
     sendCancelRequestMessage = (\<lambda>u. me_sendMessage ME Id_CancelRequest [Uuid_field u]),
     sendSubscribeMessage = (\<lambda>command. me_sendMessage ME Id_Subscribe [Command_field command]),
     sendUnsubscribeMessage = (\<lambda>command. me_sendMessage ME Id_Unsubscribe [Command_field command]),
     sendSendCommandMessage =
       (\<lambda>command data. me_sendMessage ME Id_SendCommand [Command_field command, Data_field data]),
     sendSendCommandWithDeliveryStatusMessage =
       (\<lambda>u command data. me_sendMessage ME Id_SendCommandWithDeliveryStatus
          [Uuid_field u, Command_field command, Data_field data]),
     sendRequestMessage =
       (\<lambda>u requestCommand data responseCommand. me_sendMessage ME Id_Request
          [Uuid_field u, Command_field requestCommand, Data_field data, Command_field responseCommand])\<rparr>"

text \<open>\<^verbatim>\<open>v2::CpuCom::initialize\<close>, \<^verbatim>\<open>connect\<close> and \<^verbatim>\<open>disconnect\<close> with the messenger.\<close>

definition CpuCom_initialize ::
    "('m, 'u, ('u, 'cb) CpuCom) IMessenger \<Rightarrow> 'cb option \<Rightarrow> 'cb option \<Rightarrow> 'm \<Rightarrow> ('u, 'cb) CpuCom \<Rightarrow>
     bool \<times> 'm \<times> ('u, 'cb) CpuCom" where
  "CpuCom_initialize M errorCallback onConnectionClosed m c =
     (let c = c\<lparr>m_errorCallback := errorCallback\<rparr>;
          c = c\<lparr>m_onConnectionClosed := onConnectionClosed\<rparr>
      in case messenger_initialize M onConnectionClosedHandler onConnectionResumedHandler m of
           (initialized, m) \<Rightarrow>
             let m = setSendCommandResultMessageHandler M (\<lambda>command result c. Ret (onSendCommandResult command result c)) m;
                 m = setNotificationMessageHandler M (\<lambda>command data c. Ret (onNotification command data c)) m;
                 m = setRequestResponseMessageHandler M (\<lambda>u data c. Ret (onRequestResponse u data c)) m;
                 m = setDeliveryStatusMessageHandler M (\<lambda>u status c. Ret (onDeliveryStatus u status c)) m
             in (initialized, m, c))"

definition CpuCom_connect :: "('m, 'u, 'd) IMessenger \<Rightarrow> 'm \<Rightarrow> bool \<times> 'm" where
  "CpuCom_connect M m = messenger_connect M m"

definition CpuCom_disconnect :: "('m, 'u, 'd) IMessenger \<Rightarrow> 'm \<Rightarrow> 'm" where
  "CpuCom_disconnect M m = messenger_disconnect M m"

text \<open>The send that \<open>post\<close> stands for.\<close>

primrec messenger_send :: "('m, 'u, 'd) IMessenger \<Rightarrow> 'u ClientMessage \<Rightarrow> 'm \<Rightarrow> 'm" where
  "messenger_send M (SendCommand command data) = sendSendCommandMessage M command data"
| "messenger_send M (Subscribe command) = sendSubscribeMessage M command"
| "messenger_send M (Unsubscribe command) = sendUnsubscribeMessage M command"
| "messenger_send M (SendCommandWithDeliveryStatus u command data) =
     sendSendCommandWithDeliveryStatusMessage M u command data"
| "messenger_send M (Request u command data responseCommand) = sendRequestMessage M u command data responseCommand"
| "messenger_send M (CancelRequest u) = sendCancelRequestMessage M u"

section \<open>What is relied on\<close>

text \<open>
  The library's server keeps one handler for an identifier, the last one set, and sends what it is given;
  \<open>handlers\<close> and \<open>sent\<close> read this off its state.
\<close>

locale library_server =
  fixes MS :: "('m, 's, 'u, 'd) MessageServer" and handlers :: "'m \<Rightarrow> CpuComId \<rightharpoonup> ('s \<Rightarrow> ('u, 'd) handler)"
    and sent :: "'m \<Rightarrow> ('s \<times> 'u packet) list"
  assumes initialize_keeps: "handlers (snd (ms_initialize MS f g m)) = handlers m" "sent (snd (ms_initialize MS f g m)) = sent m"
    and start_keeps: "handlers (snd (ms_start MS m)) = handlers m" "sent (snd (ms_start MS m)) = sent m"
    and set_keeps: "handlers (ms_setMessageHandler MS i h m) = (handlers m)(i \<mapsto> h)" "sent (ms_setMessageHandler MS i h m) = sent m"
    and send_keeps: "handlers (ms_sendMessage MS s i fs m) = handlers m" "sent (ms_sendMessage MS s i fs m) = sent m @ [(s, i, fs)]"

locale library_messenger =
  fixes ME :: "('m, 'u, 'd) Messenger" and handlers :: "'m \<Rightarrow> CpuComId \<rightharpoonup> ('u, 'd) handler"
    and sent :: "'m \<Rightarrow> 'u packet list"
  assumes initialize_keeps: "handlers (snd (me_initialize ME f g m)) = handlers m" "sent (snd (me_initialize ME f g m)) = sent m"
    and connect_keeps: "handlers (snd (me_connect ME m)) = handlers m" "sent (snd (me_connect ME m)) = sent m"
    and set_keeps: "handlers (me_setMessageHandler ME i h m) = (handlers m)(i \<mapsto> h)" "sent (me_setMessageHandler ME i h m) = sent m"
    and send_keeps: "handlers (me_sendMessage ME i fs m) = handlers m" "sent (me_sendMessage ME i fs m) = sent m @ [(i, fs)]"

text \<open>
  What the daemon and the client see of this through the interfaces: setting a handler sets it for one
  identifier, and sending a message sends one packet. These are the packets of the messages.
\<close>

primrec client_packet :: "'u ClientMessage \<Rightarrow> 'u packet" where
  "client_packet (SendCommand command data) = (Id_SendCommand, [Command_field command, Data_field data])"
| "client_packet (Subscribe command) = (Id_Subscribe, [Command_field command])"
| "client_packet (Unsubscribe command) = (Id_Unsubscribe, [Command_field command])"
| "client_packet (SendCommandWithDeliveryStatus u command data) =
     (Id_SendCommandWithDeliveryStatus, [Uuid_field u, Command_field command, Data_field data])"
| "client_packet (Request u command data response) =
     (Id_Request, [Uuid_field u, Command_field command, Data_field data, Command_field response])"
| "client_packet (CancelRequest u) = (Id_CancelRequest, [Uuid_field u])"

primrec daemon_packet :: "'u DaemonMessage \<Rightarrow> 'u packet" where
  "daemon_packet (Notification command data) = (Id_Notification, [Command_field command, Data_field data])"
| "daemon_packet (RequestResponse u data) = (Id_RequestResponse, [Uuid_field u, Data_field data])"
| "daemon_packet (SendCommandResult command e) = (Id_SendCommandResult, [Command_field command, Error_field e])"
| "daemon_packet (DeliveryStatus u result) = (Id_DeliveryStatus, [Uuid_field u, Bool_field result])"

text \<open>The handlers of one session.\<close>

definition at_session :: "'s \<Rightarrow> (CpuComId \<rightharpoonup> ('s \<Rightarrow> ('u, 'd) handler)) \<Rightarrow> CpuComId \<rightharpoonup> ('u, 'd) handler" where
  "at_session s H i = map_option (\<lambda>h. h s) (H i)"

lemma dom_at_session [simp]: "dom (at_session s H) = dom H"
  by (auto simp: at_session_def)

locale message_server =
  fixes M :: "('m, 's, 'u, 'd) IMessageServer" and handlers :: "'m \<Rightarrow> CpuComId \<rightharpoonup> ('s \<Rightarrow> ('u, 'd) handler)"
    and sent :: "'m \<Rightarrow> ('s \<times> 'u packet) list"
  assumes kept: "handlers (snd (server_initialize M f g m)) = handlers m" "handlers (snd (server_start M m)) = handlers m"
    and sets: "handlers (setSendCommandMessageHandler M h1 m) = (handlers m)(Id_SendCommand \<mapsto> \<lambda>s. Takes_command_data (h1 s))"
      "handlers (setSubscribeMessageHandler M h2 m) = (handlers m)(Id_Subscribe \<mapsto> \<lambda>s. Takes_command (h2 s))"
      "handlers (setUnsubscribeMessageHandler M h2 m) = (handlers m)(Id_Unsubscribe \<mapsto> \<lambda>s. Takes_command (h2 s))"
      "handlers (setRequestMessageHandler M h3 m) = (handlers m)(Id_Request \<mapsto> \<lambda>s. Takes_uuid_command_data_command (h3 s))"
      "handlers (setCancelRequestMessageHandler M h4 m) = (handlers m)(Id_CancelRequest \<mapsto> \<lambda>s. Takes_uuid (h4 s))"
      "handlers (setSendCommandWithDeliveryStatusMessageHandler M h5 m) =
         (handlers m)(Id_SendCommandWithDeliveryStatus \<mapsto> \<lambda>s. Takes_uuid_command_data (h5 s))"
    and sends: "sent (server_send M s msg m) = sent m @ [(s, daemon_packet msg)]"
begin

lemma sends_all:
  "sent (fold (\<lambda>(s, msg). server_send M s msg) msgs m) = sent m @ map (\<lambda>(s, msg). (s, daemon_packet msg)) msgs"
  by (induction msgs arbitrary: m) (auto simp: sends)

end

locale messenger =
  fixes M :: "('m, 'u, 'd) IMessenger" and handlers :: "'m \<Rightarrow> CpuComId \<rightharpoonup> ('u, 'd) handler"
    and sent :: "'m \<Rightarrow> 'u packet list"
  assumes kept: "handlers (snd (messenger_initialize M f g m)) = handlers m" "handlers (snd (messenger_connect M m)) = handlers m"
    and sets: "handlers (setSendCommandResultMessageHandler M h1 m) = (handlers m)(Id_SendCommandResult \<mapsto> Takes_command_int h1)"
      "handlers (setNotificationMessageHandler M h2 m) = (handlers m)(Id_Notification \<mapsto> Takes_command_data h2)"
      "handlers (setRequestResponseMessageHandler M h3 m) = (handlers m)(Id_RequestResponse \<mapsto> Takes_uuid_data h3)"
      "handlers (setDeliveryStatusMessageHandler M h4 m) = (handlers m)(Id_DeliveryStatus \<mapsto> Takes_uuid_bool h4)"
    and sends: "sent (messenger_send M msg m) = sent m @ [client_packet msg]"
begin

lemma sends_all: "sent (fold (messenger_send M) msgs m) = sent m @ map client_packet msgs"
  by (induction msgs arbitrary: m) (auto simp: sends)

end

text \<open>The two classes give the contracts of the interfaces from those of the library.\<close>

sublocale library_server \<subseteq> server: message_server "CpuComMessageServer MS" handlers sent
proof (unfold_locales, goal_cases)
  case (9 s msg m)
  then show ?case by (cases msg) (simp_all add: CpuComMessageServer_def send_keeps)
qed (simp_all add: CpuComMessageServer_def initialize_keeps start_keeps set_keeps)

sublocale library_messenger \<subseteq> client: messenger "CpuComMessenger ME" handlers sent
proof (unfold_locales, goal_cases)
  case (7 msg m)
  then show ?case by (cases msg) (simp_all add: CpuComMessenger_def send_keeps)
qed (simp_all add: CpuComMessenger_def initialize_keeps connect_keeps set_keeps)

context library_server
begin

lemma server_contract: "message_server (CpuComMessageServer MS) handlers sent"
  by (rule server.message_server_axioms)

end

context library_messenger
begin

lemma messenger_contract: "messenger (CpuComMessenger ME) handlers sent"
  by (rule client.messenger_axioms)

end

section \<open>Registration and delivery\<close>

lemma start_handlers:
  assumes "message_server M handlers sent" and "CpuComDaemon_start M C m d = (r, m', d')"
  shows "at_session s (handlers m') = (at_session s (handlers m))
     (Id_SendCommand \<mapsto> Takes_command_data (onSendCommand C s),
      Id_Subscribe \<mapsto> Takes_command (\<lambda>command d. Ret (onSubscribe s command d)),
      Id_Unsubscribe \<mapsto> Takes_command (\<lambda>command d. Ret (onUnsubscribe s command d)),
      Id_Request \<mapsto> Takes_uuid_command_data_command (onRequest C s),
      Id_CancelRequest \<mapsto> Takes_uuid (\<lambda>u d. Ret (onCancelRequest s u d)),
      Id_SendCommandWithDeliveryStatus \<mapsto> Takes_uuid_command_data (onSendCommandWithDeliveryStatus C s))"
proof -
  note l = message_server.kept [OF assms(1)] message_server.sets [OF assms(1)]
  have m': "m' = snd (server_start M (register_handlers M C (snd (server_initialize M onClientConnected onClientDisconnected m))))"
    using assms(2) by (auto simp: CpuComDaemon_start_def case_prod_beta Let_def)
  show ?thesis unfolding m' register_handlers_def Let_def l by (simp add: at_session_def fun_eq_iff)
qed

lemma initialize_handlers:
  assumes "messenger M handlers sent" and "CpuCom_initialize M err closed m c = (r, m', c')"
  shows "handlers m' = (handlers m)
     (Id_SendCommandResult \<mapsto> Takes_command_int (\<lambda>command result c. Ret (onSendCommandResult command result c)),
      Id_Notification \<mapsto> Takes_command_data (\<lambda>command data c. Ret (onNotification command data c)),
      Id_RequestResponse \<mapsto> Takes_uuid_data (\<lambda>u data c. Ret (onRequestResponse u data c)),
      Id_DeliveryStatus \<mapsto> Takes_uuid_bool (\<lambda>u status c. Ret (onDeliveryStatus u status c)))"
proof -
  note l = messenger.kept [OF assms(1)] messenger.sets [OF assms(1)]
  show ?thesis using assms(2) by (auto simp: CpuCom_initialize_def case_prod_beta Let_def l)
qed

text \<open>
  On a server and a messenger without handlers each identifier gets a handler on just one side: the daemon handles
  what a client can ask, and a client what the daemon can answer. These are the identifiers in the order of their values.
\<close>

lemma identifiers_split:
  assumes "message_server S sh ss" and "messenger M ch cs"
    and "CpuComDaemon_start S C m d = (r, m', d')" and "CpuCom_initialize M err closed x c = (q, x', c')"
    and "sh m = Map.empty" and "ch x = Map.empty"
  shows "sorted_list_of_set (dom (sh m')) = [Id_SendCommand, Id_Subscribe, Id_Unsubscribe, Id_SendCommandWithDeliveryStatus,
      Id_Request, Id_CancelRequest]"
    and "sorted_list_of_set (dom (ch x')) = [Id_SendCommandResult, Id_Notification, Id_DeliveryStatus, Id_RequestResponse]"
    and "dom (sh m') \<union> dom (ch x') = UNIV" and "dom (sh m') \<inter> dom (ch x') = {}"
proof -
  have server: "dom (sh m') = {Id_SendCommandWithDeliveryStatus, Id_CancelRequest, Id_Request, Id_Unsubscribe,
      Id_Subscribe, Id_SendCommand}"
    using arg_cong [OF start_handlers [OF assms(1,3)], of dom] by (simp add: assms(5))
  have client: "dom (ch x') = {Id_SendCommandResult, Id_Notification, Id_RequestResponse, Id_DeliveryStatus}"
    unfolding initialize_handlers [OF assms(2,4)] assms(6) by auto
  show "sorted_list_of_set (dom (sh m')) = [Id_SendCommand, Id_Subscribe, Id_Unsubscribe, Id_SendCommandWithDeliveryStatus,
      Id_Request, Id_CancelRequest]"
    unfolding server by (rule sorted_list_of_set_unique [THEN iffD1]) (auto simp: less_eq_CpuComId_def less_CpuComId_def)
  show "sorted_list_of_set (dom (ch x')) = [Id_SendCommandResult, Id_Notification, Id_DeliveryStatus, Id_RequestResponse]"
    unfolding client by (rule sorted_list_of_set_unique [THEN iffD1]) (auto simp: less_eq_CpuComId_def less_CpuComId_def)
  have "i \<in> dom (sh m') \<union> dom (ch x')" for i unfolding server client by (cases i) simp_all
  then show "dom (sh m') \<union> dom (ch x') = UNIV" by blast
  show "dom (sh m') \<inter> dom (ch x') = {}" unfolding server client by auto
qed

text \<open>To these handlers every message of the other side can be delivered.\<close>

lemma deliver_to_daemon:
  assumes "message_server M handlers sent" and "CpuComDaemon_start M C m d0 = (r, m', d1)"
  shows "deliver code (at_session s (handlers m')) (map client_packet msgs) d = Some (daemon_run C (map (Message s) msgs) d)"
proof (induction msgs arbitrary: d)
  case (Cons msg msgs)
  then show ?case unfolding start_handlers [OF assms]
    by (cases msg) (auto split: outcome.split)
qed simp

lemma deliver_to_client:
  assumes "messenger M handlers sent" and "CpuCom_initialize M err closed m c0 = (r, m', c1)"
  shows "deliver code (handlers m') (map daemon_packet msgs) c = Some (Ret (fold (client_receive code) msgs c))"
proof (induction msgs arbitrary: c)
  case (Cons msg msgs)
  then show ?case unfolding initialize_handlers [OF assms] by (cases msg) auto
qed simp

text \<open>With its server the start is that of the theory \<open>Daemon\<close>, and the initialization that of \<open>ClientV2\<close>.\<close>

lemma start_daemon:
  "CpuComDaemon_start M C m d = (r, m', d') \<Longrightarrow> daemon_start C r d = (r, d')"
  by (auto simp: CpuComDaemon_start_def daemon_start_def case_prod_beta Let_def split: if_splits)

lemma initialize_client:
  "CpuCom_initialize M err closed m c = (r, m', c') \<Longrightarrow> c' = initialize err closed c"
  by (auto simp: CpuCom_initialize_def initialize_def case_prod_beta Let_def)

section \<open>A library that records\<close>

text \<open>
  A server and a messenger that meet what is relied on: they keep the handlers and what is sent. The results of
  \<^verbatim>\<open>initialize\<close> and \<^verbatim>\<open>start\<close>, or \<^verbatim>\<open>connect\<close>, are given.
\<close>

record ('h, 'p) recorded =
  kept_handlers :: "CpuComId \<rightharpoonup> 'h"
  kept_sent :: "'p list"
  kept_open :: bool

definition recording_server ::
    "bool \<Rightarrow> bool \<Rightarrow> (('s \<Rightarrow> ('u, 'd) handler, 's \<times> 'u packet) recorded, 's, 'u, 'd) MessageServer" where
  "recording_server initialized started = \<lparr>
     ms_initialize = (\<lambda>f g m. (initialized, m)),
     ms_start = (\<lambda>m. (started, m\<lparr>kept_open := started\<rparr>)),
     ms_stop = (\<lambda>m. m\<lparr>kept_open := False\<rparr>),
     ms_setMessageHandler = (\<lambda>i h m. m\<lparr>kept_handlers := (kept_handlers m)(i \<mapsto> h)\<rparr>),
     ms_sendMessage = (\<lambda>s i fs m. m\<lparr>kept_sent := kept_sent m @ [(s, i, fs)]\<rparr>)\<rparr>"

definition recording_messenger ::
    "bool \<Rightarrow> bool \<Rightarrow> ((('u, 'd) handler, 'u packet) recorded, 'u, 'd) Messenger" where
  "recording_messenger initialized connected = \<lparr>
     me_initialize = (\<lambda>f g m. (initialized, m)),
     me_connect = (\<lambda>m. (connected, m\<lparr>kept_open := connected\<rparr>)),
     me_disconnect = (\<lambda>m. m\<lparr>kept_open := False\<rparr>),
     me_setMessageHandler = (\<lambda>i h m. m\<lparr>kept_handlers := (kept_handlers m)(i \<mapsto> h)\<rparr>),
     me_sendMessage = (\<lambda>i fs m. m\<lparr>kept_sent := kept_sent m @ [(i, fs)]\<rparr>)\<rparr>"

interpretation rs: library_server "recording_server initialized started" kept_handlers kept_sent for initialized started
  by unfold_locales (simp_all add: recording_server_def)

interpretation rm: library_messenger "recording_messenger initialized connected" kept_handlers kept_sent for initialized connected
  by unfold_locales (simp_all add: recording_messenger_def)

definition recorded_none :: "('h, 'p) recorded" where
  "recorded_none = \<lparr>kept_handlers = Map.empty, kept_sent = [], kept_open = False\<rparr>"

section \<open>Messages reach the methods\<close>

text \<open>
  C10: the daemon and a client of version 2 speak the same language. Through the message server on
  which \<^verbatim>\<open>start\<close> has registered the handlers, what the client sends with \<^verbatim>\<open>CpuComMessenger\<close> is delivered to
  the daemon's methods exactly as the events of the model, each message with its values to the
  method for it; and what the daemon sends with \<^verbatim>\<open>CpuComMessageServer\<close> is delivered to the methods the client
  registered in \<^verbatim>\<open>initialize\<close>. No message is without a handler or has values its handler does not take.
\<close>

theorem messages_reach_methods:
  assumes "library_server MS sh ss" and "library_messenger ME ch cs"
    and "CpuComDaemon_start (CpuComMessageServer MS) C m d0 = (r, m', d1)"
    and "CpuCom_initialize (CpuComMessenger ME) err closed x c0 = (q, x', c1)"
  shows "\<exists>requests answers.
      cs (fold (messenger_send (CpuComMessenger ME)) msgs x') = cs x' @ requests \<and>
      deliver code (at_session s (sh m')) requests d = Some (daemon_run C (map (Message s) msgs) d) \<and>
      ss (fold (server_send (CpuComMessageServer MS) s) replies m') = ss m' @ map (Pair s) answers \<and>
      deliver code (ch x') answers c = Some (Ret (fold (client_receive code) replies c))"
proof -
  note server = library_server.server_contract [OF assms(1)] and client = library_messenger.messenger_contract [OF assms(2)]
  have "fold (server_send (CpuComMessageServer MS) s) replies m' =
      fold (\<lambda>(s, msg). server_send (CpuComMessageServer MS) s msg) (map (Pair s) replies) m'"
    by (simp add: fold_map comp_def)
  then have "ss (fold (server_send (CpuComMessageServer MS) s) replies m') = ss m' @ map (Pair s) (map daemon_packet replies)"
    using message_server.sends_all [OF server, of "map (Pair s) replies" m'] by simp
  then show ?thesis
    using messenger.sends_all [OF client, of msgs x'] deliver_to_daemon [OF server assms(3), of code s msgs d]
      deliver_to_client [OF client assms(4), of code replies c] by blast
qed

lemma messages_reach_methods_witness:
  "\<exists>m' d1 x' c1 requests.
      CpuComDaemon_start (CpuComMessageServer (recording_server True True))
        (CPU_ops fsm_run fsm_run no_checksum (logged (steady_peer IO_Success ACK))) recorded_none
        (CpuComDaemon_new (CPU_new (fresh ((), [])) kAddressVCPU)) = (True, m', d1) \<and>
      CpuCom_initialize (CpuComMessenger (recording_messenger True True)) (Some ()) None recorded_none
        (CpuCom_new :: (nat, unit) CpuCom) = (True, x', c1) \<and>
      kept_sent (fold (messenger_send (CpuComMessenger (recording_messenger True True)))
        [Subscribe (0x8f, 1), CancelRequest 5] x') = requests \<and>
      deliver (\<lambda>_. 1) (at_session (3 :: nat) (kept_handlers m')) requests d1 = Some (Ret (onSubscribe 3 (0x8f, 1) d1))"
proof -
  let ?C = "CPU_ops fsm_run fsm_run no_checksum (logged (steady_peer IO_Success ACK))"
    and ?I = "CpuComMessenger (recording_messenger True True)" and ?c = "CpuCom_new :: (nat, unit) CpuCom"
  obtain m' and d1 :: "((unit \<times> io_event list) CPU, nat, nat) CpuComDaemon"
    where m': "CpuComDaemon_start (CpuComMessageServer (recording_server True True)) ?C recorded_none
        (CpuComDaemon_new (CPU_new (fresh ((), [])) kAddressVCPU)) = (True, m', d1)" and d1: "m_requests d1 = []"
    by (auto simp: CpuComDaemon_start_def CpuComMessageServer_def recording_server_def Let_def case_prod_beta CpuComDaemon_new_def)
  obtain x' c1 where x': "CpuCom_initialize ?I (Some ()) None recorded_none ?c = (True, x', c1)" "kept_sent x' = []"
    by (simp add: CpuCom_initialize_def CpuComMessenger_def recording_messenger_def Let_def recorded_none_def)
  have "daemon_run ?C (map (Message (3 :: nat)) [Subscribe (0x8f, 1), CancelRequest 5]) d1 = Ret (onSubscribe 3 (0x8f, 1) d1)"
    using d1 by (simp add: onSubscribe_def onCancelRequest_def)
  then show ?thesis
    using messages_reach_methods [OF rs.library_server_axioms rm.library_messenger_axioms m' x'(1),
        of "[Subscribe (0x8f, 1), CancelRequest 5]" "\<lambda>_. 1" 3 d1 "[]" ?c] m' x' by auto
qed

end
