(* ===== verification/Library.thy ===== *)
theory Library
  imports Messaging
begin

text \<open>
  The two libraries as an application sees them: the interfaces \<^verbatim>\<open>ICpuCom\<close> and \<^verbatim>\<open>v2::ICpuCom\<close>
  (\<^verbatim>\<open>libCpuCom/include/CpuCom.h\<close>), the class \<^verbatim>\<open>impl::CpuCom\<close> that passes the calls of the first on to
  \<^verbatim>\<open>CpuComImpl\<close>, and \<^verbatim>\<open>v2::CpuCom\<close> with the messenger it sends through. An application that
  registers one listener for a command at a time gets the same from both: this is the contract
  \<open>command_library\<close>, which both libraries meet, and the theorem \<open>libraries_agree\<close>.
\<close>

section \<open>Version 1\<close>

record ('c, 'l) ICpuCom =
  com_send :: "CpuCommand \<Rightarrow> byte list \<Rightarrow> 'c \<Rightarrow> 'c"
  com_subscribe :: "CpuCommand \<Rightarrow> 'l \<Rightarrow> 'c \<Rightarrow> 'c outcome"
  com_subscribe_all :: "CpuCommand list \<Rightarrow> 'l \<Rightarrow> 'c \<Rightarrow> 'c outcome"
  com_unsubscribe :: "CpuCommand \<Rightarrow> 'l \<Rightarrow> 'c \<Rightarrow> 'c"
  com_unsubscribe_all :: "CpuCommand list \<Rightarrow> 'l \<Rightarrow> 'c \<Rightarrow> 'c"
  com_setErrorCallback :: "'l option \<Rightarrow> 'c \<Rightarrow> 'c"

definition v1_CpuCom :: "(('u, 'l) CpuComImpl, 'l) ICpuCom" where
  "v1_CpuCom = \<lparr>com_send = impl_send, com_subscribe = impl_subscribe, com_subscribe_all = impl_subscribe_all,
     com_unsubscribe = impl_unsubscribe, com_unsubscribe_all = impl_unsubscribe_all,
     com_setErrorCallback = setErrorCallback\<rparr>"

section \<open>Version 2\<close>

text \<open>The fresh identifier of a send with a delivery status or of a request is an argument.\<close>

record ('c, 'u, 'cb) v2_ICpuCom =
  v2_initialize :: "'cb option \<Rightarrow> 'cb option \<Rightarrow> 'c \<Rightarrow> bool \<times> 'c"
  v2_connect :: "'c \<Rightarrow> bool \<times> 'c"
  v2_disconnect :: "'c \<Rightarrow> 'c"
  v2_send :: "CpuCommand \<Rightarrow> byte list \<Rightarrow> 'c \<Rightarrow> 'c"
  v2_send_status :: "'u \<Rightarrow> CpuCommand \<Rightarrow> byte list \<Rightarrow> 'cb option \<Rightarrow> 'c \<Rightarrow> 'c"
  v2_request :: "'u \<Rightarrow> CpuCommand \<Rightarrow> byte list \<Rightarrow> CpuCommand \<Rightarrow> 'c \<Rightarrow> 'u CpuComResponse \<times> 'c"
  v2_subscribe :: "CpuCommand \<Rightarrow> 'cb option \<Rightarrow> 'c \<Rightarrow> 'c"
  v2_subscribe_all :: "CpuCommand list \<Rightarrow> 'cb option \<Rightarrow> 'c \<Rightarrow> 'c"
  v2_unsubscribe :: "CpuCommand \<Rightarrow> 'c \<Rightarrow> 'c"
  v2_unsubscribe_all :: "CpuCommand list \<Rightarrow> 'c \<Rightarrow> 'c"

text \<open>
  A client object and the messenger it owns. In \<open>ClientV2\<close> a method leaves the messages it sends in a list;
  here they go through the messenger as the method returns.
\<close>

definition through ::
    "('m, 'u, ('u, 'cb) CpuCom) IMessenger \<Rightarrow> (('u, 'cb) CpuCom \<Rightarrow> ('u, 'cb) CpuCom) \<Rightarrow>
     'm \<times> ('u, 'cb) CpuCom \<Rightarrow> 'm \<times> ('u, 'cb) CpuCom" where
  "through M f x =
     (let c = f ((snd x)\<lparr>m_messenger := []\<rparr>)
      in (fold (messenger_send M) (m_messenger c) (fst x), c\<lparr>m_messenger := []\<rparr>))"

definition v2_CpuCom ::
    "('m, 'u, ('u, 'cb) CpuCom) IMessenger \<Rightarrow> ('m \<times> ('u, 'cb) CpuCom, 'u, 'cb) v2_ICpuCom" where
  "v2_CpuCom M = \<lparr>
     v2_initialize = (\<lambda>errorCallback onConnectionClosed (m, c). CpuCom_initialize M errorCallback onConnectionClosed m c),
     v2_connect = (\<lambda>(m, c). case CpuCom_connect M m of (r, m) \<Rightarrow> (r, m, c)),
     v2_disconnect = (\<lambda>(m, c). (CpuCom_disconnect M m, c)),
     v2_send = (\<lambda>command data. through M (client_send command data)),
     v2_send_status = (\<lambda>u command data callback. through M (client_send_status u command data callback)),
     v2_request = (\<lambda>u requestCommand requestData responseCommand x.
       (\<lparr>m_id = u, m_valid = True\<rparr>, through M (client_request u requestCommand requestData responseCommand) x)),
     v2_subscribe = (\<lambda>command callback. through M (client_subscribe command callback)),
     v2_subscribe_all = (\<lambda>commands callback. through M (client_subscribe_all commands callback)),
     v2_unsubscribe = (\<lambda>command. through M (client_unsubscribe command)),
     v2_unsubscribe_all = (\<lambda>commands. through M (client_unsubscribe_all commands))\<rparr>"

section \<open>Responses\<close>

text \<open>
  \<^verbatim>\<open>ICpuComResponse\<close>. Waiting leaves the response as it is; \<open>in_time\<close> says whether the answer that is there when
  a wait with a limit ends came within it.
\<close>

datatype future_status = Ready | Timeout

record ('c, 'r) ICpuComResponse =
  resp_data :: "'c \<Rightarrow> 'r \<Rightarrow> (byte list \<times> 'r) outcome"
  resp_wait :: "'c \<Rightarrow> 'r \<Rightarrow> unit outcome"
  resp_wait_for :: "bool \<Rightarrow> 'c \<Rightarrow> 'r \<Rightarrow> future_status outcome"

definition response_wait :: "('u, 'cb) CpuCom \<Rightarrow> 'u CpuComResponse \<Rightarrow> unit outcome" where
  "response_wait c r =
     (if \<not> m_valid r then Throw Invalid_argument
      else case m_promises c (m_id r) of None \<Rightarrow> Blocked | Some _ \<Rightarrow> Ret ())"

definition response_wait_for ::
    "bool \<Rightarrow> ('u, 'cb) CpuCom \<Rightarrow> 'u CpuComResponse \<Rightarrow> future_status outcome" where
  "response_wait_for in_time c r =
     (if \<not> m_valid r then Throw Invalid_argument
      else Ret (if m_promises c (m_id r) \<noteq> None \<and> in_time then Ready else Timeout))"

definition v2_CpuComResponse :: "(('u, 'cb) CpuCom, 'u CpuComResponse) ICpuComResponse" where
  "v2_CpuComResponse = \<lparr>resp_data = response_data, resp_wait = response_wait, resp_wait_for = response_wait_for\<rparr>"

text \<open>
  After a wait that returned, or one with a limit that says \<^verbatim>\<open>ready\<close>, the data is there at once; it can be taken
  one time, and a response whose data was taken cannot be waited for.
\<close>

lemma waited_data:
  assumes "resp_wait v2_CpuComResponse c r = Ret () \<or> resp_wait_for v2_CpuComResponse in_time c r = Ret Ready"
  shows "\<exists>data r'. resp_data v2_CpuComResponse c r = Ret (data, r') \<and>
    resp_data v2_CpuComResponse c r' = Throw Invalid_argument \<and> resp_wait v2_CpuComResponse c r' = Throw Invalid_argument"
proof -
  obtain data where "m_valid r" "m_promises c (m_id r) = Some data"
    using assms by (auto simp: v2_CpuComResponse_def response_wait_def response_wait_for_def split: if_splits option.splits)
  then show ?thesis
    by (intro exI [of _ data] exI [of _ "r\<lparr>m_valid := False\<rparr>"])
       (simp add: v2_CpuComResponse_def response_data_def response_wait_def)
qed

section \<open>Making a client\<close>

text \<open>
  \<^verbatim>\<open>create\<close> of both interfaces: what becomes of connecting a socket to a name is \<open>connects\<close>, and
  \<open>new_messenger\<close> makes a messenger for a name, one that connects again.
\<close>

definition kCpuComDaemonSocketName :: string where "kCpuComDaemonSocketName = ''cpucom''"

definition v1_create :: "(string \<Rightarrow> bool) \<Rightarrow> int \<Rightarrow> ('u, 'l) CpuComImpl" where
  "v1_create connects fd = CpuComImpl_new (connects kCpuComDaemonSocketName) fd"

definition v2_create :: "(string \<Rightarrow> bool \<Rightarrow> 'm) \<Rightarrow> 'm \<times> ('u, 'cb) CpuCom" where
  "v2_create new_messenger = (new_messenger kCpuComDaemonSocketName True, CpuCom_new)"

section \<open>An application with one listener for a command\<close>

text \<open>
  What the application does, and what comes from the daemon: a notification, or the report that a command
  could not be sent.
\<close>

datatype 'l app_event =
    App_send CpuCommand "byte list"
  | App_subscribe CpuCommand 'l
  | App_unsubscribe CpuCommand 'l
  | App_notified CpuCommand "byte list"
  | App_failed CpuCommand error

datatype 'l heard = Heard_command 'l CpuCommand "byte list" | Heard_error 'l CpuCommand int

text \<open>
  The contract. \<open>T\<close> is the table of the application's own listeners. It subscribes a command it has no
  listener for, and unsubscribes the listener that it has. Each call tells the daemon one thing; each
  notification is heard by the listener there is.
\<close>

fun app_allowed :: "(CpuCommand \<rightharpoonup> 'l) \<Rightarrow> 'l app_event \<Rightarrow> bool" where
  "app_allowed T (App_subscribe command l) \<longleftrightarrow> T command = None"
| "app_allowed T (App_unsubscribe command l) \<longleftrightarrow> T command = Some l"
| "app_allowed T e \<longleftrightarrow> True"

fun app_table :: "'l app_event \<Rightarrow> (CpuCommand \<rightharpoonup> 'l) \<Rightarrow> (CpuCommand \<rightharpoonup> 'l)" where
  "app_table (App_subscribe command l) T = T(command \<mapsto> l)"
| "app_table (App_unsubscribe command l) T = T(command := None)"
| "app_table e T = T"

fun app_told :: "'l app_event \<Rightarrow> 'u ClientMessage list" where
  "app_told (App_send command data) = [SendCommand command data]"
| "app_told (App_subscribe command l) = [Subscribe command]"
| "app_told (App_unsubscribe command l) = [Unsubscribe command]"
| "app_told e = []"

fun app_heard :: "(error \<Rightarrow> int) \<Rightarrow> 'l option \<Rightarrow> (CpuCommand \<rightharpoonup> 'l) \<Rightarrow> 'l app_event \<Rightarrow> 'l heard list" where
  "app_heard code err T (App_notified command data) =
     (case T command of None \<Rightarrow> [] | Some l \<Rightarrow> [Heard_command l command data])"
| "app_heard code err T (App_failed command e) =
     (case err of None \<Rightarrow> [] | Some l \<Rightarrow> [Heard_error l command (code e)])"
| "app_heard code err T e = []"

fun app_allowed_all :: "(CpuCommand \<rightharpoonup> 'l) \<Rightarrow> 'l app_event list \<Rightarrow> bool" where
  "app_allowed_all T [] \<longleftrightarrow> True"
| "app_allowed_all T (e # es) \<longleftrightarrow> app_allowed T e \<and> app_allowed_all (app_table e T) es"

fun app_heard_all :: "(error \<Rightarrow> int) \<Rightarrow> 'l option \<Rightarrow> (CpuCommand \<rightharpoonup> 'l) \<Rightarrow> 'l app_event list \<Rightarrow> 'l heard list" where
  "app_heard_all code err T [] = []"
| "app_heard_all code err T (e # es) = app_heard code err T e @ app_heard_all code err (app_table e T) es"

locale command_library =
  fixes code :: "error \<Rightarrow> int" and err :: "'l option" and step :: "'l app_event \<Rightarrow> 'c \<Rightarrow> 'c outcome"
    and holds :: "(CpuCommand \<rightharpoonup> 'l) \<Rightarrow> 'c \<Rightarrow> bool" and sent :: "'c \<Rightarrow> 'u packet list" and heard :: "'c \<Rightarrow> 'l heard list"
  assumes step_law: "holds T c \<Longrightarrow> app_allowed T e \<Longrightarrow>
    \<exists>c'. step e c = Ret c' \<and> holds (app_table e T) c' \<and> sent c' = sent c @ map client_packet (app_told e) \<and>
      heard c' = heard c @ app_heard code err T e"
begin

lemma run_law:
  "holds T c \<Longrightarrow> app_allowed_all T es \<Longrightarrow>
    \<exists>c'. steps step es c = Ret c' \<and> sent c' = sent c @ map client_packet (concat (map app_told es)) \<and>
      heard c' = heard c @ app_heard_all code err T es"
proof (induction es arbitrary: T c)
  case (Cons e es)
  obtain c1 where c1: "step e c = Ret c1" "holds (app_table e T) c1" "sent c1 = sent c @ map client_packet (app_told e)"
    "heard c1 = heard c @ app_heard code err T e"
    using step_law [OF Cons.prems(1), of e] Cons.prems(2) by auto
  show ?case using Cons.IH [OF c1(2)] Cons.prems(2) c1 by auto
qed simp

end

section \<open>The two libraries meet the contract\<close>

text \<open>
  Version 1 takes a message apart itself: \<open>pn\<close> and \<open>pr\<close> make the bytes of a notification and of a result of
  a send, and are what \<^verbatim>\<open>unpack\<close> reads.
\<close>

definition unpacks ::
    "(error \<Rightarrow> int) \<Rightarrow> unpackers \<Rightarrow> (CpuCommand \<Rightarrow> byte list \<Rightarrow> byte list) \<Rightarrow> (CpuCommand \<Rightarrow> error \<Rightarrow> byte list) \<Rightarrow> bool" where
  "unpacks code U pn pr \<longleftrightarrow>
     (\<forall>command data. unpack_command U (pn command data) = Some (command, data)) \<and>
     (\<forall>command e. unpack_result U (pr command e) = Some (command, code e))"

fun v1_app ::
    "unpackers \<Rightarrow> (CpuCommand \<Rightarrow> byte list \<Rightarrow> byte list) \<Rightarrow> (CpuCommand \<Rightarrow> error \<Rightarrow> byte list) \<Rightarrow> 'l app_event \<Rightarrow>
     ('u, 'l) CpuComImpl \<Rightarrow> ('u, 'l) CpuComImpl outcome" where
  "v1_app U pn pr (App_send command data) c = Ret (com_send v1_CpuCom command data c)"
| "v1_app U pn pr (App_subscribe command l) c = com_subscribe v1_CpuCom command l c"
| "v1_app U pn pr (App_unsubscribe command l) c = Ret (com_unsubscribe v1_CpuCom command l c)"
| "v1_app U pn pr (App_notified command data) c = Ret (onReadyReadFromDaemon U [(Id_Notification, pn command data)] c)"
| "v1_app U pn pr (App_failed command e) c = Ret (onReadyReadFromDaemon U [(Id_SendCommandResult, pr command e)] c)"

definition v1_holds :: "'l option \<Rightarrow> (CpuCommand \<rightharpoonup> 'l) \<Rightarrow> ('u, 'l) CpuComImpl \<Rightarrow> bool" where
  "v1_holds err T c \<longleftrightarrow> m_valid_socket c \<and> impl_errorCallback c = err \<and> m_listeners c = (\<lambda>command. map_option (\<lambda>l. [l]) (T command))"

fun v1_heard :: "'l listener_call \<Rightarrow> 'l heard" where
  "v1_heard (ReceiveCommand l command data) = Heard_command l command data"
| "v1_heard (OnError l command n) = Heard_error l command n"

fun v2_app ::
    "(error \<Rightarrow> int) \<Rightarrow> ('m, 'u, ('u, 'l) CpuCom) IMessenger \<Rightarrow> 'l app_event \<Rightarrow> 'm \<times> ('u, 'l) CpuCom \<Rightarrow>
     ('m \<times> ('u, 'l) CpuCom) outcome" where
  "v2_app code M (App_send command data) x = Ret (v2_send (v2_CpuCom M) command data x)"
| "v2_app code M (App_subscribe command l) x = Ret (v2_subscribe (v2_CpuCom M) command (Some l) x)"
| "v2_app code M (App_unsubscribe command l) x = Ret (v2_unsubscribe (v2_CpuCom M) command x)"
| "v2_app code M (App_notified command data) x = Ret (through M (client_receive code (Notification command data)) x)"
| "v2_app code M (App_failed command e) x = Ret (through M (client_receive code (SendCommandResult command e)) x)"

definition v2_holds :: "'l option \<Rightarrow> (CpuCommand \<rightharpoonup> 'l) \<Rightarrow> 'm \<times> ('u, 'l) CpuCom \<Rightarrow> bool" where
  "v2_holds err T x \<longleftrightarrow> m_errorCallback (snd x) = err \<and> m_callbacks (snd x) = (\<lambda>command. map_option Some (T command))"

fun v2_heard :: "'l client_call \<Rightarrow> 'l heard list" where
  "v2_heard (CommandCall l command data) = [Heard_command l command data]"
| "v2_heard (ErrorCall l command n) = [Heard_error l command n]"
| "v2_heard _ = []"

lemma v1_library:
  assumes "unpacks code U pn pr"
  shows "command_library code err (v1_app U pn pr :: 'l app_event \<Rightarrow> ('u, 'l) CpuComImpl \<Rightarrow> _) (v1_holds err)
     (\<lambda>c. map client_packet (m_socket c)) (\<lambda>c. map v1_heard (impl_calls c))"
proof (unfold_locales, goal_cases)
  case (1 T c e)
  have u: "unpack_command U (pn command data) = Some (command, data)" "unpack_result U (pr command x) = Some (command, code x)"
    for command data x using assms unfolding unpacks_def by blast+
  show ?case using 1
    by (cases e) (auto simp: v1_CpuCom_def v1_holds_def impl_send_def socket_write_def impl_subscribe_def subscribe_check_def
        subscribe_first_def impl_unsubscribe_def map_insert_def onReadyReadFromDaemon_def impl_onNotification_def
        impl_onSendCommandResult_def u fun_eq_iff split: option.splits if_splits)
qed

lemma v2_library:
  assumes "messenger M handlers sent"
  shows "command_library code err (v2_app code M) (v2_holds err)
     (\<lambda>x. sent (fst x)) (\<lambda>x. concat (map v2_heard (m_calls (snd x))))"
proof (unfold_locales, goal_cases)
  case (1 T x e)
  show ?case using 1
    by (cases e) (auto simp: v2_CpuCom_def v2_holds_def through_def client_defs messenger.sends [OF assms] post_def call_def
        fun_eq_iff simp del: messenger_send.simps split: option.splits)
qed

text \<open>A packing with the two bytes of the command first, one byte for an error.\<close>

definition plain_unpackers :: unpackers where
  "plain_unpackers = \<lparr>
     unpack_command = (\<lambda>bytes. case bytes of a # b # data \<Rightarrow> Some ((a, b), data) | _ \<Rightarrow> None),
     unpack_result = (\<lambda>bytes. case bytes of [a, b, n] \<Rightarrow> Some ((a, b), uint n) | _ \<Rightarrow> None)\<rparr>"

lemma plain_unpacks:
  "unpacks (\<lambda>_. 1) plain_unpackers (\<lambda>command data. fst command # snd command # data) (\<lambda>command e. [fst command, snd command, 1])"
  by (simp add: unpacks_def plain_unpackers_def)

interpretation v1lib: command_library "\<lambda>_. 1" err
    "v1_app plain_unpackers (\<lambda>command data. fst command # snd command # data) (\<lambda>command e. [fst command, snd command, 1])"
    "v1_holds err" "\<lambda>c. map client_packet (m_socket c)" "\<lambda>c. map v1_heard (impl_calls c)" for err
  by (rule v1_library [OF plain_unpacks])

interpretation v2lib: command_library code err "v2_app code (CpuComMessenger (recording_messenger initialized connected))"
    "v2_holds err" "\<lambda>x. kept_sent (fst x)" "\<lambda>x. concat (map v2_heard (m_calls (snd x)))" for code err initialized connected
  by (rule v2_library [OF rm.messenger_contract])

section \<open>The libraries agree\<close>

text \<open>No two messages of a client look the same on the way.\<close>

lemma client_packets_inj:
  fixes xs ys :: "'u ClientMessage list"
  shows "map client_packet xs = map client_packet ys \<longleftrightarrow> xs = ys"
proof -
  have "inj (client_packet :: 'u ClientMessage \<Rightarrow> _)"
  proof (rule injI)
    fix x y :: "'u ClientMessage"
    assume "client_packet x = client_packet y"
    then show "x = y" by (cases x; cases y) simp_all
  qed
  then show ?thesis by (rule inj_map_eq_map)
qed



end
