(* ===== verification/Startup.thy ===== *)
theory Startup
  imports System
begin

text \<open>
  Start-up: the configuration of the serial device and of the emulator's socket
  (\<^verbatim>\<open>DeviceConfigurations.cpp\<close>), the two socket devices (\<^verbatim>\<open>vcpu/device/socket\<close>), and \<^verbatim>\<open>main\<close> of
  the daemon, which chooses the CPU and starts the daemon on it. The system calls and the base class
  \<^verbatim>\<open>IODevice\<close> are parameters; the numbers of the terminal flags are those of Linux.
\<close>

section \<open>Terminal settings\<close>

record termios =
  c_iflag :: u32
  c_oflag :: u32
  c_cflag :: u32
  c_lflag :: u32

definition B115200 :: u32 where "B115200 = 0x1002"
definition B1000000 :: u32 where "B1000000 = 0x1008"
definition CBAUD :: u32 where "CBAUD = 0x100F"
definition CSIZE :: u32 where "CSIZE = 0x30"
definition CS8 :: u32 where "CS8 = 0x30"
definition CSTOPB :: u32 where "CSTOPB = 0x40"
definition CREAD :: u32 where "CREAD = 0x80"
definition PARENB :: u32 where "PARENB = 0x100"
definition PARODD :: u32 where "PARODD = 0x200"
definition HUPCL :: u32 where "HUPCL = 0x400"
definition CLOCAL :: u32 where "CLOCAL = 0x800"
definition ISIG :: u32 where "ISIG = 0x1"
definition ICANON :: u32 where "ICANON = 0x2"
definition ECHO :: u32 where "ECHO = 0x8"
definition ECHOE :: u32 where "ECHOE = 0x10"
definition ECHOK :: u32 where "ECHOK = 0x20"
definition ECHOCTL :: u32 where "ECHOCTL = 0x200"
definition ECHOKE :: u32 where "ECHOKE = 0x800"
definition IEXTEN :: u32 where "IEXTEN = 0x8000"

record 's IUARTDevice =
  getTerminalParameters :: "'s \<Rightarrow> int \<Rightarrow> termios \<Rightarrow> int \<times> termios"
  setTerminalParameters :: "'s \<Rightarrow> int \<Rightarrow> termios \<Rightarrow> int \<times> 's"

definition uart_settings :: "termios \<Rightarrow> termios" where
  "uart_settings tio =
     (let tio = tio\<lparr>c_iflag := 0x0000\<rparr>;
          tio = tio\<lparr>c_oflag := 0x0000\<rparr>;
          tio = tio\<lparr>c_cflag := B115200 OR CS8 OR CREAD OR PARENB OR HUPCL OR CLOCAL\<rparr>;
          tio = tio\<lparr>c_lflag := ECHOE OR ECHOK OR ECHOCTL OR ECHOKE OR IEXTEN\<rparr>;
          tio = tio\<lparr>c_cflag := c_cflag tio AND NOT CBAUD\<rparr>
      in tio\<lparr>c_cflag := c_cflag tio OR B1000000\<rparr>)"

definition DeviceConfigureUART :: "'s IUARTDevice \<Rightarrow> int \<Rightarrow> 's \<Rightarrow> bool \<times> 's" where
  "DeviceConfigureUART mDevice fd s =
     (case getTerminalParameters mDevice s fd \<lparr>c_iflag = 0, c_oflag = 0, c_cflag = 0, c_lflag = 0\<rparr> of
        (r, tio) \<Rightarrow>
          if r = -1 then (False, s)
          else (case setTerminalParameters mDevice s fd (uart_settings tio) of (r, s) \<Rightarrow> (r \<noteq> -1, s)))"

text \<open>
  Whatever the terminal was, it is set to one million baud, eight bits, one stop bit and even
  parity, with bytes passed through as they are and none echoed.
\<close>

lemma uart_line:
  "c_cflag (uart_settings tio) AND CBAUD = B1000000"
  "c_cflag (uart_settings tio) AND (CSIZE OR CSTOPB OR PARENB OR PARODD) = CS8 OR PARENB"
  "c_iflag (uart_settings tio) = 0" "c_oflag (uart_settings tio) = 0"
  "c_lflag (uart_settings tio) AND (ISIG OR ICANON OR ECHO) = 0"
  by (simp_all add: uart_settings_def Let_def B115200_def B1000000_def CBAUD_def CSIZE_def CS8_def CSTOPB_def CREAD_def
      PARENB_def PARODD_def HUPCL_def CLOCAL_def ISIG_def ICANON_def ECHO_def ECHOE_def ECHOK_def ECHOCTL_def ECHOKE_def
      IEXTEN_def)

section \<open>Socket flags\<close>

datatype fcntl_command = F_GETFL | F_SETFL

definition O_RDWR :: u32 where "O_RDWR = 0x2"
definition O_NONBLOCK :: u32 where "O_NONBLOCK = 0x800"
definition O_NOCTTY :: u32 where "O_NOCTTY = 0x100"

type_synonym 's controlOpenFile = "'s \<Rightarrow> int \<Rightarrow> fcntl_command \<Rightarrow> u32 \<Rightarrow> u32 \<times> 's"

definition DeviceConfigureEmulatorSocket :: "'s controlOpenFile \<Rightarrow> int \<Rightarrow> 's \<Rightarrow> bool \<times> 's" where
  "DeviceConfigureEmulatorSocket controlOpenFile fd s =
     (case controlOpenFile s fd F_GETFL 0 of (flags, s) \<Rightarrow>
        if flags \<noteq> -1 then
          (let flags = flags OR O_RDWR;
               flags = flags OR O_NONBLOCK;
               flags = flags OR O_NOCTTY
           in case controlOpenFile s fd F_SETFL flags of (r, s) \<Rightarrow> (r = 0, s))
        else (False, s))"

section \<open>Socket devices\<close>

text \<open>
  The members of a socket device, and the calls it makes: making a local server, taking a
  connection, connecting to a server, closing, and the part of \<^verbatim>\<open>close\<close> that is in \<^verbatim>\<open>IODevice\<close>.
\<close>

record SocketDevice =
  m_listend :: int
  m_fd :: int

record 's sockets =
  socket_local_server :: "'s \<Rightarrow> int \<times> 's"
  accept_connection :: "int \<Rightarrow> 's \<Rightarrow> int \<times> 's"
  socket_local_client :: "'s \<Rightarrow> int \<times> 's"
  close_fd :: "int \<Rightarrow> 's \<Rightarrow> 's"
  IODevice_close :: "SocketDevice \<Rightarrow> 's \<Rightarrow> SocketDevice \<times> 's"

definition kInvalidFileDescriptor :: int where "kInvalidFileDescriptor = -1"

text \<open>\<^verbatim>\<open>m_configure\<close> may be empty.\<close>

definition configured :: "(int \<Rightarrow> 's \<Rightarrow> bool \<times> 's) option \<Rightarrow> int \<Rightarrow> 's \<Rightarrow> bool \<times> 's" where
  "configured m_configure fd s = (case m_configure of None \<Rightarrow> (True, s) | Some configure \<Rightarrow> configure fd s)"

definition MasterDevice_open ::
    "'s sockets \<Rightarrow> (int \<Rightarrow> 's \<Rightarrow> bool \<times> 's) option \<Rightarrow> SocketDevice \<Rightarrow> 's \<Rightarrow> bool \<times> SocketDevice \<times> 's" where
  "MasterDevice_open os m_configure dev s =
     (case socket_local_server os s of (listend, s) \<Rightarrow>
        let dev = dev\<lparr>m_listend := listend\<rparr> in
        case (if listend \<ge> 0
              then (case accept_connection os listend s of (fd, s) \<Rightarrow> (dev\<lparr>m_fd := fd\<rparr>, s))
              else (dev, s)) of (dev, s) \<Rightarrow>
          if m_fd dev \<ge> 0
          then (case configured m_configure (m_fd dev) s of (result, s) \<Rightarrow> (result, dev, s))
          else (False, dev, s))"

definition MasterDevice_close :: "'s sockets \<Rightarrow> SocketDevice \<Rightarrow> 's \<Rightarrow> SocketDevice \<times> 's" where
  "MasterDevice_close os dev s =
     (case (if m_listend dev \<noteq> kInvalidFileDescriptor
            then (dev\<lparr>m_listend := kInvalidFileDescriptor\<rparr>, close_fd os (m_listend dev) s)
            else (dev, s)) of (dev, s) \<Rightarrow> IODevice_close os dev s)"

text \<open>The slave connects until the server is there.\<close>

definition SlaveDevice_open ::
    "'s sockets \<Rightarrow> (int \<Rightarrow> 's \<Rightarrow> bool \<times> 's) option \<Rightarrow> SocketDevice \<Rightarrow> 's \<Rightarrow> (bool \<times> SocketDevice \<times> 's) outcome" where
  "SlaveDevice_open os m_configure dev s =
     (case while_option (\<lambda>(fd, s). fd < 0) (\<lambda>(fd, s). socket_local_client os s) (socket_local_client os s) of
        None \<Rightarrow> Diverges
      | Some (fd, s) \<Rightarrow>
          (case configured m_configure fd s of (result, s) \<Rightarrow> Ret (result, dev\<lparr>m_fd := fd\<rparr>, s)))"

text \<open>The state after \<open>n\<close> attempts to connect, and the descriptor of the last.\<close>

fun attempts :: "'s sockets \<Rightarrow> nat \<Rightarrow> 's \<Rightarrow> int \<times> 's" where
  "attempts os 0 s = socket_local_client os s"
| "attempts os (Suc n) s = socket_local_client os (snd (attempts os n s))"

lemma attempts_loop:
  "while_option (\<lambda>(fd, s). fd < 0) (\<lambda>(fd, s). socket_local_client os s) (attempts os k s) =
     while_option (\<lambda>(fd, s). fd < 0) (\<lambda>(fd, s). socket_local_client os s) (attempts os (k + j) s)"
  if "\<forall>i<j. fst (attempts os (k + i) s) < 0" for j
  using that
proof (induction j)
  case (Suc j)
  have "fst (attempts os (k + j) s) < 0" using Suc.prems by simp
  then have "while_option (\<lambda>(fd, s). fd < 0) (\<lambda>(fd, s). socket_local_client os s) (attempts os (k + j) s) =
      while_option (\<lambda>(fd, s). fd < 0) (\<lambda>(fd, s). socket_local_client os s) (attempts os (k + Suc j) s)"
    by (subst while_option_unfold) (simp add: case_prod_beta)
  then show ?case using Suc by simp
qed simp

text \<open>
  The open of a slave returns exactly when some attempt to connect succeeds, and then with the
  descriptor of the first that did; it never gives up.
\<close>

lemma SlaveDevice_open_waits:
  "(\<forall>i<n. fst (attempts os i s) < 0) \<Longrightarrow> fst (attempts os n s) \<ge> 0 \<Longrightarrow>
     SlaveDevice_open os m_configure dev s =
       Ret (case configured m_configure (fst (attempts os n s)) (snd (attempts os n s)) of
              (result, s') \<Rightarrow> (result, dev\<lparr>m_fd := fst (attempts os n s)\<rparr>, s'))"
  "(\<forall>i. fst (attempts os i s) < 0) \<Longrightarrow> SlaveDevice_open os m_configure dev s = Diverges"
proof -
  assume f: "\<forall>i<n. fst (attempts os i s) < 0" and ok: "fst (attempts os n s) \<ge> 0"
  have "while_option (\<lambda>(fd, s). fd < 0) (\<lambda>(fd, s). socket_local_client os s) (socket_local_client os s) =
      Some (attempts os n s)"
    using attempts_loop [of n os 0 s] f ok by (simp add: while_option_unfold [of _ _ "attempts os n s"] case_prod_beta)
  then show "SlaveDevice_open os m_configure dev s =
       Ret (case configured m_configure (fst (attempts os n s)) (snd (attempts os n s)) of
              (result, s') \<Rightarrow> (result, dev\<lparr>m_fd := fst (attempts os n s)\<rparr>, s'))"
    by (simp add: SlaveDevice_open_def case_prod_beta)
next
  assume f: "\<forall>i. fst (attempts os i s) < 0"
  let ?w = "while_option (\<lambda>(fd, s). fd < 0) (\<lambda>(fd, s). socket_local_client os s) (attempts os 0 s)"
  have "?w = None"
  proof (rule ccontr)
    assume "?w \<noteq> None"
    then obtain x where x: "?w = Some x" by blast
    have "\<exists>k. x = attempts os k s"
    proof (rule while_option_rule [where P = "\<lambda>x. \<exists>k. x = attempts os k s", OF _ x])
      fix y assume "\<exists>k. y = attempts os k s"
      then obtain k where "y = attempts os k s" by blast
      then have "(case y of (fd, s) \<Rightarrow> socket_local_client os s) = attempts os (Suc k) s" by (simp add: case_prod_beta)
      then show "\<exists>k. (case y of (fd, s) \<Rightarrow> socket_local_client os s) = attempts os k s" by blast
    qed blast
    then show False using while_option_stop [OF x] f by (auto simp: case_prod_beta)
  qed
  then show "SlaveDevice_open os m_configure dev s = Diverges" by (simp add: SlaveDevice_open_def)
qed

section \<open>The daemon's main\<close>

definition kUse2Uart :: bool where "kUse2Uart = True"

datatype 'd main_cpu = Single "'d CPU" | Double "'d MultipleCPU"

definition getVcpuEmu :: "'d IODevice \<Rightarrow> 'd \<Rightarrow> 'd CPU" where
  "getVcpuEmu D device = CPU_new (protocol_new D device) kAddressVCPU"

definition getRealCpu :: "'d IODevice \<Rightarrow> 'd \<Rightarrow> 'd \<Rightarrow> 'd \<Rightarrow> 'd main_cpu" where
  "getRealCpu D deviceReceive deviceTransmit device =
     (if kUse2Uart
      then Double (MultipleCPU_new (protocol_new D deviceReceive) (protocol_new D deviceTransmit) kAddressVCPU)
      else Single (CPU_new (protocol_new D device) kAddressVCPU))"

text \<open>
  What \<^verbatim>\<open>main\<close> needs of its surroundings: the socket and the serial devices before they are opened,
  whether the property \<^verbatim>\<open>vendor.vcpuemulator\<close> is set, and whether the message server starts. The
  result is the daemon after the events \<open>es\<close>, on the CPU that was chosen.
\<close>

record 'd surroundings =
  socket_device :: "'d IODevice"
  uart_device :: "'d IODevice"
  emulator_socket :: 'd
  ttyHS4 :: 'd
  ttyHS6 :: 'd
  uart :: 'd
  vcpuemulator :: bool
  server_starts :: bool

definition chosen_cpu :: "'d surroundings \<Rightarrow> 'd main_cpu" where
  "chosen_cpu S =
     (let useSocketDevice = vcpuemulator S
      in if useSocketDevice then Single (getVcpuEmu (socket_device S) (emulator_socket S))
         else getRealCpu (uart_device S) (ttyHS4 S) (ttyHS6 S) (uart S))"

datatype ('d, 's, 'u) main_daemon =
    On_single "('d CPU, 's, 'u) CpuComDaemon"
  | On_double "('d MultipleCPU, 's, 'u) CpuComDaemon"

definition daemon_main ::
    "'d send_runner \<Rightarrow> 'd recv_runner \<Rightarrow> (byte list \<Rightarrow> byte) \<Rightarrow> 'd surroundings \<Rightarrow> ('s :: linorder, 'u) daemon_event list \<Rightarrow>
     ('d, 's, 'u) main_daemon outcome" where
  "daemon_main runS runR cs S es =
     (let D = (if vcpuemulator S then socket_device S else uart_device S) in
      case chosen_cpu S of
        Single vcpu \<Rightarrow>
          (let C = CPU_ops runS runR cs D
           in omap On_single (daemon_run C es (snd (daemon_start C (server_starts S) (CpuComDaemon_new vcpu)))))
      | Double vcpu \<Rightarrow>
          (let C = MultipleCPU_ops runS runR cs D
           in omap On_double (daemon_run C es (snd (daemon_start C (server_starts S) (CpuComDaemon_new vcpu))))))"

lemma protocol_new_free: "m_accessLock (protocol_new D d) = None"
  by (simp add: protocol_new_def)


definition sample_surroundings :: "unit surroundings" where
  "sample_surroundings =
     \<lparr>socket_device = steady_peer IO_Success ACK, uart_device = steady_peer IO_Success ACK, emulator_socket = (), ttyHS4 = (),
      ttyHS6 = (), uart = (), vcpuemulator = False, server_starts = True\<rparr>"


end
