(* ===== verification/EmulatorUtils.thy ===== *)
theory EmulatorUtils
  imports CpuPrelude "HOL-Library.Char_ord"
begin

text \<open>
  The text functions of the V-CPU emulator: \<^verbatim>\<open>tokenize\<close>, \<^verbatim>\<open>commandFromString\<close> and
  \<^verbatim>\<open>dataFromString\<close> (\<^verbatim>\<open>tools/VcpuEmulator/src/Utils.cpp\<close>), and the two places that print
  what these read: the command text of \<^verbatim>\<open>RuleReceive::satisfy\<close> (\<^verbatim>\<open>Rules.cpp\<close>) and the data
  text of \<^verbatim>\<open>ActionPrint::execute\<close> (\<^verbatim>\<open>Actions.cpp\<close>).
\<close>

section \<open>Tokens\<close>

text \<open>
  The loop over \<^verbatim>\<open>std::getline\<close>: it extracts up to the delimiter, which it drops, and fails
  when nothing is left to extract.
\<close>

function tokenize :: "string \<Rightarrow> char \<Rightarrow> string list" where
  "tokenize s delimiter =
     (if s = [] then []
      else takeWhile (\<lambda>c. c \<noteq> delimiter) s # tokenize (drop 1 (dropWhile (\<lambda>c. c \<noteq> delimiter) s)) delimiter)"
  by pat_completeness auto

termination
proof (relation "measure (\<lambda>(s, d). length s)")
  fix s :: string and delimiter
  assume "s \<noteq> []"
  then have "length (drop 1 (dropWhile (\<lambda>c. c \<noteq> delimiter) s)) < length s"
    using length_dropWhile_le [of "\<lambda>c. c \<noteq> delimiter" s] by (cases s) auto
  then show "((drop 1 (dropWhile (\<lambda>c. c \<noteq> delimiter) s), delimiter), s, delimiter) \<in> measure (\<lambda>(s, d). length s)"
    by simp
qed simp

declare tokenize.simps [simp del]

text \<open>One \<^verbatim>\<open>std::getline\<close>: the text up to the delimiter, and the rest.\<close>

definition getline :: "string \<Rightarrow> char \<Rightarrow> string \<times> string" where
  "getline s delimiter =
     (takeWhile (\<lambda>c. c \<noteq> delimiter) s, drop 1 (dropWhile (\<lambda>c. c \<noteq> delimiter) s))"

section \<open>Hexadecimal numbers\<close>

definition isxdigit :: "char \<Rightarrow> bool" where
  "isxdigit c \<longleftrightarrow> c \<in> set ''0123456789abcdefABCDEF''"

definition hex_digit :: "char \<Rightarrow> nat" where
  "hex_digit c =
     (let n = of_char c in if n < 58 then n - 48 else if n < 71 then n - 55 else n - 87)"

definition hex_value :: "string \<Rightarrow> nat" where
  "hex_value s = foldl (\<lambda>n c. 16 * n + hex_digit c) 0 s"

text \<open>\<^verbatim>\<open>std::stoi(s, 0, 16)\<close> of a text of hexadecimal digits: it throws outside \<^verbatim>\<open>int\<close>.\<close>

definition stoi_hex :: "string \<Rightarrow> nat outcome" where
  "stoi_hex s = (if hex_value s < 2 ^ 31 then Ret (hex_value s) else Throw Out_of_range)"

text \<open>\<^verbatim>\<open>std::stoi(s, 0, 10)\<close> of a text of decimal digits.\<close>

definition isdigit :: "char \<Rightarrow> bool" where
  "isdigit c \<longleftrightarrow> c \<in> set ''0123456789''"

definition stoi_dec :: "string \<Rightarrow> nat outcome" where
  "stoi_dec s =
     (if s = [] then Throw Invalid_argument
      else let v = foldl (\<lambda>n c. 10 * n + hex_digit c) 0 s
           in if v < 2 ^ 31 then Ret v else Throw Out_of_range)"

section \<open>Commands and data from text\<close>

text \<open>
  The inner \<^verbatim>\<open>bool valid\<close> hides the outer one, which is returned: a text with two parts that
  are not hexadecimal gives true and leaves the command as it was. The command is stored as two
  bytes.
\<close>

definition commandFromString :: "string \<Rightarrow> CpuCommand \<Rightarrow> (bool \<times> CpuCommand) outcome" where
  "commandFromString s command =
     (let (cmd, rest) = getline s CHR '','';
          (subcmd, rest) = getline rest CHR '','';
          valid = (cmd \<noteq> [] \<and> subcmd \<noteq> [])
      in if valid \<and> list_all isxdigit cmd \<and> list_all isxdigit subcmd
         then obind (stoi_hex cmd) (\<lambda>a. obind (stoi_hex subcmd) (\<lambda>b.
                Ret (valid, (word_of_nat a, word_of_nat b))))
         else Ret (valid, command))"

fun data_loop :: "string list \<Rightarrow> byte list \<Rightarrow> (bool \<times> byte list) outcome" where
  "data_loop [] data = Ret (True, data)"
| "data_loop (d # ds) data =
     (if d \<noteq> [] \<and> list_all isxdigit d
      then obind (stoi_hex d) (\<lambda>v. data_loop ds (data @ [word_of_nat v]))
      else Ret (False, []))"

definition dataFromString :: "string \<Rightarrow> byte list \<Rightarrow> (bool \<times> byte list) outcome" where
  "dataFromString s data = data_loop (tokenize s CHR '','') data"

section \<open>Text of commands and data\<close>

definition digit_char :: "nat \<Rightarrow> char" where
  "digit_char n = ''0123456789abcdef'' ! n"

text \<open>A byte printed with \<^verbatim>\<open>std::hex\<close>, with a width of two filled with zeros or without.\<close>

definition hex2 :: "byte \<Rightarrow> string" where
  "hex2 b = [digit_char (unat b div 16), digit_char (unat b mod 16)]"

definition hex1 :: "byte \<Rightarrow> string" where
  "hex1 b = (if unat b < 16 then [digit_char (unat b)] else hex2 b)"

definition command_text :: "CpuCommand \<Rightarrow> string" where
  "command_text command = hex2 (fst command) @ '','' @ hex2 (snd command)"

definition data_text :: "byte list \<Rightarrow> string" where
  "data_text data =
     (if data = [] then [] else concat (map (\<lambda>b. hex1 b @ '','') (butlast data)) @ hex1 (last data))"

section \<open>Lemmas\<close>

lemma digit_char_cases:
  assumes "n < 16"
  shows "hex_digit (digit_char n) = n" and "isxdigit (digit_char n)" and "digit_char n \<noteq> CHR '',''"
proof -
  have "\<forall>n\<in>set [0..<16]. hex_digit (digit_char n) = n \<and> isxdigit (digit_char n) \<and> digit_char n \<noteq> CHR '',''"
    by code_simp
  then have "hex_digit (digit_char n) = n \<and> isxdigit (digit_char n) \<and> digit_char n \<noteq> CHR '',''"
    using assms by simp
  then show "hex_digit (digit_char n) = n" and "isxdigit (digit_char n)" and "digit_char n \<noteq> CHR '',''"
    by simp_all
qed

lemma unat_byte_below: "unat (b :: byte) < 256"
  using unsigned_less [of b, where 'a = nat] by simp

lemma hex2_props:
  "hex_value (hex2 b) = unat b" "list_all isxdigit (hex2 b)" "CHR '','' \<notin> set (hex2 b)" "hex2 b \<noteq> []"
proof -
  have n: "unat b div 16 < 16" "unat b mod 16 < 16" using unat_byte_below [of b] by auto
  note d = digit_char_cases [OF n(1)] digit_char_cases [OF n(2)]
  show "hex_value (hex2 b) = unat b" by (simp add: hex_value_def hex2_def d)
  show "list_all isxdigit (hex2 b)" "CHR '','' \<notin> set (hex2 b)" "hex2 b \<noteq> []"
    using d by (auto simp: hex2_def)
qed

lemma hex1_props:
  "hex_value (hex1 b) = unat b" "list_all isxdigit (hex1 b)" "CHR '','' \<notin> set (hex1 b)" "hex1 b \<noteq> []"
  using hex2_props [of b] digit_char_cases [of "unat b"] by (auto simp: hex1_def hex_value_def)

lemma stoi_hex_byte: "hex_value s = unat (b :: byte) \<Longrightarrow> stoi_hex s = Ret (unat b)"
  using unat_byte_below [of b] by (simp add: stoi_hex_def)

lemma getline_append: "d \<notin> set xs \<Longrightarrow> getline (xs @ d # ys) d = (xs, ys)"
  by (simp add: getline_def takeWhile_tail takeWhile_append dropWhile_append)

lemma getline_last: "d \<notin> set xs \<Longrightarrow> getline xs d = (xs, [])"
proof -
  assume "d \<notin> set xs"
  then have "takeWhile (\<lambda>c. c \<noteq> d) xs = xs" and "dropWhile (\<lambda>c. c \<noteq> d) xs = []"
    by (auto simp: takeWhile_eq_all_conv dropWhile_eq_Nil_conv)
  then show ?thesis unfolding getline_def by (simp only: drop_Nil)
qed

lemma tokenize_append: "d \<notin> set xs \<Longrightarrow> tokenize (xs @ d # ys) d = xs # tokenize ys d"
  using getline_append [of d xs ys] by (subst tokenize.simps) (simp add: getline_def)

lemma tokenize_last: "d \<notin> set xs \<Longrightarrow> xs \<noteq> [] \<Longrightarrow> tokenize xs d = [xs]"
  using getline_last [of d xs] by (subst tokenize.simps) (simp add: getline_def tokenize.simps [of "[]"])

lemma tokenize_data_text: "tokenize (data_text data) CHR '','' = map hex1 data"
proof (induction data)
  case Nil
  then show ?case by (simp add: data_text_def tokenize.simps)
next
  case (Cons b data)
  show ?case
  proof (cases "data = []")
    case True
    then show ?thesis by (simp add: data_text_def tokenize_last hex1_props)
  next
    case False
    then have "data_text (b # data) = hex1 b @ CHR '','' # data_text data" by (simp add: data_text_def)
    then show ?thesis using Cons.IH by (simp add: tokenize_append hex1_props)
  qed
qed

lemma data_loop_hex: "data_loop (map hex1 data) acc = Ret (True, acc @ data)"
  by (induction data arbitrary: acc) (simp_all add: hex1_props stoi_hex_byte [OF hex1_props(1)])

lemma commandFromString_text: "commandFromString (command_text command) c = Ret (True, command)"
proof -
  obtain a b where ab: "command = (a, b)" by (cases command)
  have "getline (command_text command) CHR '','' = (hex2 a, hex2 b)"
    using getline_append [of "CHR '',''" "hex2 a" "hex2 b"] hex2_props by (simp add: command_text_def ab)
  moreover have "getline (hex2 b) CHR '','' = (hex2 b, [])" by (rule getline_last [OF hex2_props(3)])
  ultimately show ?thesis
    by (simp add: commandFromString_def hex2_props stoi_hex_byte [OF hex2_props(1)] ab)
qed

lemma command_text_inj: "command_text a = command_text b \<longleftrightarrow> a = b"
proof
  assume eq: "command_text a = command_text b"
  show "a = b" using commandFromString_text [of a "(0, 0)"] commandFromString_text [of b "(0, 0)"]
    unfolding eq by simp
qed simp

lemma dataFromString_text: "dataFromString (data_text data) [] = Ret (True, data)"
  by (simp add: dataFromString_def tokenize_data_text data_loop_hex)

text \<open>Neither text holds a blank.\<close>

lemma isxdigit_no_blank: "list_all isxdigit s \<Longrightarrow> CHR '' '' \<notin> set s"
proof -
  assume "list_all isxdigit s"
  moreover have "\<not> isxdigit CHR '' ''" by (simp add: isxdigit_def)
  ultimately show ?thesis by (auto simp: list_all_iff)
qed

lemma command_text_no_blank: "CHR '' '' \<notin> set (command_text c)"
  using isxdigit_no_blank [OF hex2_props(2)] by (simp add: command_text_def)

lemma data_text_no_blank: "CHR '' '' \<notin> set (data_text data)"
  using isxdigit_no_blank [OF hex1_props(2)] by (auto simp: data_text_def)

section \<open>Properties\<close>

text \<open>
  A text of two parts of which one is not hexadecimal is reported as a valid command, and the
  command is left as it was.
\<close>

lemma command_not_validated:
  assumes "getline s CHR '','' = (cmd, rest)" and "getline rest CHR '','' = (subcmd, rest')"
    and "cmd \<noteq> []" and "subcmd \<noteq> []" and "\<not> list_all isxdigit cmd \<or> \<not> list_all isxdigit subcmd"
  shows "commandFromString s command = Ret (True, command)"
  using assms by (auto simp: commandFromString_def)

lemma command_not_validated_witness: "commandFromString ''xy,zz'' (3, 4) = Ret (True, (3, 4))"
  by (rule command_not_validated [of _ "''xy''" "''zz''" "''zz''" "[]"]) (simp_all add: getline_def isxdigit_def)

end
