(* ===== verification/Emulator.thy ===== *)
theory Emulator
  imports EmulatorUtils Cpu
begin

text \<open>
  The V-CPU emulator (\<^verbatim>\<open>tools/VcpuEmulator/src\<close>), which sits between two CPUs and answers for
  either of them: the rules and actions of its two configuration files (\<^verbatim>\<open>RulesBuilder.cpp\<close>,
  \<^verbatim>\<open>Actions.cpp\<close>, \<^verbatim>\<open>Rules.cpp\<close>), the emulator object (\<^verbatim>\<open>Emulator.cpp\<close>) and the handler of
  the command line messages (\<^verbatim>\<open>main.cpp\<close>). The JSON library and \<^verbatim>\<open>std::regex\<close> are records of
  operations; the worker's thread pool is the queue of the tasks pushed, from which any task may
  be run next.
\<close>

section \<open>Libraries\<close>

text \<open>A \<^verbatim>\<open>Json::Value\<close>: what throws a \<^verbatim>\<open>Json::LogicError\<close> gives \<open>Throw Library_error\<close>.\<close>

record 'j json_ops =
  json_member :: "'j \<Rightarrow> string \<Rightarrow> 'j outcome"
  json_isString :: "'j \<Rightarrow> bool"
  json_asString :: "'j \<Rightarrow> string outcome"
  json_size :: "'j \<Rightarrow> nat"
  json_elem :: "'j \<Rightarrow> nat \<Rightarrow> 'j outcome"

record 'r regex_ops =
  regex_compile :: "string \<Rightarrow> 'r option"
  regex_match :: "string \<Rightarrow> 'r \<Rightarrow> bool"

section \<open>Rules and actions\<close>

text \<open>A \<^verbatim>\<open>std::shared_ptr<ICPU>\<close> is one of the two CPUs of the emulator, or null.\<close>

datatype cpu_ref = MCPU | VCPU

record InputEvent =
  ev_command :: CpuCommand
  ev_data :: "byte list"

datatype Action =
    ActionSend CpuCommand "byte list" "cpu_ref option"
  | ActionPrint string
  | ActionResend "cpu_ref option"
  | ActionReplace CpuCommand "byte list" "cpu_ref option"
  | ActionNop

record 'r Rule =
  m_pattern :: 'r
  m_actions :: "Action option list"

definition RuleReceive_satisfy :: "'r regex_ops \<Rightarrow> 'r Rule \<Rightarrow> InputEvent \<Rightarrow> bool" where
  "RuleReceive_satisfy X rule inputEvent =
     regex_match X (command_text (ev_command inputEvent)) (m_pattern rule)"

definition createInputEvent :: "CpuCommand \<Rightarrow> byte list \<Rightarrow> InputEvent" where
  "createInputEvent cpuCommand data = \<lparr>ev_command = cpuCommand, ev_data = data\<rparr>"

section \<open>RulesBuilder\<close>

definition createRule :: "'j json_ops \<Rightarrow> 'r regex_ops \<Rightarrow> 'j \<Rightarrow> 'r Rule option outcome" where
  "createRule J X jsonObject =
     obind (json_member J jsonObject ''type'') (\<lambda>t.
       if \<not> json_isString J t then Ret None
       else obind (json_asString J t) (\<lambda>type.
         if type = ''receive'' then
           obind (json_member J jsonObject ''command'') (\<lambda>c.
             if \<not> json_isString J c then Ret None
             else obind (json_asString J c) (\<lambda>command.
               case regex_compile X command of
                 None \<Rightarrow> Throw Library_error
               | Some r \<Rightarrow> Ret (Some \<lparr>m_pattern = r, m_actions = []\<rparr>)))
         else Ret None))"

text \<open>The texts of the fields \<^verbatim>\<open>command\<close> and \<^verbatim>\<open>data\<close>, parsed.\<close>

definition action_arguments :: "'j json_ops \<Rightarrow> 'j \<Rightarrow> (CpuCommand \<times> byte list) option outcome" where
  "action_arguments J jsonObject =
     obind (json_member J jsonObject ''command'') (\<lambda>c.
       obind (json_asString J c) (\<lambda>cs.
         obind (commandFromString cs (0, 0)) (\<lambda>(isValidCommand, command).
           obind (json_member J jsonObject ''data'') (\<lambda>d.
             obind (json_asString J d) (\<lambda>ds.
               obind (dataFromString ds []) (\<lambda>(isValidData, data).
                 Ret (if isValidCommand \<and> isValidData then Some (command, data) else None)))))))"

definition other_cpu :: "cpu_ref option \<Rightarrow> cpu_ref option" where
  "other_cpu currentCPU = (if currentCPU = Some VCPU then Some MCPU else Some VCPU)"

definition createAction :: "'j json_ops \<Rightarrow> cpu_ref option \<Rightarrow> 'j \<Rightarrow> Action option outcome" where
  "createAction J currentCPU jsonObject =
     obind (json_member J jsonObject ''type'') (\<lambda>t.
       if \<not> json_isString J t then Ret None
       else obind (json_asString J t) (\<lambda>type.
         if type = ''send'' then
           omap (map_option (\<lambda>(command, data). ActionSend command data currentCPU)) (action_arguments J jsonObject)
         else if type = ''print'' then
           obind (json_member J jsonObject ''format'') (\<lambda>f.
             omap (\<lambda>format. Some (ActionPrint format)) (json_asString J f))
         else if type = ''resend'' then Ret (Some (ActionResend (other_cpu currentCPU)))
         else if type = ''replace'' then
           omap (map_option (\<lambda>(command, data). ActionReplace command data (other_cpu currentCPU)))
             (action_arguments J jsonObject)
         else if type = ''nop'' then Ret (Some ActionNop)
         else Ret None))"

section \<open>The emulator\<close>

text \<open>
  A task of the worker: \<^verbatim>\<open>ICPU::write\<close> bound to the M-CPU, or \<^verbatim>\<open>Action::execute\<close> bound to an
  action, which may be null, and an event. A repeater is the command and data it sends and its
  interval.
\<close>

datatype task = WriteTask CpuCommand "byte list" | ExecuteTask "Action option" InputEvent

record ('c, 'r) Emulator =
  m_threads :: bool
  m_workerThread :: "task list"
  m_mcpu :: 'c
  m_vcpu :: 'c
  m_currentCPU :: "cpu_ref option"
  m_mcpuRules :: "'r Rule list"
  m_vcpuRules :: "'r Rule list"
  m_repeaters :: "string \<rightharpoonup> CpuCommand \<times> byte list \<times> u32"
  m_defaultActions :: "cpu_ref \<rightharpoonup> Action option"
  m_log :: "(string \<times> CpuCommand \<times> string) list"

definition Emulator_new :: "'c \<Rightarrow> 'c \<Rightarrow> ('c, 'r) Emulator" where
  "Emulator_new mcpu vcpu =
     \<lparr>m_threads = False, m_workerThread = [], m_mcpu = mcpu, m_vcpu = vcpu, m_currentCPU = None,
      m_mcpuRules = [], m_vcpuRules = [], m_repeaters = Map.empty, m_defaultActions = Map.empty,
      m_log = []\<rparr>"

subsection \<open>Configuration\<close>

fun load_actions :: "'j json_ops \<Rightarrow> cpu_ref option \<Rightarrow> 'j \<Rightarrow> nat list \<Rightarrow> Action option list outcome" where
  "load_actions J cpu jActions [] = Ret []"
| "load_actions J cpu jActions (j # js) =
     obind (json_elem J jActions j) (\<lambda>jAction.
       obind (createAction J cpu jAction) (\<lambda>action.
         omap (\<lambda>actions. action # actions) (load_actions J cpu jActions js)))"

fun load_rules ::
    "'j json_ops \<Rightarrow> 'r regex_ops \<Rightarrow> cpu_ref option \<Rightarrow> 'j \<Rightarrow> nat list \<Rightarrow> 'r Rule list \<Rightarrow> 'r Rule list outcome" where
  "load_rules J X cpu jRules [] rules = Ret rules"
| "load_rules J X cpu jRules (i # is) rules =
     obind (json_elem J jRules i) (\<lambda>jRule.
       obind (createRule J X jRule) (\<lambda>rule.
         case rule of
           None \<Rightarrow> load_rules J X cpu jRules is rules
         | Some rule \<Rightarrow>
             obind (json_member J jRule ''actions'') (\<lambda>jActions.
               obind (load_actions J cpu jActions [0..<json_size J jActions]) (\<lambda>actions.
                 load_rules J X cpu jRules is (rules @ [rule\<lparr>m_actions := actions\<rparr>])))))"

text \<open>
  The file is \<open>None\<close> when it cannot be opened, and the value that was parsed from it otherwise;
  \<^verbatim>\<open>insert\<close> keeps a default action that is there already.
\<close>

definition loadCPUConfig ::
    "'j json_ops \<Rightarrow> 'r regex_ops \<Rightarrow> 'j option \<Rightarrow> cpu_ref \<Rightarrow> ('c, 'r) Emulator \<Rightarrow>
     (bool \<times> ('c, 'r) Emulator) outcome" where
  "loadCPUConfig J X file cpu e =
     (let e = e\<lparr>m_currentCPU := Some cpu\<rparr> in
      case file of
        None \<Rightarrow> Ret (False, e)
      | Some value \<Rightarrow>
          obind (json_member J value ''default-action'') (\<lambda>jDefaultAction.
          obind (createAction J (Some cpu) jDefaultAction) (\<lambda>defaultAction.
          obind (json_member J value ''rules'') (\<lambda>jRules.
          obind (load_rules J X (Some cpu) jRules [0..<json_size J jRules]
                   (case cpu of MCPU \<Rightarrow> m_mcpuRules e | VCPU \<Rightarrow> m_vcpuRules e)) (\<lambda>rules.
            let e = (if m_defaultActions e cpu = None
                     then e\<lparr>m_defaultActions := (m_defaultActions e)(cpu \<mapsto> defaultAction)\<rparr> else e)
            in Ret (True, case cpu of MCPU \<Rightarrow> e\<lparr>m_mcpuRules := rules\<rparr> | VCPU \<Rightarrow> e\<lparr>m_vcpuRules := rules\<rparr>))))))"

definition Emulator_start ::
    "'j json_ops \<Rightarrow> 'r regex_ops \<Rightarrow> 'j option \<Rightarrow> 'j option \<Rightarrow> ('c, 'r) Emulator \<Rightarrow> ('c, 'r) Emulator outcome" where
  "Emulator_start J X vcpuConfig mcpuConfig e =
     obind (loadCPUConfig J X vcpuConfig VCPU e) (\<lambda>(_, e).
     obind (loadCPUConfig J X mcpuConfig MCPU e) (\<lambda>(_, e).
       Ret (e\<lparr>m_threads := True\<rparr>)))"

subsection \<open>Input, tasks and repeaters\<close>

definition push :: "task \<Rightarrow> ('c, 'r) Emulator \<Rightarrow> ('c, 'r) Emulator" where
  "push t e = e\<lparr>m_workerThread := m_workerThread e @ [t]\<rparr>"

fun push_rules :: "'r regex_ops \<Rightarrow> 'r Rule list \<Rightarrow> InputEvent \<Rightarrow> ('c, 'r) Emulator \<Rightarrow> ('c, 'r) Emulator" where
  "push_rules X [] event e = e"
| "push_rules X (rule # rules) event e =
     push_rules X rules event
       (if RuleReceive_satisfy X rule event
        then fold (\<lambda>action. push (ExecuteTask action event)) (m_actions rule) e else e)"

text \<open>\<^verbatim>\<open>m_defaultActions[cpu]\<close> inserts a null action where there is none.\<close>

definition push_default :: "cpu_ref \<Rightarrow> InputEvent \<Rightarrow> ('c, 'r) Emulator \<Rightarrow> ('c, 'r) Emulator" where
  "push_default cpu event e =
     (case m_defaultActions e cpu of
        None \<Rightarrow> push (ExecuteTask None event) (e\<lparr>m_defaultActions := (m_defaultActions e)(cpu \<mapsto> None)\<rparr>)
      | Some action \<Rightarrow> push (ExecuteTask action event) e)"

text \<open>One round of each of the two input threads.\<close>

definition mcpuThreadFunction :: "'c ICPU \<Rightarrow> 'r regex_ops \<Rightarrow> ('c, 'r) Emulator \<Rightarrow> ('c, 'r) Emulator outcome" where
  "mcpuThreadFunction C X e =
     obind (cpu_read C (m_mcpu e)) (\<lambda>(received, c).
       let e = e\<lparr>m_mcpu := c\<rparr> in
       case received of
         None \<Rightarrow> Ret e
       | Some (command, data) \<Rightarrow>
           let event = createInputEvent command data
           in Ret (push_default MCPU event (push_rules X (m_mcpuRules e) event e)))"

definition vcpuInputThreadFunction :: "'c ICPU \<Rightarrow> 'r regex_ops \<Rightarrow> ('c, 'r) Emulator \<Rightarrow> ('c, 'r) Emulator outcome" where
  "vcpuInputThreadFunction C X e =
     obind (cpu_read C (m_vcpu e)) (\<lambda>(received, c).
       let e = e\<lparr>m_vcpu := c\<rparr> in
       case received of
         None \<Rightarrow> Ret e
       | Some (command, data) \<Rightarrow>
           let event = createInputEvent command data
           in Ret (push_default VCPU event (push_rules X (m_vcpuRules e) event e)))"

definition write_ref ::
    "'c ICPU \<Rightarrow> cpu_ref option \<Rightarrow> CpuCommand \<Rightarrow> byte list \<Rightarrow> ('c, 'r) Emulator \<Rightarrow> ('c, 'r) Emulator outcome" where
  "write_ref C cpu command data e =
     (case cpu of
        None \<Rightarrow> Throw Undefined_behaviour
      | Some MCPU \<Rightarrow> omap (\<lambda>(r, c). e\<lparr>m_mcpu := c\<rparr>) (cpu_write C (m_mcpu e) command data)
      | Some VCPU \<Rightarrow> omap (\<lambda>(r, c). e\<lparr>m_vcpu := c\<rparr>) (cpu_write C (m_vcpu e) command data))"

fun Action_execute :: "'c ICPU \<Rightarrow> Action \<Rightarrow> InputEvent \<Rightarrow> ('c, 'r) Emulator \<Rightarrow> ('c, 'r) Emulator outcome" where
  "Action_execute C (ActionSend command data cpu) inputEvent e = write_ref C cpu command data e"
| "Action_execute C (ActionPrint format) inputEvent e =
     Ret (e\<lparr>m_log := m_log e @ [(format, ev_command inputEvent, data_text (ev_data inputEvent))]\<rparr>)"
| "Action_execute C (ActionResend cpu) inputEvent e =
     write_ref C cpu (ev_command inputEvent) (ev_data inputEvent) e"
| "Action_execute C (ActionReplace command data cpu) inputEvent e = write_ref C cpu command data e"
| "Action_execute C ActionNop inputEvent e = Ret e"

fun run_task :: "'c ICPU \<Rightarrow> task \<Rightarrow> ('c, 'r) Emulator \<Rightarrow> ('c, 'r) Emulator outcome" where
  "run_task C (WriteTask command data) e = write_ref C (Some MCPU) command data e"
| "run_task C (ExecuteTask None event) e = Throw Undefined_behaviour"
| "run_task C (ExecuteTask (Some action) event) e = Action_execute C action event e"

definition Emulator_send :: "CpuCommand \<Rightarrow> byte list \<Rightarrow> ('c, 'r) Emulator \<Rightarrow> ('c, 'r) Emulator" where
  "Emulator_send command data e = push (WriteTask command data) e"

definition Emulator_repeat ::
    "string \<Rightarrow> CpuCommand \<Rightarrow> byte list \<Rightarrow> u32 \<Rightarrow> ('c, 'r) Emulator \<Rightarrow> ('c, 'r) Emulator" where
  "Emulator_repeat name command data interval e =
     (if m_repeaters e name = None
      then e\<lparr>m_repeaters := (m_repeaters e)(name \<mapsto> (command, data, interval))\<rparr> else e)"

definition Emulator_stoprepeat :: "string \<Rightarrow> ('c, 'r) Emulator \<Rightarrow> ('c, 'r) Emulator" where
  "Emulator_stoprepeat name e =
     (if m_repeaters e name \<noteq> None then e\<lparr>m_repeaters := (m_repeaters e)(name := None)\<rparr> else e)"

definition Emulator_stoprepeat_all :: "('c, 'r) Emulator \<Rightarrow> ('c, 'r) Emulator" where
  "Emulator_stoprepeat_all e = e\<lparr>m_repeaters := Map.empty\<rparr>"

subsection \<open>Command line\<close>

text \<open>The data of the next token, if there is one; whether it was valid is not looked at.\<close>

definition cli_data :: "string list \<Rightarrow> byte list outcome" where
  "cli_data tokens = (case tokens of [] \<Rightarrow> Ret [] | s # _ \<Rightarrow> omap snd (dataFromString s []))"

definition cli_send :: "string list \<Rightarrow> ('c, 'r) Emulator \<Rightarrow> ('c, 'r) Emulator outcome" where
  "cli_send tokens e =
     (case tokens of
        [] \<Rightarrow> Ret e
      | commandString # tokens \<Rightarrow>
          obind (commandFromString commandString (0, 0)) (\<lambda>(commandParsed, command).
            if commandParsed then omap (\<lambda>data. Emulator_send command data e) (cli_data tokens)
            else Ret e))"

definition cli_repeat :: "string list \<Rightarrow> ('c, 'r) Emulator \<Rightarrow> ('c, 'r) Emulator outcome" where
  "cli_repeat tokens e =
     (case tokens of
        name # intervalString # tokens \<Rightarrow>
          obind (if list_all isdigit intervalString then stoi_dec intervalString else Ret 0) (\<lambda>n.
            let interval = (word_of_nat n :: u32) in
            case tokens of
              [] \<Rightarrow> Ret e
            | commandString # tokens \<Rightarrow>
                if interval = 0 then Ret e
                else obind (commandFromString commandString (0, 0)) (\<lambda>(commandParsed, command).
                  if commandParsed
                  then omap (\<lambda>data. Emulator_repeat name command data interval e) (cli_data tokens)
                  else Ret e))
      | _ \<Rightarrow> Ret e)"

definition cli_handler :: "string \<Rightarrow> ('c, 'r) Emulator \<Rightarrow> ('c, 'r) Emulator outcome" where
  "cli_handler input e =
     (case tokenize input CHR '' '' of
        [] \<Rightarrow> Ret e
      | what # tokens \<Rightarrow>
          if what = ''send'' then cli_send tokens e
          else if what = ''repeat'' then cli_repeat tokens e
          else if what = ''stoprepeat'' then
            Ret (case tokens of [] \<Rightarrow> Emulator_stoprepeat_all e | name # _ \<Rightarrow> Emulator_stoprepeat name e)
          else Ret e)"

text \<open>
  The command line client (\<^verbatim>\<open>cli.cpp\<close>) joins its arguments with blanks and erases the last
  one; without arguments that is before the start of the text.
\<close>

definition cli_input :: "string list \<Rightarrow> string outcome" where
  "cli_input argv =
     (let input = concat (map (\<lambda>a. a @ '' '') argv)
      in if input = [] then Throw Undefined_behaviour else Ret (butlast input))"

subsection \<open>Runs\<close>

text \<open>
  What happens to a started emulator: a round of an input thread, the worker runs one of the tasks
  it holds, a repeater fires, or a command line arrives.
\<close>

datatype emulator_event = Input cpu_ref | Work nat | Fire string | Cli string

fun emulator_step :: "'c ICPU \<Rightarrow> 'r regex_ops \<Rightarrow> emulator_event \<Rightarrow> ('c, 'r) Emulator \<Rightarrow> ('c, 'r) Emulator outcome" where
  "emulator_step C X (Input MCPU) e = mcpuThreadFunction C X e"
| "emulator_step C X (Input VCPU) e = vcpuInputThreadFunction C X e"
| "emulator_step C X (Work i) e =
     (if i < length (m_workerThread e)
      then run_task C (m_workerThread e ! i)
             (e\<lparr>m_workerThread := take i (m_workerThread e) @ drop (Suc i) (m_workerThread e)\<rparr>)
      else Ret e)"
| "emulator_step C X (Fire name) e =
     (case m_repeaters e name of None \<Rightarrow> Ret e | Some (command, data, _) \<Rightarrow> Ret (Emulator_send command data e))"
| "emulator_step C X (Cli input) e = cli_handler input e"

fun emulator_run :: "'c ICPU \<Rightarrow> 'r regex_ops \<Rightarrow> emulator_event list \<Rightarrow> ('c, 'r) Emulator \<Rightarrow> ('c, 'r) Emulator outcome" where
  "emulator_run C X [] e = Ret e"
| "emulator_run C X (ev # evs) e = obind (emulator_step C X ev e) (emulator_run C X evs)"

end
