(* ===== verification/EmulatorProperties.thy ===== *)
theory EmulatorProperties
  imports Emulator DaemonProperties
begin

text \<open>
  The emulator's behaviour: which actions a received command sets off and where they write, that a
  complete configuration leaves no null action or CPU for the worker to run into and an incomplete
  one does, and what the command line texts do.
\<close>

section \<open>The configuration\<close>

text \<open>The CPU that the actions of a configuration write to.\<close>

fun action_directed :: "cpu_ref \<Rightarrow> Action \<Rightarrow> bool" where
  "action_directed cpu (ActionSend _ _ r) = (r = Some cpu)"
| "action_directed cpu (ActionResend r) = (r = Some (if cpu = VCPU then MCPU else VCPU))"
| "action_directed cpu (ActionReplace _ _ r) = (r = Some (if cpu = VCPU then MCPU else VCPU))"
| "action_directed cpu _ = True"

definition rules_directed :: "cpu_ref \<Rightarrow> 'r Rule list \<Rightarrow> bool" where
  "rules_directed cpu rules \<longleftrightarrow> list_all (\<lambda>rule. list_all (pred_option (action_directed cpu)) (m_actions rule)) rules"

definition directed :: "('c, 'r) Emulator \<Rightarrow> bool" where
  "directed e \<longleftrightarrow> rules_directed MCPU (m_mcpuRules e) \<and> rules_directed VCPU (m_vcpuRules e) \<and>
     pred_option (pred_option (action_directed MCPU)) (m_defaultActions e MCPU) \<and>
     pred_option (pred_option (action_directed VCPU)) (m_defaultActions e VCPU)"

lemma createAction_cases:
  assumes "createAction J cur j = Ret (Some a)"
  shows "(\<exists>c d. a = ActionSend c d cur) \<or> (\<exists>f. a = ActionPrint f) \<or> a = ActionResend (other_cpu cur) \<or>
    (\<exists>c d. a = ActionReplace c d (other_cpu cur)) \<or> a = ActionNop"
  using assms unfolding createAction_def
  by (elim obind_RetE if_eqE) (auto simp: omap_eq_Ret Some_eq_map_option)

lemma createAction_directed:
  "createAction J (Some cpu) j = Ret a \<Longrightarrow> pred_option (action_directed cpu) a"
  by (cases a) (auto simp: other_cpu_def dest!: createAction_cases)

lemma load_actions_directed:
  "load_actions J (Some cpu) jActions js = Ret as \<Longrightarrow> list_all (pred_option (action_directed cpu)) as"
  by (induction js arbitrary: as) (auto simp: outcome_eqs dest: createAction_directed)

lemma load_rules_directed:
  "load_rules J X (Some cpu) jRules js rules = Ret rules' \<Longrightarrow> rules_directed cpu rules \<Longrightarrow> rules_directed cpu rules'"
proof (induction js arbitrary: rules)
  case (Cons i js)
  from Cons.prems(1) obtain jRule rule where
    r: "createRule J X jRule = Ret rule" and
    go: "(case rule of None \<Rightarrow> load_rules J X (Some cpu) jRules js rules
        | Some rule \<Rightarrow> obind (json_member J jRule ''actions'') (\<lambda>jActions.
            obind (load_actions J (Some cpu) jActions [0..<json_size J jActions]) (\<lambda>actions.
              load_rules J X (Some cpu) jRules js (rules @ [rule\<lparr>m_actions := actions\<rparr>])))) = Ret rules'"
    by (auto simp: outcome_eqs)
  show ?case
  proof (cases rule)
    case None
    then show ?thesis using go Cons.IH Cons.prems(2) by simp
  next
    case (Some r')
    then obtain jActions actions where
      a: "load_actions J (Some cpu) jActions [0..<json_size J jActions] = Ret actions" and
      l: "load_rules J X (Some cpu) jRules js (rules @ [r'\<lparr>m_actions := actions\<rparr>]) = Ret rules'"
      using go by (auto simp: outcome_eqs)
    have "rules_directed cpu (rules @ [r'\<lparr>m_actions := actions\<rparr>])"
      using Cons.prems(2) load_actions_directed [OF a] by (simp add: rules_directed_def)
    then show ?thesis by (rule Cons.IH [OF l])
  qed
qed simp

lemma loadCPUConfig_directed:
  assumes "loadCPUConfig J X file cpu e = Ret (b, e')" and "directed e"
  shows "directed e'"
proof (cases "file")
  case None
  then show ?thesis using assms by (auto simp: loadCPUConfig_def directed_def)
next
  case (Some v)
  show ?thesis
  proof (cases cpu)
    case MCPU
    show ?thesis using assms(1) unfolding loadCPUConfig_def Let_def Some MCPU option.case cpu_ref.case
      by (elim obind_RetE)
         (use assms(2) in \<open>auto simp: directed_def dest: createAction_directed load_rules_directed\<close>)
  next
    case VCPU
    show ?thesis using assms(1) unfolding loadCPUConfig_def Let_def Some VCPU option.case cpu_ref.case
      by (elim obind_RetE)
         (use assms(2) in \<open>auto simp: directed_def dest: createAction_directed load_rules_directed\<close>)
  qed
qed

lemma Emulator_start_directed:
  assumes "Emulator_start J X vf mf (Emulator_new c1 c2) = Ret e"
  shows "directed e"
proof -
  have "directed (Emulator_new c1 c2)" by (simp add: directed_def rules_directed_def Emulator_new_def)
  moreover obtain b1 e1 b2 e2 where
    "loadCPUConfig J X vf VCPU (Emulator_new c1 c2) = Ret (b1, e1)"
    "loadCPUConfig J X mf MCPU e1 = Ret (b2, e2)" "e = e2\<lparr>m_threads := True\<rparr>"
    using assms by (auto simp: Emulator_start_def outcome_eqs)
  ultimately have "directed e2" using loadCPUConfig_directed by blast
  then show ?thesis using \<open>e = e2\<lparr>m_threads := True\<rparr>\<close> by (simp add: directed_def)
qed

section \<open>The tasks\<close>

definition satisfied :: "'r regex_ops \<Rightarrow> 'r Rule list \<Rightarrow> InputEvent \<Rightarrow> Action option list" where
  "satisfied X rules event = concat (map m_actions (filter (\<lambda>r. RuleReceive_satisfy X r event) rules))"

lemma fold_push: "fold (\<lambda>a. push (ExecuteTask a ev)) as e =
    e\<lparr>m_workerThread := m_workerThread e @ map (\<lambda>a. ExecuteTask a ev) as\<rparr>"
  by (induction as arbitrary: e) (simp_all add: push_def)

lemma push_rules_eq: "push_rules X rules ev e =
    e\<lparr>m_workerThread := m_workerThread e @ map (\<lambda>a. ExecuteTask a ev) (satisfied X rules ev)\<rparr>"
  by (induction rules arbitrary: e) (simp_all add: fold_push satisfied_def)

text \<open>What one round that received a command does.\<close>

definition round_effect :: "cpu_ref \<Rightarrow> 'r regex_ops \<Rightarrow> 'r Rule list \<Rightarrow> InputEvent \<Rightarrow> ('c, 'r) Emulator \<Rightarrow> ('c, 'r) Emulator" where
  "round_effect cpu X rules ev e =
     e\<lparr>m_defaultActions := (m_defaultActions e)(cpu \<mapsto> (case m_defaultActions e cpu of None \<Rightarrow> None | Some a \<Rightarrow> a)),
       m_workerThread := m_workerThread e @ map (\<lambda>a. ExecuteTask a ev)
         (satisfied X rules ev @ [case m_defaultActions e cpu of None \<Rightarrow> None | Some a \<Rightarrow> a])\<rparr>"

lemma push_default_rules: "push_default cpu ev (push_rules X rules ev e) = round_effect cpu X rules ev e"
  by (auto simp: push_default_def push_rules_eq round_effect_def push_def fun_upd_idem split: option.split)

lemma mcpu_round:
  "mcpuThreadFunction C X e = Ret e' \<Longrightarrow>
   \<exists>r c. cpu_read C (m_mcpu e) = Ret (r, c) \<and>
     e' = (case r of None \<Rightarrow> e\<lparr>m_mcpu := c\<rparr>
           | Some (cmd, data) \<Rightarrow> round_effect MCPU X (m_mcpuRules e) \<lparr>ev_command = cmd, ev_data = data\<rparr> (e\<lparr>m_mcpu := c\<rparr>))"
  unfolding mcpuThreadFunction_def obind_eq_Ret push_default_rules createInputEvent_def Let_def
  by (elim exE conjE, rename_tac x, case_tac x, rename_tac r c, case_tac r)
     (simp_all add: case_prod_beta round_effect_def push_default_rules)

lemma vcpu_round:
  "vcpuInputThreadFunction C X e = Ret e' \<Longrightarrow>
   \<exists>r c. cpu_read C (m_vcpu e) = Ret (r, c) \<and>
     e' = (case r of None \<Rightarrow> e\<lparr>m_vcpu := c\<rparr>
           | Some (cmd, data) \<Rightarrow> round_effect VCPU X (m_vcpuRules e) \<lparr>ev_command = cmd, ev_data = data\<rparr> (e\<lparr>m_vcpu := c\<rparr>))"
  unfolding vcpuInputThreadFunction_def obind_eq_Ret push_default_rules createInputEvent_def Let_def
  by (elim exE conjE, rename_tac x, case_tac x, rename_tac r c, case_tac r)
     (simp_all add: case_prod_beta round_effect_def push_default_rules)

section \<open>Invariants\<close>

text \<open>No action is null: the rules, the default actions of both CPUs, and the tasks.\<close>

definition actions_created :: "('c, 'r) Emulator \<Rightarrow> bool" where
  "actions_created e \<longleftrightarrow>
     list_all (\<lambda>rule. None \<notin> set (m_actions rule)) (m_mcpuRules e @ m_vcpuRules e) \<and>
     m_defaultActions e MCPU \<notin> {None, Some None} \<and> m_defaultActions e VCPU \<notin> {None, Some None}"

fun task_ok :: "task \<Rightarrow> bool" where
  "task_ok (WriteTask c d) = True"
| "task_ok (ExecuteTask None ev) = False"
| "task_ok (ExecuteTask (Some a) ev) = (action_directed MCPU a \<or> action_directed VCPU a)"

definition sound :: "('c, 'r) Emulator \<Rightarrow> bool" where
  "sound e \<longleftrightarrow> directed e \<and> actions_created e \<and> list_all task_ok (m_workerThread e)"

lemma satisfied_ok:
  assumes "rules_directed cpu rules" and "list_all (\<lambda>rule. None \<notin> set (m_actions rule)) rules"
  shows "list_all task_ok (map (\<lambda>a. ExecuteTask a ev) (satisfied X rules ev))"
proof -
  have "\<exists>a'. a = Some a' \<and> action_directed cpu a'" if a: "a \<in> set (satisfied X rules ev)" for a
  proof -
    obtain r where "r \<in> set rules" "a \<in> set (m_actions r)" using a by (auto simp: satisfied_def)
    then show ?thesis using assms by (cases a) (force simp: rules_directed_def list_all_iff)+
  qed
  then show ?thesis by (cases cpu) (fastforce simp: list_all_iff)+
qed

lemma default_ok:
  assumes "directed e" and "actions_created e"
  shows "task_ok (ExecuteTask (case m_defaultActions e cpu of None \<Rightarrow> None | Some a \<Rightarrow> a) ev)"
  using assms by (cases cpu) (auto simp: directed_def actions_created_def)

lemma round_effect_sound:
  assumes "sound e" and "rules = (case cpu of MCPU \<Rightarrow> m_mcpuRules e | VCPU \<Rightarrow> m_vcpuRules e)"
  shows "sound (round_effect cpu X rules ev e)"
proof -
  have "rules_directed cpu rules" and "list_all (\<lambda>rule. None \<notin> set (m_actions rule)) rules"
    using assms by (cases cpu; simp add: sound_def directed_def actions_created_def)+
  note ok = satisfied_ok [OF this] default_ok [of e cpu]
  have "m_defaultActions e cpu = Some (case m_defaultActions e cpu of None \<Rightarrow> None | Some a \<Rightarrow> a)"
    using assms(1) by (cases cpu) (auto simp: sound_def actions_created_def)
  then have same: "(m_defaultActions e)(cpu \<mapsto> (case m_defaultActions e cpu of None \<Rightarrow> None | Some a \<Rightarrow> a)) = m_defaultActions e"
    by (simp add: fun_upd_idem)
  show ?thesis using assms(1) ok unfolding sound_def round_effect_def same
    by (simp add: directed_def actions_created_def)
qed

lemma write_ref_state:
  assumes "write_ref C cpu command data e = Ret e'"
  shows "\<exists>c. e' = e\<lparr>m_mcpu := c\<rparr> \<or> e' = e\<lparr>m_vcpu := c\<rparr>"
  using assms by (auto simp: write_ref_def outcome_eqs split: option.splits cpu_ref.splits)

lemma run_task_sound:
  assumes "run_task C t e = Ret e'" and "sound e"
  shows "sound e'"
proof -
  have cpu: "sound (e\<lparr>m_mcpu := c\<rparr>)" "sound (e\<lparr>m_vcpu := c\<rparr>)" "sound (e\<lparr>m_log := l\<rparr>)" for c l
    using assms(2) by (simp_all add: sound_def directed_def actions_created_def)
  have w: "write_ref C r cm d e = Ret e' \<Longrightarrow> sound e'" for r cm d using write_ref_state cpu by metis
  show ?thesis
  proof (cases t)
    case (WriteTask c d)
    then show ?thesis using assms(1) w by simp
  next
    case (ExecuteTask a ev)
    then obtain a' where "a = Some a'" using assms(1) by (cases a) auto
    then show ?thesis using assms ExecuteTask w cpu(3) by (cases a') auto
  qed
qed

text \<open>A command line changes the repeaters and adds writes to the queue, and no more.\<close>

definition queued :: "('c, 'r) Emulator \<Rightarrow> ('c, 'r) Emulator \<Rightarrow> bool" where
  "queued e e' \<longleftrightarrow> (\<exists>r ts. e' = e\<lparr>m_repeaters := r, m_workerThread := m_workerThread e @ ts\<rparr> \<and> list_all task_ok ts)"

lemma queuedI: "e' = e\<lparr>m_repeaters := r, m_workerThread := m_workerThread e @ ts\<rparr> \<Longrightarrow> list_all task_ok ts \<Longrightarrow> queued e e'"
  unfolding queued_def by blast

lemma queued_calls:
  "queued e e"
  "queued e (Emulator_send c d e)"
  "queued e (Emulator_repeat n c d i e)"
  "queued e (Emulator_stoprepeat n e)"
  "queued e (Emulator_stoprepeat_all e)"
proof -
  show "queued e e" by (rule queuedI [where r = "m_repeaters e" and ts = "[]"]) simp_all
  show "queued e (Emulator_send c d e)"
    by (rule queuedI [where r = "m_repeaters e" and ts = "[WriteTask c d]"]) (simp_all add: Emulator_send_def push_def)
  show "queued e (Emulator_repeat n c d i e)"
    by (rule queuedI [where r = "m_repeaters (Emulator_repeat n c d i e)" and ts = "[]"]) (simp_all add: Emulator_repeat_def)
  show "queued e (Emulator_stoprepeat n e)"
    by (rule queuedI [where r = "m_repeaters (Emulator_stoprepeat n e)" and ts = "[]"]) (simp_all add: Emulator_stoprepeat_def)
  show "queued e (Emulator_stoprepeat_all e)"
    by (rule queuedI [where r = Map.empty and ts = "[]"]) (simp_all add: Emulator_stoprepeat_all_def)
qed

lemma cli_command_queued:
  assumes "obind (commandFromString s (0, 0)) (\<lambda>(commandParsed, command).
      if commandParsed then omap (\<lambda>data. f command data) (cli_data tokens) else Ret e) = Ret e'"
    and "\<And>command data. queued e (f command data)"
  shows "queued e e'"
  using assms(1) by (elim obind_RetE) (auto simp: omap_eq_Ret assms(2) queued_calls(1) split: if_splits)

lemma cli_send_queued: "cli_send tokens e = Ret e' \<Longrightarrow> queued e e'"
  by (cases tokens) (auto simp: cli_send_def queued_calls elim!: cli_command_queued)

lemma cli_repeat_queued:
  assumes "cli_repeat tokens e = Ret e'"
  shows "queued e e'"
proof (cases "\<exists>name interval rest. tokens = name # interval # rest")
  case False
  then show ?thesis using assms queued_calls(1) by (auto simp: cli_repeat_def split: list.splits)
next
  case True
  then obtain name interval rest where t: "tokens = name # interval # rest" by blast
  show ?thesis
  proof (cases rest)
    case Nil
    then show ?thesis using assms queued_calls(1) unfolding cli_repeat_def t by (auto elim!: obind_RetE)
  next
    case (Cons c rest')
    show ?thesis using assms unfolding cli_repeat_def t Cons list.case Let_def
      by (elim obind_RetE [of "if _ then _ else _"] if_eqE [of "_ = 0"])
         (auto simp: queued_calls elim!: cli_command_queued)
  qed
qed

lemma cli_handler_queued:
  assumes "cli_handler input e = Ret e'"
  shows "queued e e'"
proof (cases "tokenize input CHR '' ''")
  case Nil
  then show ?thesis using assms queued_calls(1) by (simp add: cli_handler_def)
next
  case (Cons what tokens)
  have stop: "Ret (case tokens of [] \<Rightarrow> Emulator_stoprepeat_all e | name # _ \<Rightarrow> Emulator_stoprepeat name e) = Ret e' \<Longrightarrow>
      queued e e'"
    using queued_calls(4,5) by (cases tokens) auto
  have same: "Ret e = Ret e' \<Longrightarrow> queued e e'" using queued_calls(1) by auto
  show ?thesis using assms unfolding cli_handler_def Cons list.case
    by (elim if_eqE) (erule cli_send_queued, erule cli_repeat_queued, erule stop, erule same)
qed

lemma queued_sound: "queued e e' \<Longrightarrow> sound e \<Longrightarrow> sound e'"
  by (auto simp: queued_def sound_def directed_def actions_created_def)

lemma emulator_step_sound:
  assumes "emulator_step C X ev e = Ret e'" and "sound e"
  shows "sound e'"
proof -
  have cpu: "sound (e\<lparr>m_mcpu := c\<rparr>)" "sound (e\<lparr>m_vcpu := c\<rparr>)" for c
    using assms(2) by (simp_all add: sound_def directed_def actions_created_def)
  show ?thesis
  proof (cases ev)
    case (Input r)
    show ?thesis
    proof (cases r)
      case MCPU
      then obtain v c where "e' = (case v of None \<Rightarrow> e\<lparr>m_mcpu := c\<rparr>
           | Some (cmd, data) \<Rightarrow> round_effect MCPU X (m_mcpuRules e) \<lparr>ev_command = cmd, ev_data = data\<rparr> (e\<lparr>m_mcpu := c\<rparr>))"
        using assms(1) Input mcpu_round [of C X e e'] by auto
      then show ?thesis using cpu(1) round_effect_sound [OF cpu(1), where cpu = MCPU and rules = "m_mcpuRules e"] by (cases v) auto
    next
      case VCPU
      then obtain v c where "e' = (case v of None \<Rightarrow> e\<lparr>m_vcpu := c\<rparr>
           | Some (cmd, data) \<Rightarrow> round_effect VCPU X (m_vcpuRules e) \<lparr>ev_command = cmd, ev_data = data\<rparr> (e\<lparr>m_vcpu := c\<rparr>))"
        using assms(1) Input vcpu_round [of C X e e'] by auto
      then show ?thesis using cpu(2) round_effect_sound [OF cpu(2), where cpu = VCPU and rules = "m_vcpuRules e"] by (cases v) auto
    qed
  next
    case (Work i)
    let ?e = "e\<lparr>m_workerThread := take i (m_workerThread e) @ drop (Suc i) (m_workerThread e)\<rparr>"
    have "sound ?e" using assms(2)
      by (auto simp: sound_def directed_def actions_created_def list_all_iff dest: in_set_takeD in_set_dropD)
    then show ?thesis using assms Work run_task_sound [of C _ ?e e'] by (auto split: if_splits)
  next
    case (Fire name)
    then show ?thesis using assms by (auto intro: queued_sound [OF queued_calls(2)] split: option.splits)
  next
    case (Cli input)
    then show ?thesis using assms cli_handler_queued queued_sound by fastforce
  qed
qed

lemma emulator_run_sound: "emulator_run C X evs e = Ret e' \<Longrightarrow> sound e \<Longrightarrow> sound e'"
  by (induction evs arbitrary: e) (auto elim!: obind_RetE dest: emulator_step_sound)

lemma start_sound:
  assumes "Emulator_start J X vf mf (Emulator_new c1 c2) = Ret e" and "actions_created e"
  shows "sound e"
proof -
  have "m_workerThread e = []" using assms(1)
    by (auto simp: Emulator_start_def loadCPUConfig_def Let_def Emulator_new_def elim!: obind_RetE
        split: option.splits)
  then show ?thesis using Emulator_start_directed [OF assms(1)] assms(2) by (simp add: sound_def)
qed

section \<open>The tasks of the worker\<close>

text \<open>The bytes a task writes.\<close>

fun task_bytes :: "task \<Rightarrow> nat" where
  "task_bytes (WriteTask c d) = length d"
| "task_bytes (ExecuteTask (Some (ActionSend c d r)) ev) = length d"
| "task_bytes (ExecuteTask (Some (ActionReplace c d r)) ev) = length d"
| "task_bytes (ExecuteTask (Some (ActionResend r)) ev) = length (ev_data ev)"
| "task_bytes _ = 0"

definition both_ready :: "('c \<Rightarrow> bool) \<Rightarrow> ('c, 'r) Emulator \<Rightarrow> bool" where
  "both_ready ready e \<longleftrightarrow> ready (Emulator.m_mcpu e) \<and> ready (Emulator.m_vcpu e)"

lemma both_ready_log [simp]: "both_ready r (e\<lparr>m_log := l\<rparr>) = both_ready r e"
  by (simp add: both_ready_def)

context icpu
begin

lemma write_ref_no_throw:
  assumes "r \<noteq> None" and "length d < 2 ^ 32 - 3" and "ready (Emulator.m_mcpu e)" and "ready (Emulator.m_vcpu e)"
  shows "write_ref C r c d e \<noteq> Throw x"
  using assms write_throws by (auto simp: write_ref_def omap_eq_Throw split: option.splits cpu_ref.splits)

lemma task_no_throw:
  assumes "task_ok t" and "task_bytes t < 2 ^ 32 - 3" and "ready (Emulator.m_mcpu e)" and "ready (Emulator.m_vcpu e)"
  shows "run_task C t e \<noteq> Throw x"
proof (cases t)
  case (WriteTask c d)
  show ?thesis using assms unfolding WriteTask by (simp add: write_ref_no_throw)
next
  case (ExecuteTask a ev)
  then obtain a' where a: "a = Some a'" using assms(1) by (cases a) auto
  show ?thesis using assms unfolding ExecuteTask a by (cases a') (auto simp: write_ref_no_throw)
qed

lemma write_ref_ready: "write_ref C r c d e = Ret e' \<Longrightarrow> both_ready ready e \<Longrightarrow> both_ready ready e'"
  by (auto simp: write_ref_def both_ready_def omap_eq_Ret dest: write_ready split: option.splits cpu_ref.splits)

lemma run_task_ready:
  assumes "run_task C t e = Ret e'" and "both_ready ready e"
  shows "both_ready ready e'"
proof (cases t)
  case (WriteTask c d)
  show ?thesis using assms unfolding WriteTask by (auto dest: write_ref_ready)
next
  case (ExecuteTask a ev)
  then obtain a' where a: "a = Some a'" using assms(1) by (cases a) auto
  show ?thesis using assms unfolding ExecuteTask a by (cases a') (auto dest: write_ref_ready)
qed

lemma emulator_step_both_ready:
  assumes "emulator_step C X ev e = Ret e'" and "both_ready ready e"
  shows "both_ready ready e'"
proof (cases ev)
  case (Input r)
  then show ?thesis using assms read_ready
    by (cases r) (auto dest!: mcpu_round vcpu_round simp: both_ready_def round_effect_def split: option.splits)
next
  case (Work i)
  let ?e = "e\<lparr>m_workerThread := take i (m_workerThread e) @ drop (Suc i) (m_workerThread e)\<rparr>"
  have "both_ready ready ?e" using assms(2) by (simp add: both_ready_def)
  then show ?thesis using assms Work run_task_ready [of _ ?e e'] by (auto split: if_splits)
next
  case (Fire name)
  then show ?thesis using assms by (auto simp: both_ready_def Emulator_send_def push_def split: option.splits)
next
  case (Cli input)
  then show ?thesis using assms cli_handler_queued [of input e e'] by (auto simp: both_ready_def queued_def)
qed

lemma emulator_run_both_ready: "emulator_run C X evs e = Ret e' \<Longrightarrow> both_ready ready e \<Longrightarrow> both_ready ready e'"
  by (induction evs arbitrary: e) (auto elim!: obind_RetE dest: emulator_step_both_ready)

lemma emulator_tasks_no_throw:
  assumes "emulator_run C X evs e = Ret e'" and "sound e" and "both_ready ready e"
    and "t \<in> set (m_workerThread e')" and "task_bytes t < 2 ^ 32 - 3"
  shows "run_task C t e' \<noteq> Throw x"
proof -
  have "task_ok t" using emulator_run_sound [OF assms(1,2)] assms(4) by (auto simp: sound_def list_all_iff)
  then show ?thesis using emulator_run_both_ready [OF assms(1,3)] assms(5)
    by (intro task_no_throw) (auto simp: both_ready_def)
qed

end

lemma start_cpus:
  assumes "Emulator_start J X vf mf (Emulator_new c1 c2) = Ret e"
  shows "Emulator.m_mcpu e = c1 \<and> Emulator.m_vcpu e = c2"
  using assms by (auto simp: Emulator_start_def loadCPUConfig_def Let_def Emulator_new_def elim!: obind_RetE
        split: option.splits)

lemma cli_handler_send:
  "cli_handler (''send '' @ command_text command @ '' '' @ data_text data) e =
     Ret (e\<lparr>m_workerThread := m_workerThread e @ [WriteTask command data]\<rparr>)"
proof -
  have rest: "tokenize (data_text data) CHR '' '' = (if data = [] then [] else [data_text data])"
    using tokenize_last [OF data_text_no_blank, of data]
    by (cases data) (auto simp: data_text_def tokenize.simps [of "[]"] hex1_props(4))
  have t: "tokenize (''send '' @ command_text command @ '' '' @ data_text data) CHR '' '' =
      ''send'' # command_text command # (if data = [] then [] else [data_text data])"
    using tokenize_append [of "CHR '' ''" "''send''" "command_text command @ '' '' @ data_text data"]
      tokenize_append [OF command_text_no_blank, of command "data_text data"] rest by simp
  have "cli_data (if data = [] then [] else [data_text data]) = Ret data"
    by (simp add: cli_data_def dataFromString_text)
  then show ?thesis
    unfolding cli_handler_def t by (simp add: cli_send_def commandFromString_text Emulator_send_def push_def)
qed

section \<open>Properties\<close>

text \<open>
  Libraries for the witnesses: a JSON value is a string, the value \<open>''config''\<close> has a default
  action that resends and no rules, and a pattern matches itself only.
\<close>

definition sample_json :: "string json_ops" where
  "sample_json = \<lparr>
     json_member = (\<lambda>j k. Ret (if k = ''type'' then ''resend'' else if k = ''default-action'' then ''action'' else [])),
     json_isString = (\<lambda>j. True), json_asString = Ret, json_size = (\<lambda>j. 0), json_elem = (\<lambda>j i. Ret [])\<rparr>"

definition literal_regex :: "string regex_ops" where
  "literal_regex = \<lparr>regex_compile = Some, regex_match = (\<lambda>text pattern. text = pattern)\<rparr>"

lemma sample_start:
  "Emulator_start sample_json X (Some ''config'') (Some ''config'') (Emulator_new c1 c2) =
    Ret \<lparr>m_threads = True, m_workerThread = [], m_mcpu = c1, m_vcpu = c2, m_currentCPU = Some MCPU,
      m_mcpuRules = [], m_vcpuRules = [], m_repeaters = Map.empty,
      m_defaultActions = [VCPU \<mapsto> Some (ActionResend (Some MCPU)), MCPU \<mapsto> Some (ActionResend (Some VCPU))],
      m_log = []\<rparr>"
  by (simp add: Emulator_start_def loadCPUConfig_def Let_def sample_json_def createAction_def other_cpu_def
      Emulator_new_def)



text \<open>
  C36: with patterns that are the texts of commands, a command received from the M-CPU queues the
  actions of the rules for just that command, in the order of the configuration, and then the
  default action.
\<close>

theorem emulator_dispatch:
  assumes "cpu_read C (Emulator.m_mcpu e) = Ret (Some (command, data), c)"
    and "m_defaultActions e MCPU = Some default_action"
    and "\<And>rule text. rule \<in> set (m_mcpuRules e) \<Longrightarrow>
           regex_match X text (m_pattern rule) \<longleftrightarrow> text = command_text (command_of rule)"
  shows "mcpuThreadFunction C X e = Ret (e\<lparr>m_mcpu := c, m_workerThread := m_workerThread e @
    map (\<lambda>action. ExecuteTask action \<lparr>ev_command = command, ev_data = data\<rparr>)
      (concat (map m_actions (filter (\<lambda>rule. command_of rule = command) (m_mcpuRules e))) @ [default_action])\<rparr>)"
proof -
  let ?ev = "\<lparr>ev_command = command, ev_data = data\<rparr>"
  have "filter (\<lambda>r. RuleReceive_satisfy X r ?ev) (m_mcpuRules e) = filter (\<lambda>r. command_of r = command) (m_mcpuRules e)"
    by (rule filter_cong [OF refl]) (auto simp: RuleReceive_satisfy_def assms(3) command_text_inj)
  then show ?thesis
    by (simp add: mcpuThreadFunction_def assms(1,2) push_default_rules createInputEvent_def Let_def
        round_effect_def satisfied_def fun_upd_idem)
qed

lemma emulator_dispatch_witness:
  "\<exists>e. mcpuThreadFunction script_cpu literal_regex
      ((Emulator_new [((1, 2), [3])] [] :: ((CpuCommand \<times> byte list) list, string) Emulator)\<lparr>m_defaultActions := [MCPU \<mapsto> Some ActionNop],
         m_mcpuRules := [\<lparr>m_pattern = command_text (4, 5), m_actions = [Some (ActionPrint ''a'')]\<rparr>,
                         \<lparr>m_pattern = command_text (1, 2), m_actions = [Some (ActionPrint ''b'')]\<rparr>]\<rparr>) = Ret e \<and>
    m_workerThread e = [ExecuteTask (Some (ActionPrint ''b'')) \<lparr>ev_command = (1, 2), ev_data = [3]\<rparr>,
                        ExecuteTask (Some ActionNop) \<lparr>ev_command = (1, 2), ev_data = [3]\<rparr>]"
proof -
  let ?e = "(Emulator_new [((1, 2), [3])] [] :: ((CpuCommand \<times> byte list) list, string) Emulator)\<lparr>m_defaultActions := [MCPU \<mapsto> Some ActionNop],
         m_mcpuRules := [\<lparr>m_pattern = command_text (4, 5), m_actions = [Some (ActionPrint ''a'')]\<rparr>,
                         \<lparr>m_pattern = command_text (1, 2), m_actions = [Some (ActionPrint ''b'')]\<rparr>]\<rparr>"
  let ?command_of = "\<lambda>rule :: string Rule. if m_pattern rule = command_text (1, 2) then (1, 2) else (4, 5) :: CpuCommand"
  have "mcpuThreadFunction script_cpu literal_regex ?e = Ret (?e\<lparr>m_mcpu := [], m_workerThread := m_workerThread ?e @
    map (\<lambda>action. ExecuteTask action \<lparr>ev_command = (1, 2), ev_data = [3]\<rparr>)
      (concat (map m_actions (filter (\<lambda>rule. ?command_of rule = (1, 2)) (m_mcpuRules ?e))) @ [Some ActionNop])\<rparr>)"
    by (rule emulator_dispatch) (auto simp: script_cpu_def Emulator_new_def literal_regex_def)
  then show ?thesis by (simp add: Emulator_new_def command_text_inj)
qed

text \<open>
  Without the configuration file of the M-CPU the first command received from it queues a null
  action, and running it is undefined.
\<close>

lemma emulator_missing_config:
  assumes "Emulator_start J X vcpuConfig None (Emulator_new mcpu vcpu) = Ret e"
    and "cpu_read C (Emulator.m_mcpu e) = Ret (Some (command, data), c)"
  shows "\<exists>e'. mcpuThreadFunction C X e = Ret e' \<and> m_workerThread e' \<noteq> [] \<and>
    run_task C (last (m_workerThread e')) e' = Throw Undefined_behaviour"
proof -
  have "m_defaultActions e MCPU = None" and "m_mcpuRules e = []" using assms(1)
    by (auto simp: Emulator_start_def loadCPUConfig_def Let_def Emulator_new_def elim!: obind_RetE
        split: option.splits)
  then show ?thesis
    by (simp add: mcpuThreadFunction_def assms(2) Let_def push_default_def push_def)
qed

text \<open>
  The command line \<open>send\<close> with the texts of a command and of its data queues exactly that
  write to the M-CPU.
\<close>

lemma cli_send_text:
  "cli_handler (''send '' @ command_text command @ '' '' @ data_text data) e =
     Ret (e\<lparr>m_workerThread := m_workerThread e @ [WriteTask command data]\<rparr>)"
  by (rule cli_handler_send)

end
