(* ===== verification/LogMessages.thy ===== *)
theory LogMessages
  imports CpuPrelude
begin

text \<open>
  What is logged: the identifiers and message formats of the daemon
  (\<^verbatim>\<open>CpuComDaemonLog.h\<close>, \<^verbatim>\<open>CpuComDaemonLog.cpp\<close>) and of the client libraries
  (\<^verbatim>\<open>libCpuCom.h\<close>, \<^verbatim>\<open>libCpuCom.cpp\<close>), and the calls that log. A call passes its arguments
  through \<^verbatim>\<open>...\<close>, so that no compiler compares them with the format: this is done here. The log
  itself, with its function identifiers and the displays of arguments, is not under \<^verbatim>\<open>src/\<close>.
\<close>

section \<open>Identifiers\<close>

text \<open>An enumeration is the list of its names, in order; the first has the value 1.\<close>

definition LogID :: "string list" where
  "LogID = [
    ''Started'', ''Stopped'', ''VPMerror'', ''ClientConnected'', ''ClientDisconnected'',
    ''ProcessingSendRequest'', ''ClientSubscribed'', ''ClientUnsubscribed'', ''ReceivingCommand'',
    ''OpenUARTDevice'', ''OpenSocketDevice'', ''Request'', ''Response'', ''CancelRequest'',
    ''ReceiveFrameBegin'', ''ReceiveFrameEnd'', ''SendFrameBegin'', ''SendFrameEnd'', ''LockDevice'',
    ''Enquiry'', ''WaitForACK'', ''ByteReceived'', ''Timeout'', ''FrameSent'', ''SendFrameFailed'',
    ''UnlockDevice'', ''WaitT5'', ''Retrying'', ''SendNAK'', ''WaitT6'', ''ProcessNextFrame'',
    ''SendDone'', ''Error'', ''WaitForControlCode'', ''WaitForENQ'', ''ReceiveEnquiryENQ'',
    ''ReceiveEnquiryNAK'', ''ReceiveEnquiryByte'', ''SendACK'', ''StartReceiveFrame'',
    ''ReceivedExtLen'', ''FrameLength'', ''Denying'', ''ReceiveCommand'', ''ExtendedLength'',
    ''ReceiveFrameNumber'', ''FrameReceived'', ''ChecksumOK'', ''ChecksumDoesNotMatch'',
    ''ReceiveDone'', ''ReceiveProcessNextFrame'']"

definition ErrorLogID :: "string list" where
  "ErrorLogID = [
    ''RecieveCommunicationErrorRecovery'', ''SendCommunicationErrorRecovery'',
    ''SendMaxRetryCountRecovery'', ''sendReenquiry_writeError'', ''sendReenquiry_readError'',
    ''sendAcknowledgement_ackConflict_Busy'', ''sendAcknowledgement_ackConflict_Wait'',
    ''sendAcknowledgement_ackConflict_Deny'', ''sendAcknowledgement_timeout'',
    ''sendAcknowledgement_readError'', ''sendFrame_writeError'', ''sendNak_writeError'',
    ''sendRetry_Error'', ''recvChecksum_Mismatch'', ''recvChecksum_Timeout'', ''recvChecksum_Error'',
    ''recvEnquiry_Nak'', ''recvEnquiry_Deny'', ''recvEnquiry_Timeout'', ''recvEnquiry_Error'',
    ''recvControlCode_Deny'', ''recvControlCode_Timeout'', ''recvControlCode_Error'',
    ''recvPoll_Error'', ''recvLength_Deny'', ''recvLength_Timeout'', ''recvLength_Error'',
    ''recvDataCommand_Timeout'', ''recvDataCommand_Error'', ''recvDataExtLen_Timeout'',
    ''recvDataExtLen_Error'', ''recvDataFrameNumber_Timeout'', ''recvDataFrameNumber_Error'',
    ''recvData_Timeout'', ''recvData_Error'', ''recvRetry_Error'', ''recvNak'', ''recvError'']"

definition lib_LogID :: "string list" where
  "lib_LogID = [
    ''ConnectedToDaemon'', ''CouldNotConnectToDaemon'', ''WrongCommandResultMessageSize'',
    ''WrongNotificationMessageSize'', ''Disconnected'', ''ConnectionClosed'',
    ''NotifyClientConnectionClosed'', ''ResubscribeAndResume'', ''Request'', ''RequestSent'',
    ''Response'', ''ResponseDropped'', ''ResponseDelivered'', ''CancelRequest'',
    ''SendWithDeliveryConfirmation'', ''DeliveryStatusProvided'', ''DeliveryStatusDropped'', ''Send'',
    ''Receive'', ''SendFailed'', ''NotificationsThreadFunctionPoolHup'',
    ''NotificationsThreadFunctionPoolHupStopFd'', ''NotificationsThreadFunctionStopRequest'']"

section \<open>Formats\<close>

text \<open>The functions that log, and the displays, as their constructors are given in the code.\<close>

datatype FunctionID = cpuc_daemon | cpuc_daemon_error | cpuc_lib

datatype DisplayType = DisplayTypeBool string | DisplayTypeDecInt32 string | DisplayTypeDecUInt64 string
  | DisplayTypeHexUInt8 string | DisplayTypeString nat string

type_synonym LogMessageFormats = "(string \<times> string \<times> DisplayType list) list"

definition line :: "string \<Rightarrow> string" where
  "line s = s @ [CHR 0x0A]"

definition cpuComDaemonLogMessages :: LogMessageFormats where
  "cpuComDaemonLogMessages = [
    (''Started'', line ''Started'', []),
    (''Stopped'', line ''Stopped'', []),
    (''VPMerror'', line ''VPM returned nullptr to ICpuComClient'', []),
    (''ClientConnected'', line ''Client connected - %d'', [DisplayTypeDecInt32 ''FileDescriptor'']),
    (''ClientDisconnected'', line ''Client disconnected - %d'', [DisplayTypeDecInt32 ''FileDescriptor'']),
    (''ProcessingSendRequest'', line ''Processing send command request: [%02x,%02x]'', [DisplayTypeHexUInt8 ''Command'', DisplayTypeHexUInt8 ''Subcommand'']),
    (''ClientSubscribed'', line ''Subscribed %d to [%02x,%02x]'', [DisplayTypeDecInt32 ''FileDescriptor'', DisplayTypeHexUInt8 ''Command'', DisplayTypeHexUInt8 ''Subcommand'']),
    (''ClientUnsubscribed'', line ''Unsubscribed %d from [%02x,%02x]'', [DisplayTypeDecInt32 ''FileDescriptor'', DisplayTypeHexUInt8 ''Command'', DisplayTypeHexUInt8 ''Subcommand'']),
    (''ReceivingCommand'', line ''Receiving [%02x,%02x]. data size = %lu. dispatching...'', [DisplayTypeHexUInt8 ''Command'', DisplayTypeHexUInt8 ''Subcommand'', DisplayTypeDecUInt64 ''Size'']),
    (''OpenUARTDevice'', line ''Open UART device: %s'', [DisplayTypeString 7 ''Result'']),
    (''OpenSocketDevice'', line ''Open Socket device: %s'', [DisplayTypeString 7 ''Result'']),
    (''Request'', line ''Request received: %s'', [DisplayTypeString 36 ''Request ID'']),
    (''Response'', line ''Respond to request: %s'', [DisplayTypeString 36 ''Request ID'']),
    (''CancelRequest'', line ''Cancel request: %s'', [DisplayTypeString 36 ''Request ID'']),
    (''ReceiveFrameBegin'', ''<RECV '', []),
    (''ReceiveFrameEnd'', line ''RECV>'', []),
    (''SendFrameBegin'', ''<SEND[%02x,%02x] '', [DisplayTypeHexUInt8 ''Command'', DisplayTypeHexUInt8 ''Subcommand'']),
    (''SendFrameEnd'', line ''SEND>'', []),
    (''LockDevice'', ''lock device -> '', []),
    (''Enquiry'', ''ENQ -> '', []),
    (''WaitForACK'', ''wait for ACK(06) -> '', []),
    (''ByteReceived'', ''received %02x -> '', [DisplayTypeHexUInt8 ''Data'']),
    (''Timeout'', ''timeout -> '', []),
    (''FrameSent'', ''[frame] -> '', []),
    (''SendFrameFailed'', ''failed to send frame -> '', []),
    (''UnlockDevice'', ''unlock device -> '', []),
    (''WaitT5'', ''wait T5 -> '', []),
    (''Retrying'', ''retrying -> '', []),
    (''SendNAK'', ''NAK -> '', []),
    (''WaitT6'', ''wait T6 -> '', []),
    (''ProcessNextFrame'', ''done. process next frame -> '', []),
    (''SendDone'', ''done -> '', []),
    (''Error'', ''error -> '', []),
    (''WaitForControlCode'', ''wait for %s(%02x) -> '', [DisplayTypeString 3 ''Name of code'', DisplayTypeHexUInt8 ''Code'']),
    (''WaitForENQ'', ''wait for ENQ(05) -> '', []),
    (''ReceiveEnquiryENQ'', ''received %d byte(s) of data. the last one is ENQ -> '', [DisplayTypeDecInt32 ''Length'']),
    (''ReceiveEnquiryNAK'', ''received %d byte(s) of data. the last one is NAK -> '', [DisplayTypeDecInt32 ''Length'']),
    (''ReceiveEnquiryByte'', ''received %d byte(s) of data. the last one is %02x -> '', [DisplayTypeDecInt32 ''Length'', DisplayTypeHexUInt8 ''Last data'']),
    (''SendACK'', ''send ACK -> '', []),
    (''StartReceiveFrame'', ''start receive frame -> '', []),
    (''ReceivedExtLen'', ''received EXT_LEN -> '', []),
    (''FrameLength'', ''frame length - %d bytes -> '', [DisplayTypeDecInt32 ''Length'']),
    (''Denying'', ''received %02x, denying -> '', [DisplayTypeHexUInt8 ''Length'']),
    (''ReceiveCommand'', ''command - [%02x,%02x] -> '', [DisplayTypeHexUInt8 ''Command'', DisplayTypeHexUInt8 ''Subcommand'']),
    (''ExtendedLength'', ''extended length - %d bytes -> '', [DisplayTypeDecInt32 ''Length'']),
    (''ReceiveFrameNumber'', ''current frame - %d, frames total - %d -> '', [DisplayTypeDecInt32 ''Current frame'', DisplayTypeDecInt32 ''Total frame'']),
    (''FrameReceived'', ''frame received -> '', []),
    (''ChecksumOK'', ''checksum ok(%02x) -> '', [DisplayTypeHexUInt8 ''Checksum'']),
    (''ChecksumDoesNotMatch'', ''checksum does not match. expected - %02x, received - %02x -> '', [DisplayTypeHexUInt8 ''Expected'', DisplayTypeHexUInt8 ''Received'']),
    (''ReceiveDone'', ''done -> '', []),
    (''ReceiveProcessNextFrame'', ''done. process next frame -> '', [])]"

definition cpuComDaemonLogErrorMessages :: LogMessageFormats where
  "cpuComDaemonLogErrorMessages = [
    (''RecieveCommunicationErrorRecovery'', ''recieve communication error'', []),
    (''SendCommunicationErrorRecovery'', ''send communication error'', []),
    (''SendMaxRetryCountRecovery'', ''retry count == %d, reopening UART device: result = %d'', [DisplayTypeDecInt32 ''MaxRetryCount'', DisplayTypeBool ''Result'']),
    (''sendReenquiry_writeError'', ''sendReenquiry_writeError'', []),
    (''sendReenquiry_readError'', ''sendReenquiry_readError'', []),
    (''sendAcknowledgement_ackConflict_Busy'', ''sendAcknowledgement_ackConflict_Busy'', []),
    (''sendAcknowledgement_ackConflict_Wait'', ''sendAcknowledgement_ackConflict_Wait'', []),
    (''sendAcknowledgement_ackConflict_Deny'', ''sendAcknowledgement_ackConflict_Deny: data %02x'', [DisplayTypeHexUInt8 ''expected'']),
    (''sendAcknowledgement_timeout'', ''sendAcknowledgement_timeout'', []),
    (''sendAcknowledgement_readError'', ''sendAcknowledgement_readError'', []),
    (''sendFrame_writeError'', ''sendFrame_writeError'', []),
    (''sendNak_writeError'', ''sendNak_writeError'', []),
    (''sendRetry_Error'', ''sendRetry_Error'', []),
    (''recvChecksum_Mismatch'', ''recvChecksum_Mismatch: expected %02x, received %02x'', [DisplayTypeHexUInt8 ''Expected'', DisplayTypeHexUInt8 ''Received'']),
    (''recvChecksum_Timeout'', ''recvChecksum_Timeout'', []),
    (''recvChecksum_Error'', ''recvChecksum_Error'', []),
    (''recvEnquiry_Nak'', ''recvEnquiry_Nak: bytesRead %d'', [DisplayTypeDecInt32 ''MaxRetryCount'']),
    (''recvEnquiry_Deny'', ''recvEnquiry_Deny: bytesRead %d, value %02x '', [DisplayTypeDecInt32 ''MaxRetryCount'', DisplayTypeHexUInt8 ''value'']),
    (''recvEnquiry_Timeout'', ''recvEnquiry_Timeout'', []),
    (''recvEnquiry_Error'', ''recvEnquiry_Error'', []),
    (''recvControlCode_Deny'', ''recvControlCode_Deny: expected %02x, received %02x'', [DisplayTypeHexUInt8 ''expected'', DisplayTypeHexUInt8 ''received'']),
    (''recvControlCode_Timeout'', ''recvControlCode_Timeout'', []),
    (''recvControlCode_Error'', ''recvControlCode_Error'', []),
    (''recvPoll_Error'', ''recvPoll_Error'', []),
    (''recvLength_Deny'', ''recvLength_Deny: frameLength %02x'', [DisplayTypeHexUInt8 ''frameLength'']),
    (''recvLength_Timeout'', ''recvLength_Timeout'', []),
    (''recvLength_Error'', ''recvLength_Error'', []),
    (''recvDataCommand_Timeout'', ''recvDataCommand_Timeout'', []),
    (''recvDataCommand_Error'', ''recvDataCommand_Error'', []),
    (''recvDataExtLen_Timeout'', ''recvDataExtLen_Timeout'', []),
    (''recvDataExtLen_Error'', ''recvDataExtLen_Error'', []),
    (''recvDataFrameNumber_Timeout'', ''recvDataFrameNumber_Timeout'', []),
    (''recvDataFrameNumber_Error'', ''recvDataFrameNumber_Error'', []),
    (''recvData_Timeout'', ''recvData_Timeout'', []),
    (''recvData_Error'', ''recvData_Error'', []),
    (''recvRetry_Error'', ''recvRetry_Error'', []),
    (''recvNak'', ''recvNak'', []),
    (''recvError'', ''recvError'', [])]"

definition lib_logMessages :: LogMessageFormats where
  "lib_logMessages = [
    (''ConnectedToDaemon'', line ''Connected to CpuComDaemon with fd = %d'', [DisplayTypeDecInt32 ''FileDescriptor'']),
    (''CouldNotConnectToDaemon'', line ''Could not connect to CpuComDaemon's socket(%s)'', [DisplayTypeString 6 ''Socket'']),
    (''WrongCommandResultMessageSize'', line ''Wrong command result message size'', []),
    (''WrongNotificationMessageSize'', line ''Wrong notification message size'', []),
    (''Disconnected'', line ''Disconnected from daemon'', []),
    (''ConnectionClosed'', line ''Connection with daemon has been closed unexpectedly'', []),
    (''NotifyClientConnectionClosed'', line ''Call onConnectionClosed callback'', []),
    (''ResubscribeAndResume'', line ''Resubscribe and resume'', []),
    (''Request'', line ''Request            %s'', [DisplayTypeString 36 ''Request ID'']),
    (''RequestSent'', line ''Send request       %s'', [DisplayTypeString 36 ''Request ID'']),
    (''Response'', line ''Response for       %s'', [DisplayTypeString 36 ''Request ID'']),
    (''ResponseDropped'', line ''Response dropped   %s'', [DisplayTypeString 36 ''Request ID'']),
    (''ResponseDelivered'', line ''Response delivered %s'', [DisplayTypeString 36 ''Request ID'']),
    (''CancelRequest'', line ''Cancel request     %s'', [DisplayTypeString 36 ''Request ID'']),
    (''SendWithDeliveryConfirmation'', line ''Send [%02x,%02x] and confirm delivery  id = %s'', [DisplayTypeHexUInt8 ''Command'', DisplayTypeHexUInt8 ''Subcommand'', DisplayTypeString 36 ''Request ID'']),
    (''DeliveryStatusProvided'', line ''Delivery status provided to the caller id = %s'', [DisplayTypeString 36 ''Request ID'']),
    (''DeliveryStatusDropped'', line ''Delivery status dropped id =                %s'', [DisplayTypeString 36 ''Request ID'']),
    (''Send'', line ''Send        [%02x,%02x]'', [DisplayTypeHexUInt8 ''Command'', DisplayTypeHexUInt8 ''Subcommand'']),
    (''Receive'', line ''Receive     [%02x,%02x]'', [DisplayTypeHexUInt8 ''Command'', DisplayTypeHexUInt8 ''Subcommand'']),
    (''SendFailed'', line ''Send failed [%02x,%02x]'', [DisplayTypeHexUInt8 ''Command'', DisplayTypeHexUInt8 ''Subcommand'']),
    (''NotificationsThreadFunctionPoolHup'', line ''NotificationsThreadFunction: Received POOLHUP'', []),
    (''NotificationsThreadFunctionPoolHupStopFd'', line ''NotificationsThreadFunction: Received POOLHUP. StopFd'', []),
    (''NotificationsThreadFunctionStopRequest'', line ''NotificationsThreadFunction: Stop request'', [])]"

text \<open>The formats that are in force, for each function, and what starting and ending a program does to them.\<close>

type_synonym registry = "FunctionID \<rightharpoonup> LogMessageFormats"

definition InitializeCpuComLogMessages :: "registry \<Rightarrow> registry" where
  "InitializeCpuComLogMessages r =
     r(cpuc_daemon \<mapsto> cpuComDaemonLogMessages, cpuc_daemon_error \<mapsto> cpuComDaemonLogErrorMessages)"

definition TerminateCpuComLogMessages :: "registry \<Rightarrow> registry" where
  "TerminateCpuComLogMessages r = r(cpuc_daemon := None, cpuc_daemon_error := None)"

definition InitializeLibCpuComLogMessages :: "registry \<Rightarrow> registry" where
  "InitializeLibCpuComLogMessages r = r(cpuc_lib \<mapsto> lib_logMessages)"

definition TerminateLibCpuComLogMessages :: "registry \<Rightarrow> registry" where
  "TerminateLibCpuComLogMessages r = r(cpuc_lib := None)"

section \<open>Calls\<close>

text \<open>A call: the method it is in, the function, the identifier, and the types of the arguments.\<close>

datatype ArgType = Arg_uint8 | Arg_int32 | Arg_uint32 | Arg_bool | Arg_text

type_synonym log_call = "string \<times> FunctionID \<times> string \<times> ArgType list"

definition send_log_calls :: "log_call list" where
  "send_log_calls = [
    (''send'', cpuc_daemon, ''SendFrameBegin'', [Arg_uint8, Arg_uint8]),
    (''send'', cpuc_daemon, ''SendFrameEnd'', []),
    (''sendEnquiry'', cpuc_daemon, ''LockDevice'', []),
    (''sendReenquiry'', cpuc_daemon, ''Enquiry'', []),
    (''sendReenquiry'', cpuc_daemon_error, ''sendReenquiry_writeError'', []),
    (''sendReenquiry'', cpuc_daemon_error, ''sendReenquiry_readError'', []),
    (''sendAcknowledgement'', cpuc_daemon, ''WaitForACK'', []),
    (''sendAcknowledgement'', cpuc_daemon, ''ByteReceived'', [Arg_uint8]),
    (''sendAcknowledgement'', cpuc_daemon_error, ''sendAcknowledgement_ackConflict_Busy'', []),
    (''sendAcknowledgement'', cpuc_daemon_error, ''sendAcknowledgement_ackConflict_Wait'', []),
    (''sendAcknowledgement'', cpuc_daemon_error, ''sendAcknowledgement_ackConflict_Deny'', [Arg_uint8]),
    (''sendAcknowledgement'', cpuc_daemon_error, ''sendAcknowledgement_timeout'', []),
    (''sendAcknowledgement'', cpuc_daemon, ''Timeout'', []),
    (''sendAcknowledgement'', cpuc_daemon_error, ''sendAcknowledgement_readError'', []),
    (''sendFrame'', cpuc_daemon, ''FrameSent'', []),
    (''sendFrame'', cpuc_daemon, ''SendFrameFailed'', []),
    (''sendFrame'', cpuc_daemon_error, ''sendFrame_writeError'', []),
    (''sendRetry'', cpuc_daemon, ''UnlockDevice'', []),
    (''sendRetry'', cpuc_daemon, ''WaitT5'', []),
    (''sendRetry'', cpuc_daemon, ''Retrying'', []),
    (''sendRetry'', cpuc_daemon_error, ''SendMaxRetryCountRecovery'', [Arg_int32, Arg_bool]),
    (''sendRetry'', cpuc_daemon_error, ''sendRetry_Error'', []),
    (''sendNak'', cpuc_daemon, ''SendNAK'', []),
    (''sendNak'', cpuc_daemon_error, ''sendNak_writeError'', []),
    (''sendWait'', cpuc_daemon, ''UnlockDevice'', []),
    (''sendWait'', cpuc_daemon, ''WaitT5'', []),
    (''sendDone'', cpuc_daemon, ''ProcessNextFrame'', []),
    (''sendDone'', cpuc_daemon, ''SendDone'', []),
    (''sendError'', cpuc_daemon_error, ''SendCommunicationErrorRecovery'', []),
    (''sendError'', cpuc_daemon, ''Error'', []),
    (''sendEnd'', cpuc_daemon, ''UnlockDevice'', [])]"

definition recv_log_calls :: "log_call list" where
  "recv_log_calls = [
    (''receive'', cpuc_daemon, ''ReceiveFrameBegin'', []),
    (''receive'', cpuc_daemon, ''ReceiveFrameEnd'', []),
    (''recvControlCode'', cpuc_daemon, ''WaitForControlCode'', [Arg_text, Arg_uint8]),
    (''recvControlCode'', cpuc_daemon, ''ByteReceived'', [Arg_uint8]),
    (''recvControlCode'', cpuc_daemon_error, ''recvControlCode_Deny'', [Arg_uint8, Arg_uint8]),
    (''recvControlCode'', cpuc_daemon_error, ''recvControlCode_Timeout'', []),
    (''recvControlCode'', cpuc_daemon_error, ''recvControlCode_Error'', []),
    (''recvPoll'', cpuc_daemon, ''WaitForENQ'', []),
    (''recvPoll'', cpuc_daemon, ''LockDevice'', []),
    (''recvPoll'', cpuc_daemon_error, ''recvPoll_Error'', []),
    (''recvRepoll'', cpuc_daemon, ''UnlockDevice'', []),
    (''recvEnquiry'', cpuc_daemon, ''ReceiveEnquiryENQ'', [Arg_uint32]),
    (''recvEnquiry'', cpuc_daemon_error, ''recvEnquiry_Nak'', [Arg_uint32]),
    (''recvEnquiry'', cpuc_daemon_error, ''recvEnquiry_Deny'', [Arg_uint32, Arg_uint8]),
    (''recvEnquiry'', cpuc_daemon_error, ''recvEnquiry_Timeout'', []),
    (''recvEnquiry'', cpuc_daemon_error, ''recvEnquiry_Error'', []),
    (''recvAcknowledgement'', cpuc_daemon, ''SendACK'', []),
    (''recvLength'', cpuc_daemon, ''StartReceiveFrame'', []),
    (''recvLength'', cpuc_daemon, ''ReceivedExtLen'', []),
    (''recvLength'', cpuc_daemon, ''FrameLength'', [Arg_uint8]),
    (''recvLength'', cpuc_daemon_error, ''recvLength_Deny'', [Arg_uint8]),
    (''recvLength'', cpuc_daemon_error, ''recvLength_Timeout'', []),
    (''recvLength'', cpuc_daemon_error, ''recvLength_Error'', []),
    (''recvDataCommand'', cpuc_daemon, ''ReceiveCommand'', [Arg_uint8, Arg_uint8]),
    (''recvDataCommand'', cpuc_daemon_error, ''recvDataCommand_Timeout'', []),
    (''recvDataCommand'', cpuc_daemon_error, ''recvDataCommand_Error'', []),
    (''recvDataExtLen'', cpuc_daemon_error, ''recvDataExtLen_Timeout'', []),
    (''recvDataExtLen'', cpuc_daemon_error, ''recvDataExtLen_Error'', []),
    (''recvDataExtLen'', cpuc_daemon, ''ExtendedLength'', [Arg_uint32]),
    (''recvDataFrameNumber'', cpuc_daemon_error, ''recvDataFrameNumber_Timeout'', []),
    (''recvDataFrameNumber'', cpuc_daemon_error, ''recvDataFrameNumber_Error'', []),
    (''recvDataFrameNumber'', cpuc_daemon, ''ReceiveFrameNumber'', [Arg_uint32, Arg_uint32]),
    (''recvData'', cpuc_daemon_error, ''recvData_Timeout'', []),
    (''recvData'', cpuc_daemon_error, ''recvData_Error'', []),
    (''recvData'', cpuc_daemon, ''FrameReceived'', []),
    (''recvChecksum'', cpuc_daemon, ''ChecksumOK'', [Arg_uint8]),
    (''recvChecksum'', cpuc_daemon_error, ''recvChecksum_Mismatch'', [Arg_uint8, Arg_uint8]),
    (''recvChecksum'', cpuc_daemon_error, ''recvChecksum_Timeout'', []),
    (''recvChecksum'', cpuc_daemon_error, ''recvChecksum_Error'', []),
    (''recvNak'', cpuc_daemon_error, ''recvNak'', []),
    (''recvRetry'', cpuc_daemon, ''Retrying'', []),
    (''recvRetry'', cpuc_daemon_error, ''recvRetry_Error'', []),
    (''recvDone'', cpuc_daemon, ''ReceiveDone'', []),
    (''recvDone'', cpuc_daemon, ''ReceiveProcessNextFrame'', []),
    (''recvError'', cpuc_daemon_error, ''recvError'', []),
    (''recvEnd'', cpuc_daemon, ''UnlockDevice'', [])]"

definition daemon_log_calls :: "log_call list" where
  "daemon_log_calls = [
    (''onReceiveCommand'', cpuc_daemon, ''Response'', [Arg_text]),
    (''onSubscribe'', cpuc_daemon, ''ClientSubscribed'', [Arg_int32, Arg_uint8, Arg_uint8]),
    (''onUnsubscribe'', cpuc_daemon, ''ClientUnsubscribed'', [Arg_int32, Arg_uint8, Arg_uint8]),
    (''onRequest'', cpuc_daemon, ''Request'', [Arg_text]),
    (''onCancelRequest'', cpuc_daemon, ''CancelRequest'', [Arg_text]),
    (''onCpuComDaemonStarted'', cpuc_daemon, ''Started'', []),
    (''onCpuComDaemonStarted'', cpuc_daemon, ''VPMerror'', []),
    (''onCpuComDaemonStopped'', cpuc_daemon, ''Stopped'', [])]"

definition client_v2_log_calls :: "log_call list" where
  "client_v2_log_calls = [
    (''CpuCom'', cpuc_lib, ''CancelRequest'', [Arg_text]),
    (''initialize'', cpuc_lib, ''NotifyClientConnectionClosed'', []),
    (''initialize'', cpuc_lib, ''ResubscribeAndResume'', []),
    (''send'', cpuc_lib, ''Send'', [Arg_uint8, Arg_uint8]),
    (''send'', cpuc_lib, ''SendWithDeliveryConfirmation'', [Arg_uint8, Arg_uint8, Arg_text]),
    (''request'', cpuc_lib, ''Request'', [Arg_text]),
    (''onNotification'', cpuc_lib, ''Receive'', [Arg_uint8, Arg_uint8]),
    (''onSendCommandResult'', cpuc_lib, ''SendFailed'', [Arg_uint8, Arg_uint8]),
    (''onRequestResponse'', cpuc_lib, ''Response'', [Arg_text]),
    (''onRequestResponse'', cpuc_lib, ''ResponseDelivered'', [Arg_text]),
    (''onRequestResponse'', cpuc_lib, ''ResponseDropped'', [Arg_text]),
    (''onDeliveryStatus'', cpuc_lib, ''DeliveryStatusProvided'', [Arg_text]),
    (''onDeliveryStatus'', cpuc_lib, ''DeliveryStatusDropped'', [Arg_text])]"

definition client_v1_log_calls :: "log_call list" where
  "client_v1_log_calls = [
    (''CpuComImpl'', cpuc_lib, ''ConnectedToDaemon'', [Arg_int32]),
    (''CpuComImpl'', cpuc_lib, ''CouldNotConnectToDaemon'', [Arg_text]),
    (''onNotification'', cpuc_lib, ''WrongNotificationMessageSize'', []),
    (''onSendCommandResult'', cpuc_lib, ''WrongCommandResultMessageSize'', []),
    (''notificationsThreadFunction'', cpuc_lib, ''NotificationsThreadFunctionPoolHup'', []),
    (''notificationsThreadFunction'', cpuc_lib, ''NotificationsThreadFunctionStopRequest'', []),
    (''notificationsThreadFunction'', cpuc_lib, ''NotificationsThreadFunctionPoolHupStopFd'', [])]"

section \<open>What a format expects\<close>

text \<open>The conversions of a format in the manner of \<^verbatim>\<open>printf\<close>; \<open>None\<close> is a percent sign that starts none of them.\<close>

datatype printf_conversion = Conv_d | Conv_s | Conv_02x | Conv_lu

fun conversion :: "string \<Rightarrow> printf_conversion option" where
  "conversion (a # b # c # _) =
     (if a = CHR ''d'' then Some Conv_d else if a = CHR ''s'' then Some Conv_s
      else if [a, b, c] = ''02x'' then Some Conv_02x else if [a, b] = ''lu'' then Some Conv_lu else None)"
| "conversion (a # _) = (if a = CHR ''d'' then Some Conv_d else if a = CHR ''s'' then Some Conv_s else None)"
| "conversion [] = None"

fun conversions :: "string \<Rightarrow> printf_conversion option list" where
  "conversions [] = []"
| "conversions (c # cs) = (if c = CHR ''%'' then conversion cs # conversions cs else conversions cs)"

fun displays_as :: "printf_conversion option \<Rightarrow> DisplayType \<Rightarrow> bool" where
  "displays_as (Some Conv_d) (DisplayTypeDecInt32 _) = True"
| "displays_as (Some Conv_d) (DisplayTypeBool _) = True"
| "displays_as (Some Conv_02x) (DisplayTypeHexUInt8 _) = True"
| "displays_as (Some Conv_s) (DisplayTypeString _ _) = True"
| "displays_as (Some Conv_lu) (DisplayTypeDecUInt64 _) = True"
| "displays_as _ _ = False"

text \<open>Integers narrower than 32 bits are promoted on the way; a text goes to a text only.\<close>

fun takes :: "DisplayType \<Rightarrow> ArgType \<Rightarrow> bool" where
  "takes (DisplayTypeDecInt32 _) t = (t \<in> {Arg_uint8, Arg_int32, Arg_uint32})"
| "takes (DisplayTypeBool _) t = (t = Arg_bool)"
| "takes (DisplayTypeHexUInt8 _) t = (t = Arg_uint8)"
| "takes (DisplayTypeString _ _) t = (t = Arg_text)"
| "takes (DisplayTypeDecUInt64 _) t = False"

definition well_formatted :: "LogMessageFormats \<Rightarrow> bool" where
  "well_formatted fs \<longleftrightarrow> list_all (\<lambda>(_, format, displays). list_all2 displays_as (conversions format) displays) fs"

definition well_typed :: "registry \<Rightarrow> log_call \<Rightarrow> bool" where
  "well_typed r c = (case c of (_, f, i, args) \<Rightarrow>
     (case r f of
        None \<Rightarrow> False
      | Some formats \<Rightarrow> (case map_of formats i of None \<Rightarrow> False | Some (_, displays) \<Rightarrow> list_all2 takes displays args)))"

section \<open>Properties\<close>

lemma enum_distinct: "distinct LogID" "distinct ErrorLogID" "distinct lib_LogID"
  by code_simp+

lemma tables_complete:
  "map fst cpuComDaemonLogMessages = LogID" "map fst cpuComDaemonLogErrorMessages = ErrorLogID"
  "map fst lib_logMessages = lib_LogID"
  by code_simp+

lemma tables_well_formatted:
  "well_formatted cpuComDaemonLogMessages" "well_formatted cpuComDaemonLogErrorMessages" "well_formatted lib_logMessages"
  by code_simp+

lemma calls_well_typed:
  "list_all (well_typed (InitializeLibCpuComLogMessages (InitializeCpuComLogMessages Map.empty))) send_log_calls"
  "list_all (well_typed (InitializeLibCpuComLogMessages (InitializeCpuComLogMessages Map.empty))) recv_log_calls"
  "list_all (well_typed (InitializeLibCpuComLogMessages (InitializeCpuComLogMessages Map.empty))) daemon_log_calls"
  "list_all (well_typed (InitializeLibCpuComLogMessages (InitializeCpuComLogMessages Map.empty))) client_v2_log_calls"
  "list_all (well_typed (InitializeLibCpuComLogMessages (InitializeCpuComLogMessages Map.empty))) client_v1_log_calls"
  by code_simp+

text \<open>The names of the enumeration that belongs to a function.\<close>

definition log_names :: "FunctionID \<Rightarrow> string list" where
  "log_names f = (case f of cpuc_daemon \<Rightarrow> LogID | cpuc_daemon_error \<Rightarrow> ErrorLogID | cpuc_lib \<Rightarrow> lib_LogID)"


end
