(* ===== verification/Programs.thy ===== *)
theory Programs
  imports Startup EmulatorProperties LogMessages
begin

text \<open>
  What stands around the components in the programs: the life of a listening socket device
  (\<^verbatim>\<open>MasterDevice.cpp\<close>), the callbacks and the log messages of the daemon's \<^verbatim>\<open>main\<close>, the two CPUs of the
  emulator's \<^verbatim>\<open>main\<close> and its command line, the options of the interactive client, and the program that
  writes the formats of the log messages to files.
\<close>

section \<open>The life of a socket device\<close>

text \<open>
  Construction, moving and destruction. What a new \<^verbatim>\<open>IODevice\<close> has as its descriptor is the
  argument \<open>fd\<close>; its part of a swap exchanges the descriptors.
\<close>

definition MasterDevice_new :: "int \<Rightarrow> SocketDevice" where
  "MasterDevice_new fd = \<lparr>m_listend = kInvalidFileDescriptor, m_fd = fd\<rparr>"

definition MasterDevice_swap :: "SocketDevice \<Rightarrow> SocketDevice \<Rightarrow> SocketDevice \<times> SocketDevice" where
  "MasterDevice_swap first second =
     (case (first\<lparr>m_fd := m_fd second\<rparr>, second\<lparr>m_fd := m_fd first\<rparr>) of
        (first, second) \<Rightarrow> (first\<lparr>m_listend := m_listend second\<rparr>, second\<lparr>m_listend := m_listend first\<rparr>))"

text \<open>The new object, and what is left of the one that was moved.\<close>

definition MasterDevice_move :: "int \<Rightarrow> SocketDevice \<Rightarrow> SocketDevice \<times> SocketDevice" where
  "MasterDevice_move fd other = MasterDevice_swap (MasterDevice_new fd) other"

definition MasterDevice_assign :: "SocketDevice \<Rightarrow> SocketDevice \<Rightarrow> SocketDevice \<times> SocketDevice" where
  "MasterDevice_assign this other = MasterDevice_swap this other"

definition MasterDevice_delete :: "'s sockets \<Rightarrow> SocketDevice \<Rightarrow> 's \<Rightarrow> 's" where
  "MasterDevice_delete os dev s = snd (MasterDevice_close os dev s)"

lemma MasterDevice_swap_simp: "MasterDevice_swap a b = (b, a)"
  by (simp add: MasterDevice_swap_def)

text \<open>A program with such devices: its objects by name, and the state of the system.\<close>

datatype device_event = New_device nat | Open_device nat | Close_device nat | Move_device nat nat
  | Assign_device nat nat | Delete_device nat

type_synonym 's devices = "(nat \<rightharpoonup> SocketDevice) \<times> 's"

fun device_step :: "'s sockets \<Rightarrow> (int \<Rightarrow> 's \<Rightarrow> bool \<times> 's) option \<Rightarrow> device_event \<Rightarrow> 's devices \<Rightarrow> 's devices" where
  "device_step os conf (New_device i) (m, s) = (m(i \<mapsto> MasterDevice_new kInvalidFileDescriptor), s)"
| "device_step os conf (Open_device i) (m, s) =
     (case MasterDevice_open os conf (the (m i)) s of (r, d, s) \<Rightarrow> (m(i \<mapsto> d), s))"
| "device_step os conf (Close_device i) (m, s) = (case MasterDevice_close os (the (m i)) s of (d, s) \<Rightarrow> (m(i \<mapsto> d), s))"
| "device_step os conf (Move_device i j) (m, s) =
     (case MasterDevice_move kInvalidFileDescriptor (the (m j)) of (d, e) \<Rightarrow> (m(i \<mapsto> d, j \<mapsto> e), s))"
| "device_step os conf (Assign_device i j) (m, s) =
     (case MasterDevice_assign (the (m i)) (the (m j)) of (d, e) \<Rightarrow> (m(i \<mapsto> d, j \<mapsto> e), s))"
| "device_step os conf (Delete_device i) (m, s) = (m(i := None), MasterDevice_delete os (the (m i)) s)"

text \<open>Objects are made under new names and used while they exist; a device that listens is not opened again.\<close>

fun device_allowed :: "device_event \<Rightarrow> (nat \<rightharpoonup> SocketDevice) \<Rightarrow> bool" where
  "device_allowed (New_device i) m \<longleftrightarrow> m i = None"
| "device_allowed (Open_device i) m \<longleftrightarrow> (\<exists>d. m i = Some d \<and> m_listend d = kInvalidFileDescriptor)"
| "device_allowed (Close_device i) m \<longleftrightarrow> m i \<noteq> None"
| "device_allowed (Move_device i j) m \<longleftrightarrow> m i = None \<and> m j \<noteq> None"
| "device_allowed (Assign_device i j) m \<longleftrightarrow> m i \<noteq> None \<and> m j \<noteq> None \<and> i \<noteq> j"
| "device_allowed (Delete_device i) m \<longleftrightarrow> m i \<noteq> None"

fun device_run :: "'s sockets \<Rightarrow> (int \<Rightarrow> 's \<Rightarrow> bool \<times> 's) option \<Rightarrow> device_event list \<Rightarrow> 's devices \<Rightarrow> 's devices option" where
  "device_run os conf [] x = Some x"
| "device_run os conf (e # es) x = (if device_allowed e (fst x) then device_run os conf es (device_step os conf e x) else None)"

text \<open>
  A system that counts: the number of servers it has made, whose descriptors are the numbers below,
  and the descriptors it was told to close. \<open>taken\<close> are the connections it hands out, which are not followed here.
\<close>

definition counting :: "(int \<Rightarrow> int) \<Rightarrow> (nat \<times> int list) sockets" where
  "counting taken = \<lparr>
     socket_local_server = (\<lambda>(n, closed). (int n, (Suc n, closed))),
     accept_connection = (\<lambda>listend s. (taken listend, s)), socket_local_client = (\<lambda>s. (-1, s)),
     close_fd = (\<lambda>fd (n, closed). (n, closed @ [fd])),
     IODevice_close = (\<lambda>dev s. (dev\<lparr>m_fd := kInvalidFileDescriptor\<rparr>, s))\<rparr>"

text \<open>A function that configures a connection, if there is one, that leaves the listening descriptors alone.\<close>

definition leaves_alone :: "(int \<Rightarrow> 's \<Rightarrow> bool \<times> 's) option \<Rightarrow> bool" where
  "leaves_alone conf \<longleftrightarrow> (\<forall>f fd s. conf = Some f \<longrightarrow> snd (f fd s) = s)"

text \<open>
  The descriptors by name, and what holds of them: each descriptor that was made is closed or held by exactly one
  object, and none is closed twice.
\<close>

definition listend_of :: "(nat \<rightharpoonup> SocketDevice) \<Rightarrow> nat \<Rightarrow> int" where
  "listend_of m i = (case m i of None \<Rightarrow> -1 | Some d \<Rightarrow> m_listend d)"

definition accounted :: "(nat \<Rightarrow> int) \<Rightarrow> nat \<Rightarrow> int list \<Rightarrow> bool" where
  "accounted l n closed \<longleftrightarrow> distinct closed \<and>
     (\<forall>x. x \<in> set closed \<or> x \<noteq> -1 \<and> (\<exists>i. l i = x) \<longleftrightarrow> 0 \<le> x \<and> x < int n) \<and>
     (\<forall>i. l i \<notin> set closed) \<and> (\<forall>i j. l i = l j \<longrightarrow> l i \<noteq> -1 \<longrightarrow> i = j)"

lemma accounted_permuted:
  assumes "accounted l n closed" and f: "\<And>k. f (f k) = k"
  shows "accounted (\<lambda>k. l (f k)) n closed"
proof -
  have "(\<exists>k. l (f k) = x) \<longleftrightarrow> (\<exists>k. l k = x)" for x using f by metis
  moreover have "a = b" if "l (f a) = l (f b)" "l (f a) \<noteq> -1" for a b
  proof -
    have "f a = f b" using assms(1) that unfolding accounted_def by blast
    then show ?thesis using f by metis
  qed
  ultimately show ?thesis using assms(1) by (simp add: accounted_def)
qed

lemma accounted_swap:
  assumes "accounted l n closed"
  shows "accounted (l(i := l j, j := l i)) n closed"
proof -
  let ?f = "\<lambda>k. if k = i then j else if k = j then i else k"
  have "l(i := l j, j := l i) = (\<lambda>k. l (?f k))" by (simp add: fun_eq_iff)
  then show ?thesis using accounted_permuted [OF assms, of ?f] by simp
qed

lemma accounted_open:
  assumes "accounted l n closed" and "l i = -1"
  shows "accounted (l(i := int n)) (Suc n) closed"
proof -
  have below: "x \<in> set closed \<or> x \<noteq> -1 \<and> (\<exists>i. l i = x) \<longleftrightarrow> 0 \<le> x \<and> x < int n" for x
    using assms(1) unfolding accounted_def by blast
  have new: "int n \<notin> set closed" "l k \<noteq> int n" for k using below [of "int n"] by auto
  have held: "(\<exists>k. (l(i := int n)) k = x) \<longleftrightarrow> x = int n \<or> (\<exists>k. l k = x)" if "x \<noteq> -1" for x
    using assms(2) that by (metis fun_upd_apply)
  have "x \<in> set closed \<or> x \<noteq> -1 \<and> (\<exists>k. (l(i := int n)) k = x) \<longleftrightarrow> 0 \<le> x \<and> x < int (Suc n)" for x
    using below [of x] held [of x] new(1) by (cases "x = -1"; cases "x = int n") (auto simp del: fun_upd_apply)
  moreover have "(l(i := int n)) a = (l(i := int n)) b \<longrightarrow> (l(i := int n)) a \<noteq> -1 \<longrightarrow> a = b" for a b
    using assms(1) new(2) unfolding accounted_def by (metis fun_upd_apply)
  moreover have "(l(i := int n)) a \<notin> set closed" for a using assms(1) new(1) unfolding accounted_def by simp
  ultimately show ?thesis using assms(1) unfolding accounted_def by blast
qed

lemma accounted_close:
  assumes "accounted l n closed"
  shows "accounted (l(i := -1)) n (if l i = -1 then closed else closed @ [l i])"
proof (cases "l i = -1")
  case True
  then show ?thesis using assms by (simp add: fun_upd_idem)
next
  case False
  have one: "l k = l i \<Longrightarrow> k = i" for k using assms False unfolding accounted_def by metis
  have held: "(\<exists>k. (l(i := -1)) k = x) \<longleftrightarrow> x \<noteq> l i \<and> (\<exists>k. l k = x)" if "x \<noteq> -1" for x
    using that one by (metis fun_upd_apply)
  have below: "x \<in> set closed \<or> x \<noteq> -1 \<and> (\<exists>i. l i = x) \<longleftrightarrow> 0 \<le> x \<and> x < int n" for x
    using assms unfolding accounted_def by blast
  have "x \<in> set (closed @ [l i]) \<or> x \<noteq> -1 \<and> (\<exists>k. (l(i := -1)) k = x) \<longleftrightarrow> 0 \<le> x \<and> x < int n" for x
    using below [of x] held [of x] False by (cases "x = -1"; cases "x = l i") (auto simp del: fun_upd_apply)
  moreover have "-1 \<notin> set closed" using below [of "-1"] by simp
  then have "(l(i := -1)) a \<notin> set (closed @ [l i])" for a
    using assms False one [of a] unfolding accounted_def by (cases "a = i") auto
  moreover have "(l(i := -1)) a = (l(i := -1)) b \<longrightarrow> (l(i := -1)) a \<noteq> -1 \<longrightarrow> a = b" for a b
    using assms unfolding accounted_def by (metis fun_upd_apply)
  moreover have "distinct (closed @ [l i])" using assms unfolding accounted_def by simp
  ultimately have "accounted (l(i := -1)) n (closed @ [l i])" unfolding accounted_def by blast
  then show ?thesis using False by simp
qed

lemma listend_of_upd [simp]:
  "listend_of (m(i \<mapsto> d)) = (listend_of m)(i := m_listend d)" "listend_of (m(i := None)) = (listend_of m)(i := -1)"
  by (auto simp: listend_of_def fun_eq_iff)

lemma device_step_accounted:
  assumes "accounted (listend_of m) n closed" and "device_allowed e m"
    and "device_step (counting taken) conf e (m, n, closed) = (m', n', closed')"
    and conf: "leaves_alone conf"
  shows "accounted (listend_of m') n' closed'"
proof (cases e)
  case (New_device i)
  then have "(listend_of m)(i := -1) = listend_of m" using assms(2) by (auto simp: listend_of_def fun_eq_iff)
  then show ?thesis using assms New_device by (auto simp: MasterDevice_new_def kInvalidFileDescriptor_def)
next
  case (Open_device i)
  then obtain d where d: "m i = Some d" "listend_of m i = -1"
    using assms(2) by (auto simp: listend_of_def kInvalidFileDescriptor_def)
  obtain d' where "m' = m(i \<mapsto> d')" "m_listend d' = int n" "n' = Suc n" "closed' = closed"
    using assms(3) Open_device d(1) conf
    by (cases conf) (auto simp: leaves_alone_def MasterDevice_open_def counting_def configured_def Let_def case_prod_beta split: if_splits)
  then show ?thesis using accounted_open [OF assms(1) d(2)] by simp
next
  case (Close_device i)
  then obtain d where d: "m i = Some d" "listend_of m i = m_listend d" using assms(2) by (auto simp: listend_of_def)
  then show ?thesis using accounted_close [OF assms(1), of i] assms(3) Close_device
    by (auto simp: MasterDevice_close_def counting_def kInvalidFileDescriptor_def split: if_splits)
next
  case (Move_device i j)
  then obtain d where "m i = None" "m j = Some d" using assms(2) by auto
  then show ?thesis using accounted_swap [OF assms(1), of i j] assms(3) Move_device
    by (auto simp: MasterDevice_move_def MasterDevice_swap_simp MasterDevice_new_def listend_of_def [of m] kInvalidFileDescriptor_def)
next
  case (Assign_device i j)
  then obtain d e where "m i = Some d" "m j = Some e" using assms(2) by auto
  then show ?thesis using accounted_swap [OF assms(1), of i j] assms(3) Assign_device
    by (auto simp: MasterDevice_assign_def MasterDevice_swap_simp listend_of_def [of m])
next
  case (Delete_device i)
  then obtain d where d: "m i = Some d" "listend_of m i = m_listend d" using assms(2) by (auto simp: listend_of_def)
  then show ?thesis using accounted_close [OF assms(1), of i] assms(3) Delete_device
    by (auto simp: MasterDevice_delete_def MasterDevice_close_def counting_def kInvalidFileDescriptor_def split: if_splits)
qed

lemma device_run_accounted:
  assumes "leaves_alone conf"
  shows "device_run (counting taken) conf es (m, n, closed) = Some (m', n', closed') \<Longrightarrow> accounted (listend_of m) n closed \<Longrightarrow>
     accounted (listend_of m') n' closed'"
proof (induction es arbitrary: m n closed)
  case (Cons e es)
  obtain m1 n1 closed1 where s: "device_step (counting taken) conf e (m, n, closed) = (m1, n1, closed1)" by (metis prod_cases3)
  then show ?case using Cons device_step_accounted [OF Cons.prems(2) _ s assms] by (simp split: if_splits)
qed simp

text \<open>
  Once all objects are gone, whatever was moved, assigned, opened and closed between, every listening
  descriptor has been closed, and just once.
\<close>

lemma listends_closed_once:
  assumes "device_run (counting taken) conf es (Map.empty, 0, []) = Some (Map.empty, n, closed)"
    and "leaves_alone conf"
  shows "distinct closed \<and> set closed = int ` {..<n}"
proof -
  have "accounted (listend_of Map.empty) 0 []" by (auto simp: accounted_def listend_of_def)
  note a = device_run_accounted [OF assms(2) assms(1) this]
  have "x \<in> set closed \<longleftrightarrow> 0 \<le> x \<and> x < int n" for x using a by (auto simp: accounted_def listend_of_def)
  moreover have "x \<in> int ` {..<n} \<longleftrightarrow> 0 \<le> x \<and> x < int n" for x by (auto simp: image_iff intro: bexI [of _ "nat x"])
  ultimately have "set closed = int ` {..<n}" by blast
  then show ?thesis using a by (simp add: accounted_def)
qed

section \<open>The daemon's main\<close>

text \<open>
  The callbacks that the message server is given: the identifiers they log. A power manager that
  can be reached is told that the daemon has started.
\<close>

definition onCpuComDaemonStarted :: "bool \<Rightarrow> (FunctionID \<times> string) list \<times> bool" where
  "onCpuComDaemonStarted vpm =
     (let logged = [(cpuc_daemon, ''Started'')]
      in if vpm then (logged, True) else (logged @ [(cpuc_daemon, ''VPMerror'')], False))"

definition onCpuComDaemonStopped :: "(FunctionID \<times> string) list" where
  "onCpuComDaemonStopped = [(cpuc_daemon, ''Stopped'')]"

text \<open>
  Around the run of the daemon the log messages are set up and taken away; the messages of the other libraries
  are not under \<^verbatim>\<open>src/\<close>. The exit code is 0 when the message server has started.
\<close>

definition main_log_begin :: "registry \<Rightarrow> registry" where
  "main_log_begin r = InitializeCpuComLogMessages r"

definition main_log_end :: "bool \<Rightarrow> registry \<Rightarrow> int \<times> registry" where
  "main_log_end result r = (let r = TerminateCpuComLogMessages r in (if \<not> result then 1 else 0, r))"

lemma callbacks_registered:
  "\<forall>(f, i)\<in>set (fst (onCpuComDaemonStarted vpm)) \<union> set onCpuComDaemonStopped.
     \<exists>formats. main_log_begin r f = Some formats \<and> i \<in> set (map fst formats)"
proof -
  have "{''Started'', ''VPMerror'', ''Stopped''} \<subseteq> set (map fst cpuComDaemonLogMessages)"
    by (simp add: cpuComDaemonLogMessages_def)
  then show ?thesis
    by (simp add: onCpuComDaemonStarted_def onCpuComDaemonStopped_def main_log_begin_def InitializeCpuComLogMessages_def Let_def)
qed

lemma main_log_nested:
  "r cpuc_daemon = None \<Longrightarrow> r cpuc_daemon_error = None \<Longrightarrow> main_log_end result (main_log_begin r) = (if result then 0 else 1, r)"
  by (auto simp: main_log_end_def main_log_begin_def InitializeCpuComLogMessages_def TerminateCpuComLogMessages_def fun_eq_iff)

section \<open>The emulator's main\<close>

text \<open>The emulator's two CPUs: the M-CPU behind the socket, and the V-CPU behind the serial line.\<close>

definition emulator_main :: "'d IODevice \<Rightarrow> 'd IODevice \<Rightarrow> 'd \<Rightarrow> 'd \<Rightarrow> ('d CPU, 'r) Emulator" where
  "emulator_main D_socket D_uart device vcpudevice =
     (let mcpu = CPU_new (protocol_new D_socket device) kAddressMCPU;
          vcpu = CPU_new (protocol_new D_uart vcpudevice) kAddressVCPU
      in Emulator_new mcpu vcpu)"

text \<open>
  What the daemon on the emulator's socket sends, the emulator's M-CPU expects, and the other way round; and
  the emulator's V-CPU speaks to the real one as the daemon does.
\<close>

lemma emulator_speaks_to_daemon:
  "m_sendCodebit (getVcpuEmu D d) = m_receiveCodebit (m_mcpu (emulator_main E F e f)) \<and>
   m_receiveCodebit (getVcpuEmu D d) = m_sendCodebit (m_mcpu (emulator_main E F e f)) \<and>
   m_sendCodebit (m_vcpu (emulator_main E F e f)) = m_sendCodebit (getVcpuEmu D d) \<and>
   m_receiveCodebit (m_vcpu (emulator_main E F e f)) = m_receiveCodebit (getVcpuEmu D d)"
  using codebits_match by (simp add: emulator_main_def getVcpuEmu_def CPU_new_def Emulator_new_def Let_def)

section \<open>The emulator's command line\<close>

text \<open>
  The program sends its arguments as one text, if a messenger can be made ready and connected. The result: the text
  that is sent, what is printed, and the exit code.
\<close>

definition cli_main :: "bool \<Rightarrow> bool \<Rightarrow> string list \<Rightarrow> (string option \<times> string list \<times> int) outcome" where
  "cli_main initialized connected argv =
     (let result = 0
      in if initialized \<and> connected then omap (\<lambda>input. (Some input, [], result)) (cli_input argv)
         else (let result = 1 in Ret (None, [''can not connect to emulator''], result)))"

text \<open>Arguments without blanks reach the emulator as the tokens of its handler.\<close>

lemma cli_words:
  assumes "argv \<noteq> []" and "\<forall>a\<in>set argv. a \<noteq> [] \<and> CHR '' '' \<notin> set a"
  shows "\<exists>input. cli_main True True argv = Ret (Some input, [], 0) \<and> tokenize input CHR '' '' = argv"
proof -
  let ?joined = "\<lambda>argv. concat (map (\<lambda>a. a @ '' '') argv)"
  have nonempty: "?joined argv \<noteq> []" if "argv \<noteq> []" for argv using that by (cases argv) auto
  have "tokenize (butlast (?joined argv)) CHR '' '' = argv" using assms
  proof (induction argv rule: induct_list012)
    case (3 a b argv)
    have "butlast (?joined (a # b # argv)) = a @ CHR '' '' # butlast (?joined (b # argv))"
      using nonempty [of "b # argv"] by (simp add: butlast_append)
    then show ?case using 3 by (simp add: tokenize_append del: concat.simps list.map)
  qed (simp_all add: tokenize_last)
  then show ?thesis using nonempty [OF assms(1)] by (simp add: cli_main_def cli_input_def Let_def)
qed

text \<open>So the text of a command and its data, given to the program, are the write that waits for the emulator's worker.\<close>

lemma cli_send_reaches_worker:
  "\<exists>input. cli_main True True [''send'', command_text command, data_text [b]] = Ret (Some input, [], 0) \<and>
     cli_handler input e = Ret (e\<lparr>m_workerThread := m_workerThread e @ [WriteTask command [b]]\<rparr>)"
proof -
  have "cli_main True True [''send'', command_text command, data_text [b]] =
      Ret (Some (''send '' @ command_text command @ '' '' @ data_text [b]), [], 0)"
    by (simp add: cli_main_def cli_input_def butlast_append Let_def)
  then show ?thesis using cli_handler_send [of command "[b]" e] by blast
qed

section \<open>The interactive client's options\<close>

text \<open>\<open>options\<close> is what \<^verbatim>\<open>getopt\<close> returns, one after the other; \<open>Some\<close> is an exit, with what was printed.\<close>

definition show_help :: "string list" where
  "show_help = [''  CmndLine mod examples:'', ''     subscribe 11,80'', ''     unsubscribe 11,80'',
     ''     subscribelist 11,80 1f,1c 3e,a1'', ''     send 1b,3f 23,55,2c'', ''     exit'']"

fun parse_options :: "string \<Rightarrow> (string list \<times> int) option" where
  "parse_options [] = None"
| "parse_options (c # options) = (if c = CHR ''h'' then Some (show_help, 0) else parse_options options)"

section \<open>The formats as files\<close>

text \<open>
  The program makes a \<^verbatim>\<open>std::string\<close> of what \<^verbatim>\<open>std::getenv\<close> returns; of a null pointer that is
  undefined. The result is the path and the formats of each file; how they are written
  (\<^verbatim>\<open>DumpToCsvConfig\<close>) is not under \<^verbatim>\<open>src/\<close>.
\<close>

definition csv_main :: "string option \<Rightarrow> registry \<Rightarrow> (string \<times> LogMessageFormats option) list outcome" where
  "csv_main ANDROID_BUILD_TOP r =
     (case ANDROID_BUILD_TOP of
        None \<Rightarrow> Throw Undefined_behaviour
      | Some androidBuildTop \<Rightarrow>
          (let logdogFormatFullPath = androidBuildTop @ ''/'' @ ''vendor/melco/efw/Config/LogdogFormat'';
               cpucDaemonPath = logdogFormatFullPath @ ''/'' @ ''CPUC_DAEMON.csv'';
               cpucDaemonErrorPath = logdogFormatFullPath @ ''/'' @ ''CPUC_DAEMON_ERROR.csv'';
               r = InitializeCpuComLogMessages r
           in Ret [(cpucDaemonPath, r cpuc_daemon), (cpucDaemonErrorPath, r cpuc_daemon_error)]))"

lemma csv_main_writes:
  "csv_main (Some dir) r = Ret
     [(dir @ ''/vendor/melco/efw/Config/LogdogFormat/CPUC_DAEMON.csv'', Some cpuComDaemonLogMessages),
      (dir @ ''/vendor/melco/efw/Config/LogdogFormat/CPUC_DAEMON_ERROR.csv'', Some cpuComDaemonLogErrorMessages)]"
  by (simp add: csv_main_def InitializeCpuComLogMessages_def)

end
