(* ===== verification/DeviceMap.thy ===== *)
theory DeviceMap
  imports RecvProperties
begin

text \<open>
  A protocol object does not know what is behind its device. When the states of one device are
  taken to those of another in such a way that every operation agrees, the two machines agree too, handler
  by handler, and so do \<^verbatim>\<open>send\<close> and \<^verbatim>\<open>receive\<close>. The contract is the locale \<open>device_map\<close>. It is
  met by the device that records what is done to it, which therefore changes nothing, and by each of
  two lines that are put side by side.
\<close>

section \<open>Machines under a change of state\<close>

lemma fsm_path_map:
  assumes "\<And>q w. h' q (m w) = omap (apsnd m) (h q w)" and "fsm_path h t f n (q, w) (q', w')"
  shows "fsm_path h' t f n (q, m w) (q', m w')"
proof -
  have "fsm_path h' t f n (apsnd m c) (apsnd m c')" if "fsm_path h t f n c c'" for c c'
    using that
  proof (induction rule: fsm_path.induct)
    case (path_step n c c' c'')
    obtain q w q' w' where c: "c' = (q, w)" "c'' = (q', w')" by (cases c'; cases c'')
    then have "fsm_step h' t f (q, m w) (q', m w')"
      using path_step.hyps(2) by (auto simp: assms(1) intro!: fsm_stepI)
    then show ?case using path_step.IH c fsm_path.path_step [of h' t f n "apsnd m c" "(q, m w)" "(q', m w')"] by simp
  qed simp
  from this [OF assms(2)] show ?thesis by simp
qed

lemma runner_map:
  assumes runs: "fsm_runner run" "fsm_runner run'" and eq: "\<And>q w. h' q (m w) = omap (apsnd m) (h q w)"
  shows "run h t q f w = Ret w' \<Longrightarrow> run' h' t q f (m w) = Ret (m w')"
    and "run h t q f w = Throw x \<Longrightarrow> (\<And>p e. p \<noteq> f \<Longrightarrow> t p e \<noteq> None) \<Longrightarrow> run' h' t q f (m w) = Throw x"
proof -
  show "run' h' t q f (m w) = Ret (m w')" if r: "run h t q f w = Ret w'"
  proof -
    obtain n w0 e where p: "fsm_path h t f n (q, w) (f, w0)" and e: "h f w0 = Ret (e, w')"
      using fsm_runner.run_returns [OF runs(1) r] by blast
    have "h' f (m w0) = Ret (e, m w')" using e by (simp add: eq)
    then show ?thesis by (rule fsm_runner.run_path_final [OF runs(2) fsm_path_map [of h' m h, OF eq p]])
  qed
  show "run' h' t q f (m w) = Throw x" if r: "run h t q f w = Throw x" "\<And>p e. p \<noteq> f \<Longrightarrow> t p e \<noteq> None"
  proof -
    obtain n q' w0 where p: "fsm_path h t f n (q, w) (q', w0)" and e: "h q' w0 = Throw x"
      using fsm_runner.run_throws [OF runs(1) r] by blast
    have "h' q' (m w0) = Throw x" using e by (simp add: eq)
    then show ?thesis
      using fsm_runner.run_path [OF runs(2) fsm_path_map [of h' m h, OF eq p]] fsm_runner.run_throw [OF runs(2)] by simp
  qed
qed

section \<open>Devices\<close>

definition map_protocol :: "('e \<Rightarrow> 'd) \<Rightarrow> 'e Protocol \<Rightarrow> 'd Protocol" where
  "map_protocol g p = \<lparr>m_device = g (m_device p), m_accessLock = m_accessLock p, m_r1 = m_r1 p, m_r2 = m_r2 p\<rparr>"

lemma map_protocol_simps [simp]:
  "m_device (map_protocol g p) = g (m_device p)" "m_accessLock (map_protocol g p) = m_accessLock p"
  "m_r1 (map_protocol g p) = m_r1 p" "m_r2 (map_protocol g p) = m_r2 p"
  "map_protocol g (p\<lparr>m_device := d\<rparr>) = (map_protocol g p)\<lparr>m_device := g d\<rparr>"
  "map_protocol g (p\<lparr>m_accessLock := l\<rparr>) = (map_protocol g p)\<lparr>m_accessLock := l\<rparr>"
  "map_protocol g (p\<lparr>m_r1 := r\<rparr>) = (map_protocol g p)\<lparr>m_r1 := r\<rparr>"
  "map_protocol g (p\<lparr>m_r2 := r\<rparr>) = (map_protocol g p)\<lparr>m_r2 := r\<rparr>"
  by (simp_all add: map_protocol_def)

lemma omap_omap: "omap f (omap g x) = omap (\<lambda>y. f (g y)) x"
  by (cases x) simp_all

lemma omap_obind: "omap f (obind x g) = obind x (\<lambda>y. omap f (g y))"
  by (cases x) simp_all

locale device_map =
  fixes E :: "'e IODevice" and D :: "'d IODevice" and g :: "'e \<Rightarrow> 'd"
  assumes map_open: "dev_open D (g e) = apsnd g (dev_open E e)"
    and map_close: "dev_close D (g e) = g (dev_close E e)"
    and map_read: "dev_read D (g e) t b = apsnd (apsnd g) (dev_read E e t b)"
    and map_readMulti: "dev_readMulti D (g e) n t = apsnd (apsnd g) (dev_readMulti E e n t)"
    and map_write_byte: "dev_write_byte D (g e) b = apsnd g (dev_write_byte E e b)"
    and map_write: "dev_write D (g e) bs = apsnd g (dev_write E e bs)"
    and map_poll: "dev_poll D (g e) t = apsnd g (dev_poll E e t)"
begin

lemmas map_device = map_open map_close map_read map_readMulti map_write_byte map_write map_poll

lemma map_drain: "drain D (apsnd (apsnd g) s) = map_option (apsnd (apsnd g)) (drain E s)"
  using while_option_commute [of "\<lambda>(r, b, d). r = IO_Success" "\<lambda>(r, b, d). r = IO_Success" "apsnd (apsnd g)"
      "\<lambda>(r, b, d). dev_read E d Immediate b" "\<lambda>(r, b, d). dev_read D d Immediate b" s]
  by (auto simp: drain_def map_read)

lemma map_first_drain: "drain D (r, b, g e) = map_option (apsnd (apsnd g)) (drain E (r, b, e))"
  using map_drain [of "(r, b, e)"] by simp

lemma map_send_handlers:
  "send_handlers D q (apsnd (map_protocol g) w) = omap (apsnd (apsnd (map_protocol g))) (send_handlers E q w)"
proof (cases w)
  case (Pair c p)
  then show ?thesis
    by (cases q)
       (simp_all add: send_handler_defs map_device map_drain map_first_drain mutex_lock_def mutex_unlock_def omap_omap omap_obind case_prod_beta Let_def
          split: option.split)
qed

lemma map_read_into_frame:
  "read_into_frame D n (apsnd (map_protocol g) w) = omap (apsnd (apsnd (apsnd (map_protocol g)))) (read_into_frame E n w)"
  by (cases w) (simp add: read_into_frame_def map_device omap_obind case_prod_beta)

lemma map_data_handlers:
  "recvDataCommand D (apsnd (map_protocol g) w) = omap (apsnd (apsnd (map_protocol g))) (recvDataCommand E w)"
  "recvDataExtLen D (apsnd (map_protocol g) w) = omap (apsnd (apsnd (map_protocol g))) (recvDataExtLen E w)"
  "recvDataFrameNumber D (apsnd (map_protocol g) w) = omap (apsnd (apsnd (map_protocol g))) (recvDataFrameNumber E w)"
  "recvData D (apsnd (map_protocol g) w) = omap (apsnd (apsnd (map_protocol g))) (recvData E w)"
proof -
  note read = map_read_into_frame omap_omap
  show "recvDataCommand D (apsnd (map_protocol g) w) = omap (apsnd (apsnd (map_protocol g))) (recvDataCommand E w)"
    unfolding recvDataCommand_def read by (cases "read_into_frame E kCmdLength w") auto
  show "recvDataExtLen D (apsnd (map_protocol g) w) = omap (apsnd (apsnd (map_protocol g))) (recvDataExtLen E w)"
    by (cases "read_into_frame E kExtLenLength w") (auto simp: recvDataExtLen_def map_read_into_frame Let_def)
  show "recvDataFrameNumber D (apsnd (map_protocol g) w) = omap (apsnd (apsnd (map_protocol g))) (recvDataFrameNumber E w)"
    by (cases "read_into_frame E (kFrameNumberLength + kTotalFramesLength) w")
       (auto simp: recvDataFrameNumber_def map_read_into_frame)
  show "recvData D (apsnd (map_protocol g) w) = omap (apsnd (apsnd (map_protocol g))) (recvData E w)"
    by (cases "read_into_frame E (unat (recv_data_size (fst w))) w") (auto simp: recvData_def map_read_into_frame)
qed

lemma map_recvChecksum:
  "recvChecksum cs D (apsnd (map_protocol g) w) = omap (apsnd (apsnd (map_protocol g))) (recvChecksum cs E w)"
  by (cases w; cases "currentFrame (fst w)")
     (simp_all add: recvChecksum_def map_device omap_omap case_prod_beta Let_def)

lemma map_recv_handlers:
  "recv_handlers cs D q (apsnd (map_protocol g) w) = omap (apsnd (apsnd (map_protocol g))) (recv_handlers cs E q w)"
proof (cases w)
  case (Pair c p)
  note frame = map_data_handlers [of w, unfolded Pair, simplified] map_recvChecksum [of _ w, unfolded Pair, simplified]
  show ?thesis unfolding Pair
    by (cases q)
       (simp_all add: frame recvIdle_def recvPoll_def recvRepoll_def recvEnquiry_def recvAcknowledgement_def recvControlCode_def
          recvLength_def recvAcknowledgement2_def recvNak_def recvRetry_def recvDone_def recvError_def
          recvEnd_def map_device map_drain map_first_drain mutex_lock_def mutex_unlock_def omap_omap omap_obind case_prod_beta
          Let_def split: option.split TransmitionType.split)
qed

text \<open>Hence the calls agree, by the contract of the runner.\<close>

lemma map_send:
  assumes "fsm_runner run" and "fsm_runner run'"
  shows "protocol_send run cs E p data = Ret (r, p') \<Longrightarrow>
      protocol_send run' cs D (map_protocol g p) data = Ret (r, map_protocol g p')"
    and "protocol_send run cs E p data = Throw x \<Longrightarrow> protocol_send run' cs D (map_protocol g p) data = Throw x"
proof -
  note run = runner_map [OF assms, where m = "apsnd (map_protocol g)" and h = "send_handlers E" and h' = "send_handlers D",
      OF map_send_handlers, of send_transitions S_idle S_end "(SendContext cs data, p)", simplified]
  show "protocol_send run' cs D (map_protocol g p) data = Ret (r, map_protocol g p')"
    if "protocol_send run cs E p data = Ret (r, p')"
    using that run(1) by (auto simp: protocol_send_def omap_eq_Ret split: if_splits)
  show "protocol_send run' cs D (map_protocol g p) data = Throw x" if "protocol_send run cs E p data = Throw x"
    using that run(2) by (auto simp: protocol_send_def omap_eq_Throw send_transitions_def split: if_splits)
qed

lemma map_receive:
  assumes "fsm_runner run" and "fsm_runner run'"
  shows "protocol_receive run cs E p = Ret (r, p') \<Longrightarrow>
      protocol_receive run' cs D (map_protocol g p) = Ret (r, map_protocol g p')"
    and "protocol_receive run cs E p = Throw x \<Longrightarrow> protocol_receive run' cs D (map_protocol g p) = Throw x"
proof -
  note run = runner_map [OF assms, where m = "apsnd (map_protocol g)" and h = "recv_handlers cs E" and h' = "recv_handlers cs D",
      OF map_recv_handlers, of recv_transitions R_idle R_end "(RecvContext, p)", simplified]
  show "protocol_receive run' cs D (map_protocol g p) = Ret (r, map_protocol g p')"
    if "protocol_receive run cs E p = Ret (r, p')"
    using that run(1) by (auto simp: protocol_receive_def outcome_eqs split: if_splits)
  show "protocol_receive run' cs D (map_protocol g p) = Throw x" if "protocol_receive run cs E p = Throw x"
    using that run by (auto simp: protocol_receive_def outcome_eqs recv_transitions_def split: if_splits)
qed

end

section \<open>Interpretations\<close>

text \<open>The device inside a recording one, by forgetting the record.\<close>

interpretation observed: device_map "logged D" D fst
  by unfold_locales (auto simp: logged_def split: prod.split)

text \<open>Two lines side by side, as a program with two devices of one class has them.\<close>

definition side_by_side :: "'a IODevice \<Rightarrow> 'b IODevice \<Rightarrow> ('a + 'b) IODevice" where
  "side_by_side A B = \<lparr>
     dev_open = case_sum (\<lambda>a. apsnd Inl (dev_open A a)) (\<lambda>b. apsnd Inr (dev_open B b)),
     dev_close = case_sum (\<lambda>a. Inl (dev_close A a)) (\<lambda>b. Inr (dev_close B b)),
     dev_read = (\<lambda>d t x. case d of Inl a \<Rightarrow> apsnd (apsnd Inl) (dev_read A a t x) | Inr b \<Rightarrow> apsnd (apsnd Inr) (dev_read B b t x)),
     dev_readMulti = (\<lambda>d n t. case d of Inl a \<Rightarrow> apsnd (apsnd Inl) (dev_readMulti A a n t)
                                 | Inr b \<Rightarrow> apsnd (apsnd Inr) (dev_readMulti B b n t)),
     dev_write_byte = (\<lambda>d x. case d of Inl a \<Rightarrow> apsnd Inl (dev_write_byte A a x) | Inr b \<Rightarrow> apsnd Inr (dev_write_byte B b x)),
     dev_write = (\<lambda>d bs. case d of Inl a \<Rightarrow> apsnd Inl (dev_write A a bs) | Inr b \<Rightarrow> apsnd Inr (dev_write B b bs)),
     dev_poll = (\<lambda>d t. case d of Inl a \<Rightarrow> apsnd Inl (dev_poll A a t) | Inr b \<Rightarrow> apsnd Inr (dev_poll B b t))\<rparr>"

interpretation left_line: device_map A "side_by_side A B" Inl
  by unfold_locales (simp_all add: side_by_side_def)

interpretation right_line: device_map B "side_by_side A B" Inr
  by unfold_locales (simp_all add: side_by_side_def)

section \<open>Properties\<close>

text \<open>
  Recording what is done to the device changes nothing. Whatever a send or a receive on
  the recording device returns, and whatever it throws, it does on the device inside it as well, with any two
  runners, and leaves the same protocol object behind. So what is proved of a recorded call holds of the call.
\<close>

lemma observation_changes_nothing:
  fixes p :: "('d \<times> io_event list) Protocol"
  assumes "fsm_runner runS" and "fsm_runner runS'" and "fsm_runner runR" and "fsm_runner runR'"
  shows "(\<forall>r p'. protocol_send runS cs (logged D) p data = Ret (r, p') \<longrightarrow>
       protocol_send runS' cs D (map_protocol fst p) data = Ret (r, map_protocol fst p')) \<and>
    (\<forall>r p'. protocol_receive runR cs (logged D) p = Ret (r, p') \<longrightarrow>
       protocol_receive runR' cs D (map_protocol fst p) = Ret (r, map_protocol fst p')) \<and>
    (\<forall>x. protocol_send runS cs (logged D) p data = Throw x \<longrightarrow> protocol_send runS' cs D (map_protocol fst p) data = Throw x) \<and>
    (\<forall>x. protocol_receive runR cs (logged D) p = Throw x \<longrightarrow> protocol_receive runR' cs D (map_protocol fst p) = Throw x)"
  using observed.map_send [OF assms(1,2)] observed.map_receive [OF assms(3,4)] by blast

end
