(* ===== verification/Session.thy ===== *)
theory Session
  imports ClientV2
begin

text \<open>
  A client of the library in its session with the daemon: the client object, the daemon, and the two
  queues between them, in which messages keep their order. The application, the daemon's handlers,
  the daemon's own events and the client's handlers take turns in any order; so do the other sessions.
\<close>

section \<open>State and steps\<close>

text \<open>How many of the client's messages the daemon has handled, and how many of the daemon's the client has.\<close>

record ('c, 's, 'u, 'cb) session =
  client :: "('u, 'cb) CpuCom"
  server :: "('c, 's, 'u) CpuComDaemon"
  handled :: nat
  received :: nat

definition outbox :: "'s \<Rightarrow> ('c, 's, 'u) CpuComDaemon \<Rightarrow> 'u DaemonMessage list" where
  "outbox s d = map snd (filter (\<lambda>x. fst x = s) (m_messageServer d))"

datatype ('s, 'u, 'cb) session_event =
    Client_does "('u, 'cb) client_event"
  | Daemon_handles
  | Daemon_does "('s, 'u) daemon_event"
  | Client_handles

fun session_step ::
    "'c ICPU \<Rightarrow> 's :: linorder \<Rightarrow> (error \<Rightarrow> int) \<Rightarrow> ('s, 'u, 'cb) session_event \<Rightarrow> ('c, 's, 'u, 'cb) session \<Rightarrow>
     ('c, 's, 'u, 'cb) session outcome" where
  "session_step C s code (Client_does e) x = Ret (x\<lparr>client := client_step code e (client x)\<rparr>)"
| "session_step C s code Daemon_handles x =
     (if handled x < length (m_messenger (client x))
      then omap (\<lambda>d. x\<lparr>server := d, handled := Suc (handled x)\<rparr>)
             (handle_message C s (m_messenger (client x) ! handled x) (server x))
      else Ret x)"
| "session_step C s code (Daemon_does e) x = omap (\<lambda>d. x\<lparr>server := d\<rparr>) (daemon_step C e (server x))"
| "session_step C s code Client_handles x =
     (if received x < length (outbox s (server x))
      then Ret (x\<lparr>client := client_receive code (outbox s (server x) ! received x) (client x), received := Suc (received x)\<rparr>)
      else Ret x)"

fun session_run ::
    "'c ICPU \<Rightarrow> 's :: linorder \<Rightarrow> (error \<Rightarrow> int) \<Rightarrow> ('s, 'u, 'cb) session_event list \<Rightarrow> ('c, 's, 'u, 'cb) session \<Rightarrow>
     ('c, 's, 'u, 'cb) session outcome" where
  "session_run C s code [] x = Ret x"
| "session_run C s code (e # es) x = obind (session_step C s code e x) (session_run C s code es)"

definition session_start :: "('c, 's, 'u) CpuComDaemon \<Rightarrow> ('c, 's, 'u, 'cb) session" where
  "session_start d = \<lparr>client = CpuCom_new, server = d, handled = 0, received = 0\<rparr>"

text \<open>
  Messages reach the client from its queue only, and the daemon does not handle messages of the
  session but from the other.
\<close>

fun proper :: "'s \<Rightarrow> ('s, 'u, 'cb) session_event \<Rightarrow> bool" where
  "proper s (Client_does (Incoming m)) = False"
| "proper s (Daemon_does (Message s' m)) = (s' \<noteq> s)"
| "proper s e = True"

text \<open>What the application has done.\<close>

fun client_part :: "('s, 'u, 'cb) session_event \<Rightarrow> ('u, 'cb) client_event list" where
  "client_part (Client_does e) = [e]"
| "client_part e = []"

definition client_events :: "('s, 'u, 'cb) session_event list \<Rightarrow> ('u, 'cb) client_event list" where
  "client_events es = concat (map client_part es)"

section \<open>Marks\<close>

text \<open>Of everything that passes in the queues, the sends that want a status and the requests.\<close>

datatype 'u mark = Wants_status 'u | Asks 'u

fun event_mark :: "('u, 'cb) client_event \<Rightarrow> 'u mark list" where
  "event_mark (SendStatus u command data cb) = [Wants_status u]"
| "event_mark (MakeRequest u command data resp) = [Asks u]"
| "event_mark e = []"

fun message_mark :: "'u ClientMessage \<Rightarrow> 'u mark list" where
  "message_mark (SendCommandWithDeliveryStatus u command data) = [Wants_status u]"
| "message_mark (Request u command data resp) = [Asks u]"
| "message_mark m = []"

fun sent_by :: "('u, 'cb) client_event \<Rightarrow> ('u \<times> 'cb option) list" where
  "sent_by (SendStatus u command data cb) = [(u, cb)]"
| "sent_by e = []"

fun status_of :: "'u DaemonMessage \<Rightarrow> ('u \<times> bool) list" where
  "status_of (DeliveryStatus u r) = [(u, r)]"
| "status_of m = []"

abbreviation "marks ms \<equiv> concat (map message_mark ms)"
abbreviation "sent es \<equiv> concat (map sent_by es)"
abbreviation "statuses out \<equiv> concat (map status_of out)"

fun wanted :: "'u mark \<Rightarrow> 'u list" where
  "wanted (Wants_status u) = [u]"
| "wanted (Asks u) = []"

abbreviation "wanted_of xs \<equiv> concat (map wanted xs)"

fun is_status_call :: "'cb client_call \<Rightarrow> bool" where
  "is_status_call (StatusCall cb r) = True"
| "is_status_call c = False"

text \<open>The call that a status leads to, none if the callback is empty.\<close>

definition status_call :: "'u \<times> 'cb option \<Rightarrow> 'u \<times> bool \<Rightarrow> 'cb client_call list" where
  "status_call x y = (case snd x of None \<Rightarrow> [] | Some cb \<Rightarrow> [StatusCall cb (snd y)])"

definition status_calls :: "('u \<times> 'cb option) list \<Rightarrow> ('u \<times> bool) list \<Rightarrow> 'cb client_call list" where
  "status_calls xs ys = concat (map2 status_call xs ys)"

lemma sent_marks: "map fst (sent es) = wanted_of (concat (map event_mark es))"
proof (induction es)
  case (Cons e es)
  then show ?case by (cases e) simp_all
qed simp

section \<open>The client's messages\<close>

lemma client_step_marks:
  assumes "\<forall>m. e \<noteq> Incoming m"
  shows "\<exists>ms. m_messenger (client_step code e c) = m_messenger c @ ms \<and> marks ms = event_mark e"
  using assms by (cases e) (auto simp: client_defs intro!: exI)

lemma client_receive_messages: "m_messenger (client_receive code m c) = m_messenger c"
  by (cases m) (simp_all add: client_defs)

section \<open>The daemon's side\<close>

fun responds :: "'u \<Rightarrow> 'u DaemonMessage \<Rightarrow> bool" where
  "responds u (RequestResponse u' data) \<longleftrightarrow> u' = u"
| "responds u m \<longleftrightarrow> False"

text \<open>
  With \<open>H\<close> the marks of the messages handled: the statuses given are those wanted, in order; a request
  in the table was handled; and what was wanted before a request has its status before the response.
\<close>

definition daemon_side :: "'s \<Rightarrow> 'u mark list \<Rightarrow> ('c, 's, 'u) CpuComDaemon \<Rightarrow> bool" where
  "daemon_side s H d \<longleftrightarrow>
     map fst (statuses (outbox s d)) = wanted_of H \<and>
     (\<forall>u rc. (u, rc, s) \<in> set (m_requests d) \<longrightarrow> Asks u \<in> set H) \<and>
     (\<forall>u. (\<exists>m\<in>set (outbox s d). responds u m) \<longrightarrow> Asks u \<in> set H \<and>
        length (wanted_of (takeWhile (\<lambda>x. x \<noteq> Asks u) H)) \<le>
          length (statuses (takeWhile (\<lambda>m. \<not> responds u m) (outbox s d))))"

lemma takeWhile_grows: "x \<in> set xs \<Longrightarrow> \<not> P x \<Longrightarrow> takeWhile P (xs @ ys) = takeWhile P xs"
  by (simp add: takeWhile_append1)

lemma length_wanted_takeWhile: "length (wanted_of (takeWhile P H)) \<le> length (wanted_of H)"
proof -
  have "wanted_of H = wanted_of (takeWhile P H) @ wanted_of (dropWhile P H)"
    by (metis concat_append map_append takeWhile_dropWhile_id)
  then show ?thesis by simp
qed

lemma daemon_side_extend:
  assumes side: "daemon_side s H d" and out: "outbox s d' = outbox s d @ new"
    and stat: "map fst (statuses new) = wanted_of h"
    and req: "\<And>u rc. (u, rc, s) \<in> set (m_requests d') \<Longrightarrow> (u, rc, s) \<in> set (m_requests d) \<or> Asks u \<in> set h"
    and resp: "\<And>u m. m \<in> set new \<Longrightarrow> responds u m \<Longrightarrow> \<exists>rc. (u, rc, s) \<in> set (m_requests d)"
  shows "daemon_side s (H @ h) d'"
  unfolding daemon_side_def
proof (intro conjI allI impI)
  show "map fst (statuses (outbox s d')) = wanted_of (H @ h)" using side stat by (simp add: daemon_side_def out)
  show "Asks u \<in> set (H @ h)" if "(u, rc, s) \<in> set (m_requests d')" for u rc
    using req [OF that] side unfolding daemon_side_def set_append Un_iff by blast
  fix u
  assume "\<exists>m\<in>set (outbox s d'). responds u m"
  then consider m where "m \<in> set (outbox s d)" "responds u m"
    | m where "\<forall>m\<in>set (outbox s d). \<not> responds u m" "m \<in> set new" "responds u m"
    unfolding out by auto
  then show "Asks u \<in> set (H @ h)" and "length (wanted_of (takeWhile (\<lambda>x. x \<noteq> Asks u) (H @ h))) \<le>
      length (statuses (takeWhile (\<lambda>m. \<not> responds u m) (outbox s d')))"
  proof (atomize (full), cases)
    case 1
    then have a: "Asks u \<in> set H" and b: "length (wanted_of (takeWhile (\<lambda>x. x \<noteq> Asks u) H)) \<le>
        length (statuses (takeWhile (\<lambda>m. \<not> responds u m) (outbox s d)))"
      using side unfolding daemon_side_def by blast+
    have "takeWhile (\<lambda>x. x \<noteq> Asks u) (H @ h) = takeWhile (\<lambda>x. x \<noteq> Asks u) H" by (rule takeWhile_grows [OF a]) simp
    moreover have "takeWhile (\<lambda>m. \<not> responds u m) (outbox s d @ new) = takeWhile (\<lambda>m. \<not> responds u m) (outbox s d)"
      by (rule takeWhile_grows [OF 1(1)]) (simp add: 1(2))
    ultimately show "Asks u \<in> set (H @ h) \<and> length (wanted_of (takeWhile (\<lambda>x. x \<noteq> Asks u) (H @ h))) \<le>
        length (statuses (takeWhile (\<lambda>m. \<not> responds u m) (outbox s d')))"
      using a b by (simp add: out)
  next
    case 2
    then obtain rc where "(u, rc, s) \<in> set (m_requests d)" using resp by blast
    then have a: "Asks u \<in> set H" using side unfolding daemon_side_def by blast
    have "takeWhile (\<lambda>x. x \<noteq> Asks u) (H @ h) = takeWhile (\<lambda>x. x \<noteq> Asks u) H" by (rule takeWhile_grows [OF a]) simp
    moreover have "takeWhile (\<lambda>m. \<not> responds u m) (outbox s d @ new) =
        outbox s d @ takeWhile (\<lambda>m. \<not> responds u m) new"
      using 2(1) by (simp add: takeWhile_append2)
    moreover have "length (wanted_of H) = length (statuses (outbox s d))"
      using side unfolding daemon_side_def by (metis length_map)
    ultimately show "Asks u \<in> set (H @ h) \<and> length (wanted_of (takeWhile (\<lambda>x. x \<noteq> Asks u) (H @ h))) \<le>
        length (statuses (takeWhile (\<lambda>m. \<not> responds u m) (outbox s d')))"
      using a length_wanted_takeWhile [of "\<lambda>x. x \<noteq> Asks u" H] by (simp add: out)
  qed
qed

lemma message_output:
  assumes "handle_message C s m d = Ret d'"
  shows "\<exists>new. m_messageServer d' = m_messageServer d @ map (Pair s) new \<and> map fst (statuses new) = wanted_of (message_mark m) \<and>
    (\<forall>u. \<forall>x\<in>set new. \<not> responds u x)"
proof (cases m)
  case (SendCommand command data)
  then obtain r vcpu where "d' = d\<lparr>m_vcpu := vcpu,
      m_messageServer := m_messageServer d @ (if r then [] else [(s, SendCommandResult command ERR_BUSY)])\<rparr>"
    using assms by (auto elim: onSendCommand_Ret)
  then show ?thesis
    by (intro exI [of _ "if r then [] else [SendCommandResult command ERR_BUSY]"]) (simp add: SendCommand)
next
  case (SendCommandWithDeliveryStatus u command data)
  then obtain r vcpu where "d' = d\<lparr>m_vcpu := vcpu, m_messageServer := m_messageServer d @ [(s, DeliveryStatus u r)]\<rparr>"
    using assms by (auto elim: onSendCommandWithDeliveryStatus_Ret)
  then show ?thesis by (intro exI [of _ "[DeliveryStatus u r]"]) (simp add: SendCommandWithDeliveryStatus)
qed (use assms in \<open>auto simp: onSubscribe_def onUnsubscribe_def onCancelRequest_state intro!: exI [of _ "[]"] elim!: onRequest_Ret\<close>)

lemma daemon_side_message:
  assumes "daemon_side s H d" "handle_message C s m d = Ret d'"
  shows "daemon_side s (H @ message_mark m) d'"
proof -
  obtain new where new: "m_messageServer d' = m_messageServer d @ map (Pair s) new"
      "map fst (statuses new) = wanted_of (message_mark m)" "\<forall>u. \<forall>x\<in>set new. \<not> responds u x"
    using message_output [OF assms(2)] by blast
  have "filter (\<lambda>x. fst x = s) (map (Pair s) new) = map (Pair s) new" by (induction new) simp_all
  then have out: "outbox s d' = outbox s d @ new" by (simp add: outbox_def new(1) comp_def)
  have "set (m_requests d') \<subseteq> set (m_requests d) \<union>
      {(u, rc, s') |u rc s'. \<exists>command data. Message s m = Message s' (Request u command data rc)}"
    using daemon_step_requests [of C "Message s m" d d'] assms(2) by simp
  then have "(u, rc, s) \<in> set (m_requests d) \<or> Asks u \<in> set (message_mark m)" if "(u, rc, s) \<in> set (m_requests d')" for u rc
    using that by (cases m) auto
  then show ?thesis using new(3) by (intro daemon_side_extend [OF assms(1) out new(2)]) auto
qed

lemma daemon_side_step:
  assumes "daemon_side s H d" "daemon_step C e d = Ret d'" "\<forall>m. e \<noteq> Message s m"
  shows "daemon_side s H d'"
proof -
  obtain new where new: "m_messageServer d' = m_messageServer d @ new"
    "\<forall>(s', m)\<in>set new. (\<exists>m'. e = Message s' m') \<or>
      e = VcpuRound \<and> ((\<exists>command data. s' \<in> set (subscribers_at command (m_subscribers d)) \<and> m = Notification command data) \<or>
        (\<exists>u command data. (u, command, s') \<in> set (m_requests d) \<and> m = RequestResponse u data))"
    using daemon_step_output [OF assms(2)] by blast
  let ?new = "map snd (filter (\<lambda>x. fst x = s) new)"
  have out: "outbox s d' = outbox s d @ ?new" by (simp add: outbox_def new(1))
  have m: "(\<exists>command data. m = Notification command data) \<or> (\<exists>u command data. (u, command, s) \<in> set (m_requests d) \<and> m = RequestResponse u data)"
    if "m \<in> set ?new" for m
    using that new(2) assms(3) by fastforce
  have "status_of m = []" if "m \<in> set ?new" for m using m [OF that] by auto
  then have stat: "map fst (statuses ?new) = wanted_of []" by (auto simp: concat_eq_Nil_conv)
  have "(u, rc, s) \<in> set (m_requests d)" if "(u, rc, s) \<in> set (m_requests d')" for u rc
    using daemon_step_requests [OF assms(2)] that assms(3) by blast
  moreover have "\<exists>rc. (u, rc, s) \<in> set (m_requests d)" if "x \<in> set ?new" "responds u x" for u x
    using m [OF that(1)] that(2) by (elim disjE exE conjE) (simp_all del: split_paired_Ex, blast)
  ultimately show ?thesis using daemon_side_extend [OF assms(1) out stat] by (metis append_Nil2)
qed

section \<open>The client's side\<close>

text \<open>
  With \<open>S\<close> the sends that wanted a status and \<open>T\<close> the messages received: the statuses are those of
  the first sends, whose callbacks were called in order; the others are still registered.
\<close>

definition client_side :: "('u \<times> 'cb option) list \<Rightarrow> 'u DaemonMessage list \<Rightarrow> ('u, 'cb) CpuCom \<Rightarrow> bool" where
  "client_side S T c \<longleftrightarrow>
     map fst (statuses T) = map fst (take (length (statuses T)) S) \<and>
     m_deliveryStatusCallbacks c = map_of (drop (length (statuses T)) S) \<and>
     filter is_status_call (m_calls c) = status_calls S (statuses T) \<and>
     (\<forall>u. m_promises c u \<noteq> None \<longrightarrow> (\<exists>m\<in>set T. responds u m))"

lemma length_statuses_le: "map fst ss = map fst (take (length ss) S) \<Longrightarrow> length ss \<le> length S"
  by (metis length_map length_take min.cobounded1)

lemma status_calls_more: "length ys \<le> length xs \<Longrightarrow> status_calls (xs @ zs) ys = status_calls xs ys"
  by (simp add: status_calls_def zip_append1)

lemma zip_take: "zip (take (length ys) xs) ys = zip xs ys"
proof -
  have "zip (take (length ys) xs) ys = take (length ys) (zip xs ys)" by (simp add: take_zip)
  then show ?thesis by simp
qed

lemma map_of_snoc: "map_of xs k = None \<Longrightarrow> map_of (xs @ [(k, v)]) = (map_of xs)(k \<mapsto> v)"
  by (auto simp: map_add_def fun_eq_iff split: option.splits)

lemma client_side_event:
  assumes "client_side S T c" "distinct (map fst (S @ sent_by e))" "\<forall>m. e \<noteq> Incoming m"
  shows "client_side (S @ sent_by e) T (client_step code e c)"
proof -
  have k: "length (statuses T) \<le> length S"
    using assms(1) by (intro length_statuses_le) (simp add: client_side_def)
  show ?thesis
  proof (cases e)
    case (SendStatus u command data cb)
    have "u \<notin> fst ` set (drop (length (statuses T)) S)"
      using assms(2) SendStatus by (auto dest: in_set_dropD)
    then have "map_of (drop (length (statuses T)) S) u = None" by (simp add: map_of_eq_None_iff)
    then show ?thesis
      using assms(1) SendStatus k
      by (simp add: client_side_def client_defs map_insert_def status_calls_more map_of_snoc
          del: map_of_append)
  next
    case ConnectionResumed
    have "filter is_status_call (m_calls (fold (\<lambda>x. post (Subscribe x)) xs c)) = filter is_status_call (m_calls c)"
      "m_deliveryStatusCallbacks (fold (\<lambda>x. post (Subscribe x)) xs c) = m_deliveryStatusCallbacks c" for xs
      by (induction xs arbitrary: c) simp_all
    then show ?thesis using assms(1) ConnectionResumed by (simp add: client_side_def client_defs)
  qed (use assms in \<open>auto simp: client_side_def client_defs call_def split: option.splits\<close>)
qed

lemma client_side_receive:
  assumes side: "client_side S T c" and dist: "distinct (map fst S)"
    and next_one: "map fst (statuses (T @ [m])) = map fst (take (length (statuses (T @ [m]))) S)"
  shows "client_side S (T @ [m]) (client_receive code m c)"
proof (cases m)
  case (DeliveryStatus u r)
  let ?k = "length (statuses T)"
  have k: "Suc ?k \<le> length S" using length_statuses_le [OF next_one] DeliveryStatus by simp
  obtain cb where S: "S ! ?k = (u, cb)"
  proof -
    have n: "map fst (statuses T) @ [u] = map fst (take (Suc ?k) S)" using next_one DeliveryStatus by simp
    have "fst (S ! ?k) = map fst (take (Suc ?k) S) ! ?k" using k by simp
    also have "\<dots> = u" unfolding n [symmetric] by (simp add: nth_append)
    finally show thesis using that by (cases "S ! ?k") simp
  qed
  then have d: "drop ?k S = (u, cb) # drop (Suc ?k) S" using k by (metis Cons_nth_drop_Suc Suc_le_lessD)
  have "u \<notin> fst ` set (drop (Suc ?k) S)"
  proof -
    have "distinct (map fst (drop ?k S))" using dist by (simp flip: drop_map)
    then show ?thesis unfolding d by simp
  qed
  then have rest: "(map_of (drop ?k S))(u := None) = map_of (drop (Suc ?k) S)" and cb: "map_of (drop ?k S) u = Some cb"
    unfolding d by (auto simp: map_of_eq_None_iff [symmetric])
  have "zip S (statuses T @ [(u, r)]) = zip S (statuses T) @ [((u, cb), (u, r))]"
    using k S by (simp add: zip_append2 d zip_take)
  then have calls: "status_calls S (statuses T @ [(u, r)]) = status_calls S (statuses T) @ status_call (u, cb) (u, r)"
    by (simp add: status_calls_def)
  show ?thesis
    using side next_one DeliveryStatus rest cb calls
    by (auto simp: client_side_def client_defs call_def status_call_def split: option.splits)
next
  case (RequestResponse u data)
  then show ?thesis using side by (auto simp: client_side_def client_defs)
qed (use side in \<open>auto simp: client_side_def client_defs call_def split: option.splits\<close>)

section \<open>The whole session\<close>

definition session_inv :: "'s \<Rightarrow> ('u, 'cb) client_event list \<Rightarrow> ('c, 's, 'u, 'cb) session \<Rightarrow> bool" where
  "session_inv s es x \<longleftrightarrow>
     handled x \<le> length (m_messenger (client x)) \<and> received x \<le> length (outbox s (server x)) \<and>
     marks (m_messenger (client x)) = concat (map event_mark es) \<and>
     daemon_side s (marks (take (handled x) (m_messenger (client x)))) (server x) \<and>
     client_side (sent es) (take (received x) (outbox s (server x))) (client x)"

lemma handle_keeps_outbox: "handle_message C s m d = Ret d' \<Longrightarrow> \<exists>new. outbox s d' = outbox s d @ new"
  using message_output [of C s m d d'] by (auto simp: outbox_def)

lemma step_keeps_outbox: "daemon_step C e d = Ret d' \<Longrightarrow> \<exists>new. outbox s d' = outbox s d @ new"
  using daemon_step_output [of C e d d'] by (auto simp: outbox_def)

lemma marks_prefix:
  assumes "marks (m_messenger c) = concat (map event_mark es)" "daemon_side s (marks (take h (m_messenger c))) d"
  shows "map fst (statuses (take n (outbox s d))) = map fst (take (length (statuses (take n (outbox s d)))) (sent es))"
proof -
  have "map fst (statuses (take n (outbox s d))) @ map fst (statuses (drop n (outbox s d))) = map fst (statuses (outbox s d))"
    by (simp flip: map_append concat_append)
  also have "\<dots> = wanted_of (marks (take h (m_messenger c)))" using assms(2) by (simp add: daemon_side_def)
  finally have a: "map fst (statuses (take n (outbox s d))) @ map fst (statuses (drop n (outbox s d))) =
      wanted_of (marks (take h (m_messenger c)))" .
  have "wanted_of (marks (take h (m_messenger c))) @ wanted_of (marks (drop h (m_messenger c))) =
      wanted_of (marks (m_messenger c))"
    by (simp flip: map_append concat_append)
  also have "\<dots> = map fst (sent es)" by (simp add: assms(1) sent_marks)
  finally have "map fst (sent es) = map fst (statuses (take n (outbox s d))) @
      map fst (statuses (drop n (outbox s d))) @ wanted_of (marks (drop h (m_messenger c)))"
    by (simp flip: a)
  then show ?thesis by (simp add: take_map [symmetric])
qed

lemma session_inv_daemon:
  assumes "session_inv s es x" and h: "handled x < length (m_messenger (client x))"
    and d: "handle_message C s (m_messenger (client x) ! handled x) (server x) = Ret d"
  shows "session_inv s es (x\<lparr>server := d, handled := Suc (handled x)\<rparr>)"
proof -
  let ?M = "m_messenger (client x)"
  have "daemon_side s (marks (take (handled x) ?M)) (server x)" using assms(1) by (simp add: session_inv_def)
  then have "daemon_side s (marks (take (Suc (handled x)) ?M)) d"
    using daemon_side_message [OF _ d] h by (simp add: take_Suc_conv_app_nth)
  moreover obtain new where "outbox s d = outbox s (server x) @ new" using handle_keeps_outbox [OF d] by blast
  ultimately show ?thesis using assms(1) h by (simp add: session_inv_def)
qed

lemma session_inv_client:
  assumes inv: "session_inv s es x" and r: "received x < length (outbox s (server x))" and "distinct (map fst (sent es))"
  shows "session_inv s es (x\<lparr>client := client_receive code (outbox s (server x) ! received x) (client x),
    received := Suc (received x)\<rparr>)"
proof -
  let ?out = "outbox s (server x)"
  have i: "marks (m_messenger (client x)) = concat (map event_mark es)"
    "daemon_side s (marks (take (handled x) (m_messenger (client x)))) (server x)"
    "client_side (sent es) (take (received x) ?out) (client x)"
    using inv by (simp_all add: session_inv_def)
  have t: "take (Suc (received x)) ?out = take (received x) ?out @ [?out ! received x]"
    using r by (simp add: take_Suc_conv_app_nth)
  have "client_side (sent es) (take (Suc (received x)) ?out) (client_receive code (?out ! received x) (client x))"
    unfolding t by (rule client_side_receive [OF i(3)])
      (use assms(3) marks_prefix [OF i(1,2), of "Suc (received x)", unfolded t] in simp_all)
  then show ?thesis using inv r by (auto simp: session_inv_def client_receive_messages)
qed

lemma session_inv_step:
  assumes inv: "session_inv s es x" and step: "session_step C s code e x = Ret y" and "proper s e"
    and dist: "distinct (map fst (sent (es @ client_part e)))"
  shows "session_inv s (es @ client_part e) y"
proof -
  let ?M = "m_messenger (client x)" and ?out = "outbox s (server x)"
  have i: "handled x \<le> length ?M" "received x \<le> length ?out" "marks ?M = concat (map event_mark es)"
      "daemon_side s (marks (take (handled x) ?M)) (server x)" "client_side (sent es) (take (received x) ?out) (client x)"
    using inv by (simp_all add: session_inv_def)
  show ?thesis
  proof (cases e)
    case (Client_does ce)
    then have no: "\<forall>m. ce \<noteq> Incoming m" using assms(3) by (cases ce) simp_all
    obtain ms where ms: "m_messenger (client_step code ce (client x)) = ?M @ ms" "marks ms = event_mark ce"
      using client_step_marks [OF no] by blast
    have "client_side (sent es @ sent_by ce) (take (received x) ?out) (client_step code ce (client x))"
      by (rule client_side_event [OF i(5) _ no]) (use dist Client_does in simp)
    then show ?thesis using i ms step Client_does by (auto simp: session_inv_def)
  next
    case Daemon_handles
    show ?thesis
    proof (cases "handled x < length ?M")
      case True
      then obtain d where "handle_message C s (?M ! handled x) (server x) = Ret d" "y = x\<lparr>server := d, handled := Suc (handled x)\<rparr>"
        using step Daemon_handles by (auto simp: omap_eq_Ret)
      then show ?thesis using session_inv_daemon [OF inv True] Daemon_handles by simp
    qed (use inv step Daemon_handles in simp)
  next
    case (Daemon_does de)
    then obtain d where d: "daemon_step C de (server x) = Ret d" "y = x\<lparr>server := d\<rparr>"
      using step by (auto simp: omap_eq_Ret)
    obtain new where "outbox s d = ?out @ new" using step_keeps_outbox [OF d(1)] by blast
    moreover have "\<forall>m. de \<noteq> Message s m" using assms(3) Daemon_does by auto
    then have "daemon_side s (marks (take (handled x) ?M)) d" by (rule daemon_side_step [OF i(4) d(1)])
    ultimately show ?thesis using i d(2) Daemon_does by (simp add: session_inv_def)
  next
    case Client_handles
    show ?thesis
    proof (cases "received x < length ?out")
      case True
      then show ?thesis using session_inv_client [OF inv True] dist step Client_handles by auto
    qed (use inv step Client_handles in simp)
  qed
qed

lemma session_run_append: "session_run C s code (es @ fs) x = obind (session_run C s code es x) (session_run C s code fs)"
proof (induction es arbitrary: x)
  case (Cons e es)
  then show ?case by (cases "session_step C s code e x") simp_all
qed simp

text \<open>A daemon to which the session is new.\<close>

definition new_to :: "'s \<Rightarrow> ('c, 's, 'u) CpuComDaemon \<Rightarrow> bool" where
  "new_to s d \<longleftrightarrow> outbox s d = [] \<and> (\<forall>u rc. (u, rc, s) \<notin> set (m_requests d))"

lemma session_run_inv:
  assumes "new_to s d" and "session_run C s code evs (session_start d) = Ret x" and "list_all (proper s) evs"
    and "distinct (map fst (sent (client_events evs)))"
  shows "session_inv s (client_events evs) x"
  using assms(2-4)
proof (induction evs arbitrary: x rule: rev_induct)
  case Nil
  then show ?case using assms(1)
    by (auto simp: session_inv_def session_start_def CpuCom_new_def client_events_def daemon_side_def client_side_def
        new_to_def status_calls_def)
next
  case (snoc e evs)
  then obtain y where y: "session_run C s code evs (session_start d) = Ret y" "session_step C s code e y = Ret x"
    by (auto simp: session_run_append obind_eq_Ret)
  have "session_inv s (client_events evs) y"
    by (rule snoc.IH [OF y(1)]) (use snoc.prems in \<open>auto simp: client_events_def\<close>)
  then show ?case
    using session_inv_step [OF _ y(2)] snoc.prems by (simp add: client_events_def)
qed

section \<open>Properties\<close>

lemma status_calls_append:
  "length xs = length ys \<Longrightarrow> status_calls (xs @ xs') (ys @ ys') = status_calls xs ys @ status_calls xs' ys'"
  by (simp add: status_calls_def)

lemma marks_before:
  assumes "\<forall>e\<in>set es. \<not> makes u e"
  shows "takeWhile (\<lambda>x. x \<noteq> Asks u) (concat (map event_mark es) @ Asks u # xs) = concat (map event_mark es)"
proof -
  have "Asks u \<notin> set (event_mark e)" if "\<not> makes u e" for e using that by (cases e) auto
  then have "\<forall>x\<in>set (concat (map event_mark es)). x \<noteq> Asks u" using assms by auto
  then have "takeWhile (\<lambda>x. x \<noteq> Asks u) (concat (map event_mark es) @ Asks u # xs) =
      concat (map event_mark es) @ takeWhile (\<lambda>x. x \<noteq> Asks u) (Asks u # xs)"
    by (intro takeWhile_append2) blast
  then show ?thesis by simp
qed

lemma statuses_before:
  assumes "new_to s d" and "session_run C s code evs (session_start d) = Ret x" and "list_all (proper s) evs"
    and "distinct (map fst (sent (client_events evs)))"
    and "client_events evs = es @ MakeRequest u command data resp # es'" and "\<forall>e\<in>set es. \<not> makes u e"
    and "m_promises (client x) u \<noteq> None"
  shows "\<exists>results rest. map fst results = map fst (sent es) \<and>
    filter is_status_call (m_calls (client x)) = status_calls (sent es) results @ status_calls (sent es') rest"
proof -
  let ?M = "m_messenger (client x)" and ?out = "outbox s (server x)"
  let ?T = "take (received x) ?out" and ?H = "marks (take (handled x) ?M)"
  let ?P = "\<lambda>m. \<not> responds u m" and ?n = "length (sent es)"
  have inv: "marks ?M = concat (map event_mark (client_events evs))" "daemon_side s ?H (server x)"
      "client_side (sent (client_events evs)) ?T (client x)"
    using session_run_inv [OF assms(1-4)] by (simp_all add: session_inv_def)
  obtain m where m: "m \<in> set ?T" "responds u m" using inv(3) assms(7) unfolding client_side_def by blast
  then have "\<exists>m\<in>set ?out. responds u m" by (auto dest: in_set_takeD)
  then have a: "Asks u \<in> set ?H" and le: "length (wanted_of (takeWhile (\<lambda>x. x \<noteq> Asks u) ?H)) \<le>
      length (statuses (takeWhile ?P ?out))"
    using inv(2) unfolding daemon_side_def by blast+
  have "takeWhile (\<lambda>x. x \<noteq> Asks u) ?H = takeWhile (\<lambda>x. x \<noteq> Asks u) (?H @ marks (drop (handled x) ?M))"
    by (rule takeWhile_grows [OF a, symmetric]) simp
  also have "?H @ marks (drop (handled x) ?M) = marks ?M" by (simp flip: map_append concat_append)
  also have "\<dots> = concat (map event_mark es) @ Asks u # concat (map event_mark es')" by (simp add: inv(1) assms(5))
  also note marks_before [OF assms(6)]
  finally have tw: "takeWhile (\<lambda>x. x \<noteq> Asks u) ?H = concat (map event_mark es)" .
  have "length (wanted_of (takeWhile (\<lambda>x. x \<noteq> Asks u) ?H)) = ?n"
    using arg_cong [OF sent_marks [of es], of length] unfolding tw by (simp only: length_map)
  moreover have "takeWhile ?P ?out = takeWhile ?P ?T"
    using takeWhile_grows [OF m(1), of ?P "drop (received x) ?out"] m(2) by simp
  moreover have "length (statuses (takeWhile ?P ?T)) \<le> length (statuses ?T)"
    by (metis concat_append le_add1 length_append map_append takeWhile_dropWhile_id)
  ultimately have n: "?n \<le> length (statuses ?T)" using le by simp
  let ?r = "take ?n (statuses ?T)"
  have S: "sent (client_events evs) = sent es @ sent es'" by (simp add: assms(5))
  have "map fst ?r = take ?n (map fst (take (length (statuses ?T)) (sent (client_events evs))))"
    using inv(3) by (simp add: client_side_def take_map [symmetric])
  also have "\<dots> = map fst (sent es)" using n by (simp add: S take_map [symmetric])
  finally have r: "map fst ?r = map fst (sent es)" .
  have "filter is_status_call (m_calls (client x)) = status_calls (sent es @ sent es') (?r @ drop ?n (statuses ?T))"
    using inv(3) by (simp add: client_side_def S)
  also have "\<dots> = status_calls (sent es) ?r @ status_calls (sent es') (drop ?n (statuses ?T))"
    using n by (intro status_calls_append) simp
  finally show ?thesis using r by blast
qed


end
