(* ===== verification/RoundTrip.thy ===== *)
theory RoundTrip
  imports DeviceMap System Session
begin

text \<open>
  A request from the application to the V-CPU and back: the client library, the daemon, its CPU with
  one line for each direction, the frames on the two lines, and the object in the application that
  holds the answer.
\<close>

section \<open>A line that confirms\<close>

text \<open>Draining it finds nothing, every write succeeds, and what is waited for is an \<open>ACK\<close>.\<close>

definition confirms :: "'e IODevice \<Rightarrow> bool" where
  "confirms E \<longleftrightarrow> (\<forall>b e. \<exists>b' e'. drain E (IO_Success, b, e) = Some (IO_Timeout, b', e')) \<and>
     (\<forall>e b. fst (dev_write_byte E e b) = IO_Success) \<and> (\<forall>e f. fst (dev_write E e f) = IO_Success) \<and>
     (\<forall>e b. \<exists>e'. dev_read E e kTimeout3 b = (IO_Success, ACK, e'))"

lemma confirms_logged:
  fixes E :: "'e IODevice"
  assumes "confirms E"
  shows "confirms (logged E)"
  unfolding confirms_def
proof (intro conjI allI)
  fix b and e :: "'e \<times> io_event list"
  obtain b' e' where d: "drain E (IO_Success, b, fst e) = Some (IO_Timeout, b', e')"
    using assms unfolding confirms_def by blast
  then show "\<exists>b' e'. drain (logged E) (IO_Success, b, e) = Some (IO_Timeout, b', e')"
    using observed.map_first_drain [of E IO_Success b e] by (cases "drain (logged E) (IO_Success, b, e)") auto
next
  fix e :: "'e \<times> io_event list" and b
  show "fst (dev_write_byte (logged E) e b) = IO_Success" using assms by (cases e) (simp add: confirms_def)
next
  fix e :: "'e \<times> io_event list" and f
  show "fst (dev_write (logged E) e f) = IO_Success" using assms by (cases e) (simp add: confirms_def)
next
  fix e :: "'e \<times> io_event list" and b
  obtain e' where "dev_read E (fst e) kTimeout3 b = (IO_Success, ACK, e')" using assms unfolding confirms_def by blast
  then show "\<exists>e'. dev_read (logged E) e kTimeout3 b = (IO_Success, ACK, e')" by (cases e) simp
qed

lemma send_run_next:
  assumes "fsm_runner run" and "q \<noteq> S_end"
  shows "run (send_handlers D) send_transitions q S_end w =
    obind (send_handlers D q w) (\<lambda>(e, w'). run (send_handlers D) send_transitions (send_next q e) S_end w')"
  using assms(2) by (intro fsm_runner.run_unfold [OF assms(1)]) (simp_all add: send_transitions_def)

lemmas send_frame_unfold = send_run_next [of _ S_reenquiry] send_run_next [of _ S_ack] send_run_next [of _ S_frame]
  send_run_next [of _ S_ack2] send_run_next [of _ S_done]

text \<open>One frame: enquiry, confirmation, the frame, confirmation.\<close>

lemma send_one_confirmed:
  assumes run: "fsm_runner run" and E: "confirms E" and k: "m_currentFrame c < length (m_frames c)"
  shows "\<exists>d. run (send_handlers E) send_transitions S_reenquiry S_end (c, p) =
    run (send_handlers E) send_transitions S_done S_end (c, p\<lparr>m_device := d\<rparr>)"
proof -
  obtain b d1 where d1: "drain E (IO_Success, 0, m_device p) = Some (IO_Timeout, b, d1)"
    using E unfolding confirms_def by blast
  obtain d2 where d2: "dev_write_byte E d1 ENQ = (IO_Success, d2)"
    using E unfolding confirms_def by (metis prod.collapse)
  obtain d3 where d3: "dev_read E d2 kTimeout3 0 = (IO_Success, ACK, d3)" using E unfolding confirms_def by blast
  obtain d4 where d4: "dev_write E d3 (m_frames c ! m_currentFrame c) = (IO_Success, d4)"
    using E unfolding confirms_def by (metis prod.collapse)
  obtain d5 where d5: "dev_read E d4 kTimeout3 0 = (IO_Success, ACK, d5)" using E unfolding confirms_def by blast
  have "run (send_handlers E) send_transitions S_reenquiry S_end (c, p) =
      run (send_handlers E) send_transitions S_done S_end (c, p\<lparr>m_device := d5\<rparr>)"
    using k by (simp add: send_frame_unfold(1-4) [OF run] sendReenquiry_def sendAcknowledgement_def sendFrame_def
        sendAcknowledgement2_def currentFrame_def d1 d2 d3 d4 d5)
  then show ?thesis by blast
qed

lemma send_rest_confirmed:
  assumes run: "fsm_runner run" and E: "confirms E"
    and "m_accessLock p = Some Sending" and "Suc (m_currentFrame c) + n = length (m_frames c)"
  shows "\<exists>c' p'. run (send_handlers E) send_transitions S_reenquiry S_end (c, p) = Ret (c', p') \<and> m_result c'"
  using assms(3,4)
proof (induction n arbitrary: c p)
  case 0
  then obtain d where d: "run (send_handlers E) send_transitions S_reenquiry S_end (c, p) =
    run (send_handlers E) send_transitions S_done S_end (c, p\<lparr>m_device := d\<rparr>)"
    using send_one_confirmed [OF run E, of c p] by auto
  have "run (send_handlers E) send_transitions S_end S_end (c\<lparr>m_result := True\<rparr>, p\<lparr>m_device := d\<rparr>) =
      Ret (c\<lparr>m_result := True\<rparr>, p\<lparr>m_device := d, m_accessLock := None\<rparr>)"
    using 0 by (intro fsm_runner.run_final [OF run, where e = Pass]) (simp add: sendEnd_def)
  moreover have "\<not> hasFramesToSend c" using 0 by (auto simp: hasFramesToSend_def)
  ultimately have "run (send_handlers E) send_transitions S_reenquiry S_end (c, p) =
      Ret (c\<lparr>m_result := True\<rparr>, p\<lparr>m_device := d, m_accessLock := None\<rparr>)"
    by (simp add: d send_frame_unfold(5) [OF run] sendDone_def)
  then show ?case by fastforce
next
  case (Suc n)
  then obtain d where d: "run (send_handlers E) send_transitions S_reenquiry S_end (c, p) =
    run (send_handlers E) send_transitions S_done S_end (c, p\<lparr>m_device := d\<rparr>)"
    using send_one_confirmed [OF run E, of c p] by auto
  have "hasFramesToSend c" using Suc.prems by (auto simp: hasFramesToSend_def)
  then have "run (send_handlers E) send_transitions S_reenquiry S_end (c, p) =
      run (send_handlers E) send_transitions S_reenquiry S_end (c\<lparr>m_currentFrame := m_currentFrame c + 1\<rparr>, p\<lparr>m_device := d\<rparr>)"
    using Suc.prems by (simp add: d send_frame_unfold(5) [OF run] sendDone_def onFrameCompleted_def Let_def)
  then show ?case
    using Suc.IH [of "p\<lparr>m_device := d\<rparr>" "c\<lparr>m_currentFrame := m_currentFrame c + 1\<rparr>"] Suc.prems by simp
qed

lemma send_confirmed:
  assumes run: "fsm_runner run" and E: "confirms E" and "m_accessLock p = None" and "2 < length data" and "length data < 2 ^ 32"
  shows "\<exists>p'. protocol_send run cs E p data = Ret (True, p')"
proof -
  let ?c = "SendContext cs data" and ?p = "p\<lparr>m_r2 := 0, m_accessLock := Some Sending\<rparr>"
  have "run (send_handlers E) send_transitions S_idle S_end (?c, p) = run (send_handlers E) send_transitions S_reenquiry S_end (?c, ?p)"
    using assms(3)
    by (simp add: send_run_next [OF run, of S_idle] send_run_next [OF run, of S_enquiry] sendIdle_def sendEnquiry_def)
  moreover obtain c' p' where "run (send_handlers E) send_transitions S_reenquiry S_end (?c, ?p) = Ret (c', p')" "m_result c'"
    using send_rest_confirmed [OF run E, of ?p ?c "length (prepareFrames cs data) - 1"] prepareFrames_nonempty [OF assms(5), of cs]
    by (auto simp: SendContext_def)
  ultimately show ?thesis using assms(4) by (simp add: protocol_send_def)
qed

section \<open>A CPU on two lines\<close>

text \<open>
  \<^verbatim>\<open>MultipleCPU\<close> between its construction and its first call: on one line the frames \<open>fs\<close> wait to be
  read, the other is in the state \<open>e\<close>, recorded from here on.
\<close>

definition two_lines :: "'e IODevice \<Rightarrow> (paced + ('e \<times> io_event list)) IODevice" where
  "two_lines E = side_by_side paced_line (logged E)"

definition between :: "byte list list \<Rightarrow> 'e \<Rightarrow> (paced + ('e \<times> io_event list)) MultipleCPU" where
  "between fs e = MultipleCPU_new (map_protocol Inl (listening fs)) (map_protocol Inr (fresh (e, []))) kAddressVCPU"

text \<open>The frames that were confirmed on the line on which the CPU sends.\<close>

definition confirmed_frames :: "(paced + ('e \<times> io_event list)) MultipleCPU \<Rightarrow> byte list list" where
  "confirmed_frames cpu = (case m_device (mProtocolTransmit cpu) of Inl x \<Rightarrow> [] | Inr (e, l) \<Rightarrow> acked l)"

lemma between_write:
  assumes run: "fsm_runner runS" and E: "confirms E" and "length data < 2 ^ 32 - 3"
  shows "\<exists>cpu. MultipleCPU_write runS cs (two_lines E) (between fs e) command data = Ret (True, cpu) \<and>
    confirmed_frames cpu = prepareFrames cs (pack command (getSendCodebit kAddressVCPU) data) \<and>
    mProtocolReceive cpu = map_protocol Inl (listening fs) \<and> mc_receiveCodebit cpu = getReceiveCodebit kAddressVCPU"
proof -
  let ?m = "pack command (getSendCodebit kAddressVCPU) data"
  have len: "2 < length ?m" "length ?m < 2 ^ 32" using assms(3) by simp_all
  obtain p' where p': "protocol_send fsm_run cs (logged E) (fresh (e, [])) ?m = Ret (True, p')"
    using send_confirmed [OF ref.fsm_runner_axioms confirms_logged [OF E], of "fresh (e, [])" ?m cs] len by auto
  have "acked (snd (m_device p')) = prepareFrames cs ?m"
    using send_outcome [OF ref.fsm_runner_axioms _ _ len(2) p'] by simp
  moreover have "protocol_send runS cs (two_lines E) (map_protocol Inr (fresh (e, []))) ?m = Ret (True, map_protocol Inr p')"
    unfolding two_lines_def by (rule right_line.map_send(1) [OF ref.fsm_runner_axioms run p'])
  ultimately show ?thesis
    by (simp add: MultipleCPU_write_def between_def MultipleCPU_new_def confirmed_frames_def case_prod_beta)
qed

lemma between_read:
  assumes run: "fsm_runner runR" and "length data \<le> 1024"
    and "mProtocolReceive cpu = map_protocol Inl (listening (prepareFrames cs (pack command cb data)))"
    and "mc_receiveCodebit cpu = cb"
  shows "\<exists>p'. MultipleCPU_read runR cs (two_lines E) cpu = Ret (Some (command, data), cpu\<lparr>mProtocolReceive := p'\<rparr>)"
proof -
  let ?m = "pack command cb data"
  have "length ?m \<notin> {1028, 1029, 1030}" "as_delivered ?m = ?m"
    using assms(2) by (auto simp: as_delivered_def)
  then obtain p' where "protocol_receive fsm_run cs paced_line (listening (prepareFrames cs ?m)) = Ret (Some ?m, p')"
    using receive_frames [OF ref.fsm_runner_axioms, of ?m cs] assms(2) by auto
  then have "protocol_receive runR cs (two_lines E) (mProtocolReceive cpu) = Ret (Some ?m, map_protocol Inl p')"
    unfolding two_lines_def assms(3) by (rule left_line.map_receive(1) [OF ref.fsm_runner_axioms run])
  then show ?thesis
    by (auto simp: MultipleCPU_read_def accept_message_def unpack_pack assms(4))
qed

section \<open>The daemon's part\<close>

lemma outbox_of: "m_messageServer d' = m_messageServer d @ ms \<Longrightarrow> outbox s d' = outbox s d @ map snd (filter (\<lambda>x. fst x = s) ms)"
  by (simp add: outbox_def)

lemma filter_same: "filter (\<lambda>x. fst x = s) (map (\<lambda>s. (s, m)) xs) = map (\<lambda>s. (s, m)) (filter (\<lambda>x. x = s) xs)"
  by (induction xs) auto

lemma filter_in_set: "distinct xs \<Longrightarrow> filter (\<lambda>x. x = s) xs = (if s \<in> set xs then [s] else [])"
  by (induction xs) auto

lemma find_last: "\<forall>r\<in>set rs. \<not> P r \<Longrightarrow> P y \<Longrightarrow> find P (rs @ [y]) = Some y"
  by (induction rs) auto

text \<open>After the request and a round of reading, the session's queue ends with the answer.\<close>

lemma daemon_answers:
  fixes d :: "(_, 's :: linorder, 'u) CpuComDaemon"
  assumes runS: "fsm_runner runS" and runR: "fsm_runner runR" and E: "confirms E"
    and len: "length data \<le> 1024" "length answer \<le> 1024"
    and inv: "daemon_inv d" and running: "m_running d" and new: "new_to s d"
    and free: "\<forall>r\<in>set (m_requests d). fst (snd r) \<noteq> resp"
    and cpu: "m_vcpu d = between (prepareFrames cs (pack resp (getReceiveCodebit kAddressVCPU) answer)) e"
  shows "\<exists>d1 d2. handle_message (MultipleCPU_ops runS runR cs (two_lines E)) s (Request u command data resp) d = Ret d1 \<and>
    daemon_step (MultipleCPU_ops runS runR cs (two_lines E)) VcpuRound d1 = Ret d2 \<and>
    outbox s d2 = (if (s, resp) \<in> subscriptions d then [Notification resp answer] else []) @ [RequestResponse u answer] \<and>
    confirmed_frames (m_vcpu d2) = prepareFrames cs (pack command (getSendCodebit kAddressVCPU) data)"
proof -
  let ?C = "MultipleCPU_ops runS runR cs (two_lines E)"
  obtain v where v: "MultipleCPU_write runS cs (two_lines E) (m_vcpu d) command data = Ret (True, v)"
    and sent: "confirmed_frames v = prepareFrames cs (pack command (getSendCodebit kAddressVCPU) data)"
    and rd: "mProtocolReceive v = map_protocol Inl (listening (prepareFrames cs (pack resp (getReceiveCodebit kAddressVCPU) answer)))"
      "mc_receiveCodebit v = getReceiveCodebit kAddressVCPU"
    using between_write [OF runS E, of data cs _ e command] len(1) unfolding cpu by force
  let ?d1 = "d\<lparr>m_requests := m_requests d @ [(u, resp, s)], m_vcpu := v\<rparr>"
  have d1: "handle_message ?C s (Request u command data resp) d = Ret ?d1"
    by (simp add: onRequest_def cpu_write_daemon_def MultipleCPU_ops_def v)
  obtain p' where p': "MultipleCPU_read runR cs (two_lines E) v = Ret (Some (resp, answer), v\<lparr>mProtocolReceive := p'\<rparr>)"
    using between_read [OF runR len(2) rd] by blast
  let ?d1' = "?d1\<lparr>m_vcpu := v\<lparr>mProtocolReceive := p'\<rparr>\<rparr>"
  let ?d2 = "onReceiveCommand resp answer ?d1'"
  have d2: "daemon_step ?C VcpuRound ?d1 = Ret ?d2"
    using running by (simp add: isRunning_def vcpuThreadFunction_def MultipleCPU_ops_def p')
  have "find (\<lambda>r. fst (snd r) = resp) (m_requests d @ [(u, resp, s)]) = Some (u, resp, s)"
    using free by (intro find_last) auto
  then have "m_messageServer ?d2 = m_messageServer d @
      map (\<lambda>s. (s, Notification resp answer)) (subscribers_at resp (m_subscribers d)) @ [(s, RequestResponse u answer)]"
    by (simp add: onReceiveCommand_output)
  note out = outbox_of [OF this, of s]
  have "distinct (subscribers_at resp (m_subscribers d))" using inv unfolding daemon_inv_def is_set_def by blast
  then have "outbox s ?d2 = (if (s, resp) \<in> subscriptions d then [Notification resp answer] else []) @ [RequestResponse u answer]"
    using new unfolding out by (simp add: new_to_def filter_same filter_in_set subscriptions_def)
  moreover have "confirmed_frames (m_vcpu ?d2) = prepareFrames cs (pack command (getSendCodebit kAddressVCPU) data)"
    using sent by (simp add: onReceiveCommand_state confirmed_frames_def)
  ultimately show ?thesis using d1 d2 by blast
qed

section \<open>Properties\<close>


definition sample_daemon :: "byte list \<Rightarrow> ((paced + (unit \<times> io_event list)) MultipleCPU, nat, nat) CpuComDaemon" where
  "sample_daemon answer = onSubscribe 5 (0x90, 2) (snd (daemon_start
     (MultipleCPU_ops fsm_run fsm_run no_checksum (two_lines (steady_peer IO_Success ACK))) True
     (CpuComDaemon_new (between (prepareFrames no_checksum (pack (0x90, 2) (getSendCodebit kAddressMCPU) answer)) ()))))"


end
