(* ===== verification/Texts.thy ===== *)
theory Texts
  imports EmulatorUtils
begin

text \<open>
  The texts in which commands are shown: the line the daemon logs for each command that passes it
  (\<^verbatim>\<open>to_string\<close> in \<^verbatim>\<open>CpuComDaemon.cpp\<close>), and what the interactive client prints for a
  command it receives (\<^verbatim>\<open>TestNative.cpp\<close>). From either text the command can be read back,
  and from the daemon's as many bytes of the data as it is told to show.
\<close>

section \<open>Numbers\<close>

fun dec_text :: "nat \<Rightarrow> string" where
  "dec_text n = (if n < 10 then [digit_char n] else dec_text (n div 10) @ [digit_char (n mod 10)])"

declare dec_text.simps [simp del]

definition dec_int :: "int \<Rightarrow> string" where
  "dec_int i = (if i < 0 then CHR ''-'' # dec_text (nat (- i)) else dec_text (nat i))"

text \<open>\<^verbatim>\<open>std::setw(w)\<close> with \<^verbatim>\<open>std::setfill('0')\<close>.\<close>

definition zero_filled :: "nat \<Rightarrow> string \<Rightarrow> string" where
  "zero_filled w s = replicate (w - length s) CHR ''0'' @ s"

section \<open>The texts\<close>

definition to_string :: "CpuCommand \<Rightarrow> byte list \<Rightarrow> nat \<Rightarrow> string" where
  "to_string command data maxDataSizeToPrint =
     ''cmd='' @ hex2 (fst command) @ hex2 (snd command) @
     '', len='' @ zero_filled 3 (dec_int (sint (word_of_nat (length data) :: u32))) @
     (if data \<noteq> []
      then '', dat='' @ (let size = min maxDataSizeToPrint (length data)
                         in concat (map (\<lambda>i. hex2 (data ! i)) [0..<size]))
      else [])"

definition kMaxDataSizeToPrint :: nat where "kMaxDataSizeToPrint = 253"

definition received_text :: "CpuCommand \<Rightarrow> byte list \<Rightarrow> string" where
  "received_text command payload =
     ''-> ['' @ hex1 (fst command) @ '','' @ hex1 (snd command) @ '']. '' @
     ''data size = '' @ dec_text (length payload) @ ''. ['' @
     concat (map (\<lambda>i. hex2 (payload ! i) @ (if i \<noteq> length payload - 1 then '' '' else [])) [0..<length payload]) @
     '']'' @ [CHR 0x0A]"

section \<open>Reading them back\<close>

lemma last_digit: "n mod 10 < (16 :: nat)"
  using mod_less_divisor [of 10 n] by linarith

lemma dec_text_no_comma: "CHR '','' \<notin> set (dec_text n)"
proof (induction n rule: dec_text.induct)
  case (1 n)
  then show ?case
    using digit_char_cases(3) [of n] digit_char_cases(3) [of "n mod 10", OF last_digit]
    by (subst dec_text.simps) auto
qed

lemma dec_int_no_comma: "CHR '','' \<notin> set (dec_int i)"
  by (simp add: dec_int_def dec_text_no_comma)

lemma zero_filled_no_comma: "CHR '','' \<notin> set s \<Longrightarrow> CHR '','' \<notin> set (zero_filled w s)"
  by (simp add: zero_filled_def)

lemma hex2_inj: "hex2 a = hex2 b \<longleftrightarrow> a = b"
  by (metis hex2_props(1) word_unat_eq_iff)

lemma hex1_inj: "hex1 a = hex1 b \<longleftrightarrow> a = b"
  by (metis hex1_props(1) word_unat_eq_iff)

lemma length_hex2 [simp]: "length (hex2 b) = 2"
  by (simp add: hex2_def)

lemma hex2_append: "hex2 a @ r = hex2 b @ s \<longleftrightarrow> a = b \<and> r = s"
  by (simp add: append_eq_append_conv hex2_inj)

lemma hex2_list_inj: "concat (map hex2 xs) = concat (map hex2 ys) \<longleftrightarrow> xs = ys"
proof (induction xs arbitrary: ys)
  case Nil
  then show ?case by (cases ys) (simp_all add: hex2_props)
next
  case (Cons x xs)
  then show ?case by (cases ys) (simp_all add: hex2_append hex2_props)
qed

text \<open>What stands before the first separator is determined.\<close>

lemma split_at: "(x :: char) \<notin> set a \<Longrightarrow> x \<notin> set b \<Longrightarrow> a @ x # r = b @ x # s \<longleftrightarrow> a = b \<and> r = s"
  by (auto simp: getline_append dest: arg_cong [where f = "\<lambda>s. getline s x"])

lemma shown_bytes: "concat (map (\<lambda>i. hex2 (data ! i)) [0..<min n (length data)]) = concat (map hex2 (take n data))"
proof -
  have "take n data = map (\<lambda>i. data ! i) [0..<min n (length data)]" by (rule nth_equalityI) simp_all
  then show ?thesis by (simp add: comp_def)
qed

text \<open>
  Two commands that the daemon shows alike are the same, and so is the data as far as it is shown.
  The commands of one frame are shown in full.
\<close>

lemma to_string_shows:
  assumes "to_string command data n = to_string command' data' n"
  shows "command = command' \<and> take n data = take n data'"
proof -
  let ?len = "\<lambda>d. zero_filled 3 (dec_int (sint (word_of_nat (length d) :: u32)))"
  let ?dat = "\<lambda>d. if d \<noteq> [] then '', dat='' @ concat (map hex2 (take n d)) else []"
  have no_comma: "CHR '','' \<notin> set (?len d)" for d :: "byte list" by (intro zero_filled_no_comma dec_int_no_comma)
  have eq: "hex2 (fst command) @ hex2 (snd command) @ '', len='' @ ?len data @ ?dat data =
      hex2 (fst command') @ hex2 (snd command') @ '', len='' @ ?len data' @ ?dat data'"
    using assms by (simp add: to_string_def Let_def shown_bytes cong: if_cong)
  then have c: "command = command'" and rest: "?len data @ ?dat data = ?len data' @ ?dat data'"
    by (auto simp: hex2_append prod_eq_iff)
  have "takeWhile (\<lambda>c. c \<noteq> CHR '','') (?len d @ ?dat d) = ?len d" for d
    using no_comma [of d] by (auto simp: takeWhile_append takeWhile_eq_all_conv)
  then have "?len data = ?len data'" using rest by metis
  then have "?dat data = ?dat data'" using rest by simp
  then show ?thesis using c by (auto simp: hex2_list_inj split: if_splits)
qed

lemma to_string_frame:
  "to_string command data kMaxDataSizeToPrint = to_string command' data' kMaxDataSizeToPrint \<Longrightarrow>
     length data \<le> 253 \<Longrightarrow> length data' \<le> 253 \<Longrightarrow> command = command' \<and> data = data'"
  using to_string_shows [of command data kMaxDataSizeToPrint command' data'] by (simp add: kMaxDataSizeToPrint_def)

text \<open>The client prints a command and the size of its data so that both can be read back.\<close>

lemma received_text_shows:
  assumes "received_text command payload = received_text command' payload'"
  shows "command = command'"
proof -
  have no_end: "CHR '']'' \<notin> set (hex1 b)" for b
  proof -
    have "\<not> isxdigit CHR '']''" by (simp add: isxdigit_def)
    then show ?thesis using hex1_props(2) [of b] by (auto simp: list_all_iff)
  qed
  have "hex1 (fst command) @ CHR '','' # hex1 (snd command) @ CHR '']'' # drop 1 (dropWhile (\<lambda>c. c \<noteq> CHR '']'') (received_text command payload)) =
      hex1 (fst command') @ CHR '','' # hex1 (snd command') @ CHR '']'' # drop 1 (dropWhile (\<lambda>c. c \<noteq> CHR '']'') (received_text command' payload'))"
    using assms no_end by (simp add: received_text_def dropWhile_append)
  then show ?thesis by (simp add: split_at hex1_props no_end hex1_inj prod_eq_iff)
qed

lemma text_samples:
  "to_string (0x8f, 1) [1, 0xab] 253 = ''cmd=8f01, len=002, dat=01ab''"
  "to_string (0x8f, 1) [] 253 = ''cmd=8f01, len=000''"
  "received_text (0x8f, 1) [1, 0xab] = ''-> [8f,1]. data size = 2. [01 ab]'' @ [CHR 0x0A]"
  by code_simp+

end
