(* ===== verification/Duplex.thy ===== *)
theory Duplex
  imports SendProperties DeviceMap
begin

text \<open>
  Two threads on one protocol object: the one that sends and the one that receives, each in its own
  machine, a handler at a time in any order. They share the device and the mutex. \<^verbatim>\<open>sendRetry\<close>
  unlocks before it closes and opens the device again, so its two halves are separate turns.
\<close>

section \<open>The two halves of sendRetry\<close>

datatype send_point = Sender_idle | At SendState | Reopening

definition sendRetry_release :: "'d Protocol \<Rightarrow> (send_point \<times> 'd Protocol) outcome" where
  "sendRetry_release p =
     (let p = p\<lparr>m_r2 := m_r2 p + 1\<rparr> in
      if m_r2 p < kMaxNumberOfSendAttempts
      then omap (\<lambda>p. (if m_r2 p mod kSendAttemptsForPortReinit = 0 then Reopening else At S_enquiry, p))
             (mutex_unlock Sending p)
      else Ret (At S_error, p))"

definition sendRetry_reopen :: "'d IODevice \<Rightarrow> 'd Protocol \<Rightarrow> 'd Protocol" where
  "sendRetry_reopen D p = p\<lparr>m_device := snd (dev_open D (dev_close D (m_device p)))\<rparr>"

text \<open>Without the other thread in between, the halves are the handler.\<close>

lemma sendRetry_halves:
  "sendRetry D (c, p) =
     omap (\<lambda>(pt, p). (if pt = At S_error then Fail else Pass, (c, if pt = Reopening then sendRetry_reopen D p else p)))
       (sendRetry_release p)"
  by (simp add: sendRetry_def sendRetry_release_def sendRetry_reopen_def mutex_unlock_def Let_def)

section \<open>Turns\<close>

datatype recv_point = Receiver_idle | In RecvState

record 'd duplex =
  sender :: send_point
  send_context :: SendContext
  receiver :: recv_point
  recv_context :: RecvContext
  protocol :: "'d Protocol"

text \<open>
  A turn of the sender inside a call of \<^verbatim>\<open>send\<close>; between calls it has none. The call is over
  when the handler of the final state has run.
\<close>

definition set_sender :: "'d duplex \<Rightarrow> send_point \<times> 'd send_world \<Rightarrow> 'd duplex" where
  "set_sender x = (\<lambda>(s, c, p). x\<lparr>sender := s, send_context := c, protocol := p\<rparr>)"

definition sender_turn :: "'d IODevice \<Rightarrow> 'd duplex \<Rightarrow> 'd duplex outcome" where
  "sender_turn D x =
     (let c = send_context x; p = protocol x in
      case sender x of
        Sender_idle \<Rightarrow> Blocked
      | Reopening \<Rightarrow> Ret (set_sender x (At S_enquiry, c, sendRetry_reopen D p))
      | At q \<Rightarrow>
          (if q = S_retry then omap (\<lambda>(pt, p). set_sender x (pt, c, p)) (sendRetry_release p)
           else omap (\<lambda>(e, w). set_sender x (if q = S_end then Sender_idle else At (send_next q e), w))
                  (send_handlers D q (c, p))))"

text \<open>The receiver calls \<^verbatim>\<open>receive\<close> again and again.\<close>

definition set_receiver :: "'d duplex \<Rightarrow> recv_point \<times> 'd recv_world \<Rightarrow> 'd duplex" where
  "set_receiver x = (\<lambda>(r, c, p). x\<lparr>receiver := r, recv_context := c, protocol := p\<rparr>)"

definition receiver_turn :: "(byte list \<Rightarrow> byte) \<Rightarrow> 'd IODevice \<Rightarrow> 'd duplex \<Rightarrow> 'd duplex outcome" where
  "receiver_turn cs D x =
     (case receiver x of
        Receiver_idle \<Rightarrow> Ret (x\<lparr>receiver := In R_idle, recv_context := RecvContext\<rparr>)
      | In q \<Rightarrow> omap (\<lambda>(e, w). set_receiver x (if q = R_end then Receiver_idle else In (recv_next q e), w))
                  (recv_handlers cs D q (recv_context x, protocol x)))"

definition begin_send :: "(byte list \<Rightarrow> byte) \<Rightarrow> byte list \<Rightarrow> 'd duplex \<Rightarrow> 'd duplex" where
  "begin_send cs data x = x\<lparr>sender := At S_idle, send_context := SendContext cs data\<rparr>"

text \<open>The turns that can follow one another while a call of \<^verbatim>\<open>send\<close> lasts, and over many calls.\<close>

inductive duplex_move :: "(byte list \<Rightarrow> byte) \<Rightarrow> 'd IODevice \<Rightarrow> 'd duplex \<Rightarrow> 'd duplex \<Rightarrow> bool" for cs D where
  sender_moves: "sender_turn D x = Ret y \<Longrightarrow> duplex_move cs D x y"
| receiver_moves: "receiver_turn cs D x = Ret y \<Longrightarrow> duplex_move cs D x y"

inductive duplex_step :: "(byte list \<Rightarrow> byte) \<Rightarrow> 'd IODevice \<Rightarrow> 'd duplex \<Rightarrow> 'd duplex \<Rightarrow> bool" for cs D where
  moves: "duplex_move cs D x y \<Longrightarrow> duplex_step cs D x y"
| sends: "sender x = Sender_idle \<Longrightarrow> length data < 2 ^ 32 \<Longrightarrow> duplex_step cs D x (begin_send cs data x)"

definition duplex_start :: "'d Protocol \<Rightarrow> 'd duplex" where
  "duplex_start p = \<lparr>sender = Sender_idle, send_context = \<lparr>m_currentFrame = 0, m_frames = [], m_result = False\<rparr>,
     receiver = Receiver_idle, recv_context = RecvContext, protocol = p\<rparr>"

text \<open>A schedule names whose turn it is.\<close>

fun run_turns :: "(byte list \<Rightarrow> byte) \<Rightarrow> 'd IODevice \<Rightarrow> party list \<Rightarrow> 'd duplex \<Rightarrow> 'd duplex outcome" where
  "run_turns cs D [] x = Ret x"
| "run_turns cs D (Sending # ts) x = obind (sender_turn D x) (run_turns cs D ts)"
| "run_turns cs D (Receiving # ts) x = obind (receiver_turn cs D x) (run_turns cs D ts)"

lemma run_turns_moves: "run_turns cs D ts x = Ret y \<Longrightarrow> (duplex_move cs D)\<^sup>*\<^sup>* x y"
proof (induction ts arbitrary: x)
  case (Cons t ts)
  then obtain z where "(case t of Sending \<Rightarrow> sender_turn D x | Receiving \<Rightarrow> receiver_turn cs D x) = Ret z"
    and z: "run_turns cs D ts z = Ret y"
    by (cases t) (auto simp: obind_eq_Ret)
  then have "duplex_move cs D x z" by (cases t) (auto intro: duplex_move.intros)
  then show ?case using Cons.IH [OF z] by (rule converse_rtranclp_into_rtranclp)
qed simp

lemma moves_steps: "(duplex_move cs D)\<^sup>*\<^sup>* x y \<Longrightarrow> (duplex_step cs D)\<^sup>*\<^sup>* x y"
  by (induction rule: rtranclp_induct) (auto intro: rtranclp.rtrancl_into_rtrancl moves)

section \<open>Who holds the mutex\<close>

fun sender_holds :: "send_point \<Rightarrow> bool" where
  "sender_holds (At q) = (\<not> send_unlocked q)"
| "sender_holds _ = False"

fun receiver_holds :: "recv_point \<Rightarrow> bool" where
  "receiver_holds (In q) = (q \<noteq> R_idle \<and> q \<noteq> R_poll)"
| "receiver_holds Receiver_idle = False"

definition lock_inv :: "'d duplex \<Rightarrow> bool" where
  "lock_inv x \<longleftrightarrow> (m_accessLock (protocol x) = Some Sending \<longleftrightarrow> sender_holds (sender x)) \<and>
     (m_accessLock (protocol x) = Some Receiving \<longleftrightarrow> receiver_holds (receiver x))"

text \<open>The state of its machine that a sender's point belongs to, and what holds of its own data there.\<close>

fun send_state :: "send_point \<Rightarrow> SendState" where
  "send_state Sender_idle = S_end"
| "send_state Reopening = S_enquiry"
| "send_state (At q) = q"

definition send_ok :: "byte list list \<Rightarrow> SendState \<Rightarrow> SendContext \<Rightarrow> u32 \<Rightarrow> bool" where
  "send_ok fs q c r2 \<longleftrightarrow> m_frames c = fs \<and> m_currentFrame c < length fs \<and>
     (q \<notin> {S_idle, S_error, S_end} \<longrightarrow> r2 < kMaxNumberOfSendAttempts)"

lemma send_inv_ok: "send_inv fs q (c, p) \<longleftrightarrow> send_ok fs q c (m_r2 p) \<and>
    m_accessLock p = (if send_unlocked q then None else Some Sending)"
  by (auto simp: send_inv_def send_ok_def)

definition sender_ok :: "byte list list \<Rightarrow> 'd duplex \<Rightarrow> bool" where
  "sender_ok fs x \<longleftrightarrow> send_ok fs (send_state (sender x)) (send_context x) (m_r2 (protocol x))"

definition receiver_ok :: "(byte list \<Rightarrow> byte) \<Rightarrow> 'd duplex \<Rightarrow> bool" where
  "receiver_ok cs x \<longleftrightarrow> (case receiver x of Receiver_idle \<Rightarrow> True | In q \<Rightarrow> recv_inv cs q (recv_context x, protocol x))"

lemma recv_inv_protocol: "recv_inv cs q (c, p) \<Longrightarrow> recv_inv cs q (c, p')"
  by (simp add: recv_inv_def)

section \<open>The sender's turns\<close>

lemma send_next_locked:
  assumes "send_handlers D q (c, p) = Ret (e, w')" and "q \<notin> {S_wait, S_retry, S_end, S_idle}"
  shows "\<not> send_unlocked (send_next q e)"
  using assms by (cases q; cases e) (auto simp: send_unlocked_def sendError_def sendEnquiry_def omap_eq_Ret)

text \<open>When the sender can go on, its machine is in the state it would be in alone.\<close>

lemma sender_step:
  assumes "lock_inv x" and "sender x = At q" and "q \<notin> {S_idle, S_retry}"
    and "send_handlers D q (send_context x, protocol x) = Ret (e, (c', p'))"
    and "send_ok fs q (send_context x) (m_r2 (protocol x))"
  shows "send_inv fs q (send_context x, protocol x)"
proof -
  have "m_accessLock (protocol x) = (if send_unlocked q then None else Some Sending)"
  proof (cases "q = S_enquiry")
    case True
    then show ?thesis using assms(4)
      by (auto simp: sendEnquiry_def outcome_eqs mutex_lock_def send_unlocked_def split: option.splits if_splits)
  next
    case False
    then show ?thesis using assms(1,2,3) by (auto simp: lock_inv_def send_unlocked_def)
  qed
  then show ?thesis using assms(5) by (simp add: send_inv_ok)
qed

lemma sender_turn_At:
  assumes "sender_turn D x = Ret y" and "sender x = At q" and "q \<notin> {S_retry, S_end}"
  obtains e c' p' where "send_handlers D q (send_context x, protocol x) = Ret (e, (c', p'))"
    "y = x\<lparr>sender := At (send_next q e), send_context := c', protocol := p'\<rparr>"
  using assms by (auto simp: sender_turn_def Let_def omap_eq_Ret set_sender_def)

lemma sender_turn_end:
  assumes "sender_turn D x = Ret y" and "sender x = At S_end"
  shows "y = x\<lparr>sender := Sender_idle, protocol := (protocol x)\<lparr>m_accessLock := None\<rparr>\<rparr>"
  using assms by (auto simp: sender_turn_def Let_def omap_eq_Ret set_sender_def sendEnd_def mutex_unlock_def split: if_splits)

lemma sender_turn_retry:
  assumes "sender_turn D x = Ret y" and "sender x = At S_retry"
  obtains "m_r2 (protocol x) + 1 < kMaxNumberOfSendAttempts" "m_accessLock (protocol x) = Some Sending"
      "y = x\<lparr>sender := (if (m_r2 (protocol x) + 1) mod kSendAttemptsForPortReinit = 0 then Reopening else At S_enquiry),
         protocol := (protocol x)\<lparr>m_r2 := m_r2 (protocol x) + 1, m_accessLock := None\<rparr>\<rparr>"
  | "\<not> m_r2 (protocol x) + 1 < kMaxNumberOfSendAttempts"
      "y = x\<lparr>sender := At S_error, protocol := (protocol x)\<lparr>m_r2 := m_r2 (protocol x) + 1\<rparr>\<rparr>"
  using assms
  by (auto simp: sender_turn_def Let_def omap_eq_Ret set_sender_def sendRetry_release_def mutex_unlock_def split: if_splits)

lemma sender_turn_reopen:
  assumes "sender_turn D x = Ret y" and "sender x = Reopening"
  shows "y = x\<lparr>sender := At S_enquiry, protocol := sendRetry_reopen D (protocol x)\<rparr>"
  using assms by (simp add: sender_turn_def Let_def set_sender_def)

lemma sender_turn_idle: "sender_turn D x = Ret y \<Longrightarrow> sender x \<noteq> Sender_idle"
  by (auto simp: sender_turn_def Let_def)

lemma sender_turn_inv:
  assumes turn: "sender_turn D x = Ret y" and lock: "lock_inv x" and ok: "sender_ok fs x"
  shows "lock_inv y \<and> sender_ok fs y"
proof (cases "sender x")
  case Sender_idle
  then show ?thesis using sender_turn_idle [OF turn] by simp
next
  case Reopening
  then show ?thesis using sender_turn_reopen [OF turn Reopening] lock ok
    by (simp add: lock_inv_def sender_ok_def sendRetry_reopen_def send_unlocked_def)
next
  case (At q)
  consider "q = S_idle" | "q = S_retry" | "q = S_end" | "q \<notin> {S_idle, S_retry, S_end}" by blast
  then show ?thesis
  proof cases
    case 1
    then show ?thesis using turn lock ok At
      by (auto simp: sender_turn_def set_sender_def sendIdle_def lock_inv_def sender_ok_def send_ok_def send_unlocked_def
          kMaxNumberOfSendAttempts_def)
  next
    case 2
    with At have s: "sender x = At S_retry" by simp
    show ?thesis
      by (rule sender_turn_retry [OF turn s])
         (use lock ok s in \<open>auto simp: lock_inv_def sender_ok_def send_ok_def send_unlocked_def\<close>)
  next
    case 3
    with At have s: "sender x = At S_end" by simp
    show ?thesis using sender_turn_end [OF turn s] lock ok s
      by (auto simp: lock_inv_def sender_ok_def send_ok_def send_unlocked_def)
  next
    case 4
    then have q: "q \<notin> {S_retry, S_end}" "q \<notin> {S_idle, S_retry}" by auto
    obtain e c' p' where h: "send_handlers D q (send_context x, protocol x) = Ret (e, (c', p'))"
      and y: "y = x\<lparr>sender := At (send_next q e), send_context := c', protocol := p'\<rparr>"
      by (rule sender_turn_At [OF turn At q(1)])
    have inv: "send_inv fs q (send_context x, protocol x)"
      by (rule sender_step [OF lock At q(2) h]) (use ok At in \<open>simp add: sender_ok_def\<close>)
    then have inv': "send_inv fs (send_next q e) (c', p')" using send_inv_step [OF inv _ h] q(1) by simp
    have "\<not> receiver_holds (receiver x)"
      using inv lock by (auto simp: send_inv_ok lock_inv_def split: if_splits)
    then show ?thesis using inv' unfolding y by (auto simp: lock_inv_def sender_ok_def send_inv_ok split: if_splits)
  qed
qed

lemma sender_turn_receiver:
  "sender_turn D x = Ret y \<Longrightarrow> receiver y = receiver x \<and> recv_context y = recv_context x"
  by (auto simp: sender_turn_def Let_def omap_eq_Ret set_sender_def split: send_point.splits if_splits)

lemma sender_turn_receiver_ok: "sender_turn D x = Ret y \<Longrightarrow> receiver_ok cs x \<Longrightarrow> receiver_ok cs y"
  by (drule sender_turn_receiver) (auto simp: receiver_ok_def split: recv_point.splits intro: recv_inv_protocol)

section \<open>The receiver's turns\<close>

lemma recv_keeps_r2:
  assumes "recv_handlers cs D q (c, p) = Ret (e, (c', p'))"
  shows "m_r2 p' = m_r2 p"
proof -
  consider "q \<in> {R_datacmd, R_dataextlen, R_dataframenumber, R_data}" | "q \<in> {R_stx, R_len, R_etx, R_cs}"
    | "q \<in> {R_idle, R_poll, R_repoll, R_enquiry, R_ack, R_ack2, R_nak, R_retry, R_done, R_error, R_end}"
    by (cases q) simp_all
  then show ?thesis
  proof cases
    case 1
    then show ?thesis using assms
      by (auto simp: recvDataCommand_def recvDataExtLen_def recvDataFrameNumber_def recvData_def outcome_eqs Let_def
          split: if_splits dest!: read_into_frame_Ret)
  next
    case 2
    then show ?thesis using assms
      by (auto simp: recvControlCode_def recvLength_def recvChecksum_def outcome_eqs Let_def case_prod_beta
          split: if_splits)
  next
    case 3
    then show ?thesis using assms
      by (elim insertE emptyE)
         (auto simp: recv_handler_defs outcome_eqs case_prod_beta mutex_lock_def mutex_unlock_def Let_def
           split: option.splits if_splits TransmitionType.splits)
  qed
qed

lemma receiver_turn_idle:
  "receiver x = Receiver_idle \<Longrightarrow> receiver_turn cs D x = Ret (x\<lparr>receiver := In R_idle, recv_context := RecvContext\<rparr>)"
  by (simp add: receiver_turn_def)

lemma receiver_turn_In:
  assumes "receiver_turn cs D x = Ret y" and "receiver x = In q"
  obtains e c' p' where "recv_handlers cs D q (recv_context x, protocol x) = Ret (e, (c', p'))"
    "y = x\<lparr>receiver := (if q = R_end then Receiver_idle else In (recv_next q e)), recv_context := c', protocol := p'\<rparr>"
  using assms by (auto simp: receiver_turn_def omap_eq_Ret set_receiver_def)

lemma receiver_locked:
  assumes "lock_inv x" and "receiver x = In q" and "q \<notin> {R_idle, R_poll}"
  shows "recv_locked q (recv_context x, protocol x)"
  using assms by (auto simp: lock_inv_def recv_locked_def)

lemma receiver_turn_lock:
  assumes turn: "receiver_turn cs D x = Ret y" and lock: "lock_inv x" and polls: "polls_succeed D"
  shows "lock_inv y"
proof (cases "receiver x")
  case Receiver_idle
  then show ?thesis using receiver_turn_idle [of x cs D] turn lock by (auto simp: lock_inv_def)
next
  case (In q)
  obtain e c' p' where h: "recv_handlers cs D q (recv_context x, protocol x) = Ret (e, (c', p'))"
    and y: "y = x\<lparr>receiver := (if q = R_end then Receiver_idle else In (recv_next q e)), recv_context := c', protocol := p'\<rparr>"
    by (rule receiver_turn_In [OF turn In])
  consider "q = R_idle" | "q = R_poll" | "q = R_end" | "q \<notin> {R_idle, R_poll, R_end}" by blast
  then show ?thesis
  proof cases
    case 1
    then show ?thesis using h lock In unfolding y by (auto simp: recvIdle_def lock_inv_def)
  next
    case 2
    then show ?thesis using h lock In polls unfolding y
      by (auto simp: recvPoll_def lock_inv_def polls_succeed_def Let_def outcome_eqs mutex_lock_def case_prod_beta
          split: option.splits if_splits)
  next
    case 3
    then show ?thesis using h lock In unfolding y
      by (auto simp: recvEnd_def lock_inv_def outcome_eqs mutex_unlock_def split: if_splits)
  next
    case 4
    have l: "recv_locked q (recv_context x, protocol x)" using receiver_locked [OF lock In] 4 by simp
    have "recv_locked (recv_next q e) (c', p')" using recv_locked_step [OF l polls _ h] 4 by simp
    moreover have "\<not> sender_holds (sender x)" using l lock 4 by (auto simp: recv_locked_def lock_inv_def)
    ultimately show ?thesis using 4 unfolding y by (auto simp: recv_locked_def lock_inv_def split: if_splits)
  qed
qed

lemma receiver_turn_sender:
  assumes "receiver_turn cs D x = Ret y"
  shows "sender y = sender x \<and> send_context y = send_context x \<and> m_r2 (protocol y) = m_r2 (protocol x)"
proof (cases "receiver x")
  case (In q)
  show ?thesis by (rule receiver_turn_In [OF assms In]) (simp add: recv_keeps_r2)
qed (use assms receiver_turn_idle [of x cs D] in auto)

lemma receiver_turn_sender_ok: "receiver_turn cs D x = Ret y \<Longrightarrow> sender_ok fs x \<Longrightarrow> sender_ok fs y"
  by (drule receiver_turn_sender) (simp add: sender_ok_def)

lemma receiver_turn_ok:
  assumes turn: "receiver_turn cs D x = Ret y" and ok: "receiver_ok cs x"
  shows "receiver_ok cs y"
proof (cases "receiver x")
  case Receiver_idle
  then show ?thesis using receiver_turn_idle [of x cs D] turn by (auto simp: receiver_ok_def recv_inv_start)
next
  case (In q)
  show ?thesis
    by (rule receiver_turn_In [OF turn In])
       (use ok In in \<open>auto simp: receiver_ok_def intro: recv_inv_step\<close>)
qed

section \<open>The invariant of both\<close>

definition duplex_inv :: "(byte list \<Rightarrow> byte) \<Rightarrow> 'd duplex \<Rightarrow> bool" where
  "duplex_inv cs x \<longleftrightarrow> lock_inv x \<and> receiver_ok cs x \<and> (sender x = Sender_idle \<or> (\<exists>fs. sender_ok fs x))"

lemma duplex_move_inv:
  assumes "duplex_move cs D x y" and inv: "duplex_inv cs x" and "polls_succeed D"
  shows "duplex_inv cs y"
  using assms(1)
proof (cases rule: duplex_move.cases)
  case sender_moves
  note t = this
  then obtain fs where "sender_ok fs x" using inv sender_turn_idle by (auto simp: duplex_inv_def)
  then show ?thesis
    using sender_turn_inv [OF t] sender_turn_receiver_ok [OF t] inv by (auto simp: duplex_inv_def)
next
  case receiver_moves
  note t = this
  show ?thesis
    using receiver_turn_lock [OF t _ assms(3)] receiver_turn_ok [OF t] receiver_turn_sender_ok [OF t]
      receiver_turn_sender [OF t] inv by (auto simp: duplex_inv_def)
qed

lemma begin_send_inv:
  assumes "sender x = Sender_idle" and "lock_inv x" and "length data < 2 ^ 32"
  shows "lock_inv (begin_send cs data x) \<and> sender_ok (prepareFrames cs data) (begin_send cs data x)"
  using assms prepareFrames_nonempty [OF assms(3)]
  by (simp add: begin_send_def lock_inv_def sender_ok_def send_ok_def SendContext_def send_unlocked_def)

lemma begin_send_receiver: "receiver_ok cs' (begin_send cs data x) = receiver_ok cs' x"
  by (simp add: begin_send_def receiver_ok_def cong: recv_point.case_cong)

lemma duplex_step_inv:
  assumes "duplex_step cs D x y" and "duplex_inv cs x" and "polls_succeed D"
  shows "duplex_inv cs y"
  using assms(1)
proof (cases rule: duplex_step.cases)
  case moves
  then show ?thesis using assms(2,3) by (rule duplex_move_inv)
next
  case (sends data)
  then show ?thesis using begin_send_inv [of x data cs] assms(2) by (auto simp: duplex_inv_def begin_send_receiver)
qed

lemma duplex_start_inv: "m_accessLock p = None \<Longrightarrow> duplex_inv cs (duplex_start p)"
  by (simp add: duplex_inv_def duplex_start_def lock_inv_def receiver_ok_def)

lemma duplex_reachable_inv:
  assumes "(duplex_step cs D)\<^sup>*\<^sup>* (duplex_start p) x" and "m_accessLock p = None" and "polls_succeed D"
  shows "duplex_inv cs x"
  using assms(1)
proof (induction rule: rtranclp_induct)
  case base
  show ?case by (rule duplex_start_inv [OF assms(2)])
next
  case (step y z)
  then show ?case using duplex_step_inv assms(3) by blast
qed

section \<open>Who can go on\<close>

lemma recv_not_blocked:
  assumes "recv_inv cs q (c, p)" and "recv_locked q (c, p)"
  shows "recv_handlers cs D q (c, p) \<noteq> Blocked"
proof -
  obtain fs f where f: "m_frames c = fs @ [f]" "m_currentFrame c = length fs"
    using assms(1) by (auto elim!: recv_invE)
  have n: "currentFrame c = Ret f" "\<And>bs. append_current bs c \<noteq> Blocked"
      "\<And>bs t l. append_current bs (c\<lparr>m_transmitionType := t, m_dataLength := l\<rparr>) \<noteq> Blocked"
      "recv_onFrameCompleted c \<noteq> Blocked"
    using f by (simp_all add: currentFrame_def append_current_def recv_onFrameCompleted_def
      onFrameCompleted_def vec_at_def)
  have lock: "m_accessLock p = (if q = R_idle \<or> q = R_poll then None else Some Receiving)"
    using assms(2) unfolding recv_locked_def by simp
  have omap_B: "omap f m = Blocked \<longleftrightarrow> m = Blocked" for f :: "'x \<Rightarrow> 'y" and m by (cases m) auto
  show ?thesis
  proof (cases q)
    case R_enquiry
    then show ?thesis by (simp add: recvEnquiry_def case_prod_beta split: option.splits)
  next
    case R_len
    then show ?thesis using n by (simp add: recvLength_def case_prod_beta Let_def omap_B)
  next
    case R_done
    then show ?thesis using n by (auto simp: recvDone_def omap_B split: TransmitionType.splits)
  qed (use n lock in \<open>auto simp: recv_handler_defs Let_def case_prod_beta omap_B\<close>)
qed

lemma recv_poll_outcome:
  assumes "polls_succeed D"
  shows "recv_handlers cs D R_poll (c, p) = Blocked \<longleftrightarrow> m_accessLock p = Some Sending"
    and "recv_handlers cs D R_poll (c, p) = Throw x \<Longrightarrow> m_accessLock p = Some Receiving"
  using assms
  by (auto simp: recvPoll_def polls_succeed_def Let_def case_prod_beta mutex_lock_def split: option.splits if_splits
      dest: spec [of _ "m_device p"] intro: party.exhaust)

lemma sender_locked:
  assumes "lock_inv x" and "sender x = At q" and "q \<notin> {S_idle, S_enquiry}" and "sender_ok fs x"
  shows "send_inv fs q (send_context x, protocol x)"
  using assms by (auto simp: send_inv_ok sender_ok_def lock_inv_def send_unlocked_def)

lemma sender_turn_outcome:
  assumes "lock_inv x" and "sender_ok fs x" and "sender x \<noteq> Sender_idle"
  shows "sender_turn D x \<noteq> Throw e"
    and "sender_turn D x = Blocked \<longleftrightarrow> sender x = At S_enquiry \<and> receiver_holds (receiver x)"
proof -
  have "sender_turn D x \<noteq> Throw e \<and>
    (sender_turn D x = Blocked \<longleftrightarrow> sender x = At S_enquiry \<and> receiver_holds (receiver x))"
  proof (cases "sender x")
    case (At q)
    consider "q = S_idle" | "q = S_enquiry" | "q = S_retry" | "q \<notin> {S_idle, S_enquiry, S_retry}" by blast
    then show ?thesis
    proof cases
      case 2
      then show ?thesis using At assms(1)
        by (cases "m_accessLock (protocol x)")
           (auto simp: sender_turn_def sendEnquiry_def lock_inv_def mutex_lock_def send_unlocked_def
              outcome_eqs intro: party.exhaust)
    next
      case 3
      then show ?thesis using At assms(1)
        by (simp add: sender_turn_def sendRetry_release_def lock_inv_def send_unlocked_def Let_def)
    next
      case 4
      then have "send_inv fs q (send_context x, protocol x)" using sender_locked [OF assms(1) At _ assms(2)] by simp
      from send_no_fault [OF this] show ?thesis using At 4
        by (simp add: sender_turn_def Let_def omap_eq_Throw omap_eq_Blocked)
    qed (use At in \<open>simp add: sender_turn_def sendIdle_def\<close>)
  qed (use assms(3) in \<open>simp_all add: sender_turn_def Let_def\<close>)
  then show "sender_turn D x \<noteq> Throw e"
    and "sender_turn D x = Blocked \<longleftrightarrow> sender x = At S_enquiry \<and> receiver_holds (receiver x)" by simp_all
qed

lemma receiver_turn_outcome:
  assumes "lock_inv x" and "receiver_ok cs x" and "polls_succeed D"
  shows "receiver_turn cs D x \<noteq> Throw e"
    and "receiver_turn cs D x = Blocked \<longleftrightarrow> receiver x = In R_poll \<and> sender_holds (sender x)"
proof -
  have "receiver_turn cs D x \<noteq> Throw e \<and>
    (receiver_turn cs D x = Blocked \<longleftrightarrow> receiver x = In R_poll \<and> sender_holds (sender x))"
  proof (cases "receiver x")
    case (In q)
    consider "q = R_idle" | "q = R_poll" | "q \<notin> {R_idle, R_poll}" by blast
    then show ?thesis
    proof cases
      case 2
      then show ?thesis using In assms(1) recv_poll_outcome [OF assms(3)]
        by (fastforce simp: receiver_turn_def lock_inv_def omap_eq_Throw omap_eq_Blocked)
    next
      case 3
      have l: "recv_locked q (recv_context x, protocol x)" by (rule receiver_locked [OF assms(1) In 3])
      have r: "recv_inv cs q (recv_context x, protocol x)" using assms(2) In by (simp add: receiver_ok_def)
      show ?thesis using In 3 recv_no_fault [OF r l] recv_not_blocked [OF r l]
        by (simp add: receiver_turn_def omap_eq_Throw omap_eq_Blocked)
    qed (use In in \<open>simp add: receiver_turn_def recvIdle_def\<close>)
  qed (simp add: receiver_turn_idle)
  then show "receiver_turn cs D x \<noteq> Throw e"
    and "receiver_turn cs D x = Blocked \<longleftrightarrow> receiver x = In R_poll \<and> sender_holds (sender x)" by simp_all
qed

lemma holds_excludes: "lock_inv x \<Longrightarrow> sender_holds (sender x) \<Longrightarrow> \<not> receiver_holds (receiver x)"
  by (auto simp: lock_inv_def)

text \<open>The device is left alone by a party that does not hold the mutex, but for two exceptions.\<close>

lemma sender_turn_device:
  assumes "sender_turn D x = Ret y" and "\<not> sender_holds (sender x)" and "sender x \<noteq> Reopening"
  shows "m_device (protocol y) = m_device (protocol x)"
proof (cases "sender x")
  case (At q)
  then have q: "q = S_idle \<or> q = S_enquiry" using assms(2) by (simp add: send_unlocked_def)
  then have q': "q \<notin> {S_retry, S_end}" by auto
  obtain e c' p' where h: "send_handlers D q (send_context x, protocol x) = Ret (e, (c', p'))"
      and y: "protocol y = p'"
    by (rule sender_turn_At [OF assms(1) At q']) simp
  show ?thesis using q h unfolding y
    by (auto simp: sendIdle_def sendEnquiry_def outcome_eqs mutex_lock_def split: option.splits if_splits)
qed (use assms sender_turn_idle in auto)

lemma receiver_turn_device:
  assumes "receiver_turn cs D x = Ret y" and "\<not> receiver_holds (receiver x)" and "receiver x \<noteq> In R_poll"
  shows "m_device (protocol y) = m_device (protocol x)"
  using assms
  by (auto simp: receiver_turn_def set_receiver_def recvIdle_def omap_eq_Ret split: recv_point.splits)

section \<open>What the two do to the line\<close>

text \<open>A device that records what is done to it, except for being polled.\<close>

definition observed :: "'d IODevice \<Rightarrow> ('d \<times> io_event list) IODevice" where
  "observed D = (logged D)\<lparr>dev_poll := (\<lambda>(d, l) t. case dev_poll D d t of (r, d) \<Rightarrow> (r, d, l))\<rparr>"

definition quiet :: "io_event list \<Rightarrow> bool" where
  "quiet n \<longleftrightarrow> (\<forall>r f. Wrote r f \<notin> set n)"

lemma quiet_simps [simp]: "quiet []" "quiet (e # n) \<longleftrightarrow> (\<forall>r f. e \<noteq> Wrote r f) \<and> quiet n"
  by (auto simp: quiet_def)

lemma quiet_acked:
  assumes "quiet n" and "\<not> frame_written l"
  shows "acked (n @ l) = acked l \<and> \<not> frame_written (n @ l)"
  using assms
proof (induction n)
  case (Cons e n)
  then show ?case by (cases e) (simp_all add: frame_written_def)
qed simp

lemma observed_ops [simp]:
  "dev_open (observed D) = dev_open (logged D)" "dev_close (observed D) = dev_close (logged D)"
  "dev_read (observed D) = dev_read (logged D)" "dev_readMulti (observed D) = dev_readMulti (logged D)"
  "dev_write_byte (observed D) = dev_write_byte (logged D)" "dev_write (observed D) = dev_write (logged D)"
  by (simp_all add: observed_def)

lemma observed_poll [simp]:
  "dev_poll (observed D) w t = (fst (dev_poll D (fst w) t), snd (dev_poll D (fst w) t), snd w)"
  by (cases w) (simp add: observed_def case_prod_beta)

lemma sendRetry_reopen_observed: "sendRetry_reopen (observed D) p = sendRetry_reopen (logged D) p"
  by (simp add: sendRetry_reopen_def)

lemma drain_observed [simp]: "drain (observed D) = drain (logged D)"
  by (simp add: drain_def fun_eq_iff)

lemma send_handlers_observed: "send_handlers (observed D) q = send_handlers (logged D) q"
  by (cases q) (simp_all add: send_handler_defs fun_eq_iff cong: option.case_cong if_cong let_cong)

lemma polls_succeed_observed [simp]: "polls_succeed (observed D) = polls_succeed D"
  by (simp add: polls_succeed_def)

lemma logged_log:
  "snd (snd (snd (dev_read (logged D) w t b))) = ReadByte (fst (dev_read D (fst w) t b)) (fst (snd (dev_read D (fst w) t b))) # snd w"
  "snd (snd (snd (dev_readMulti (logged D) w n t))) =
     ReadMulti (fst (dev_readMulti D (fst w) n t)) n (fst (snd (dev_readMulti D (fst w) n t))) # snd w"
  "snd (snd (dev_write_byte (logged D) w b)) = WroteByte (fst (dev_write_byte D (fst w) b)) b # snd w"
  by (cases w; simp add: logged_def case_prod_beta)+

definition grows :: "('d \<times> io_event list) Protocol \<Rightarrow> ('d \<times> io_event list) Protocol \<Rightarrow> bool" where
  "grows p p' \<longleftrightarrow> (\<exists>n. snd (m_device p') = n @ snd (m_device p) \<and> quiet n)"

lemma grows_same: "m_device p' = m_device p \<Longrightarrow> grows p p'"
  by (simp add: grows_def)

lemma grows_event: "snd (m_device p') = e # snd (m_device p) \<Longrightarrow> (\<And>r f. e \<noteq> Wrote r f) \<Longrightarrow> grows p p'"
  by (auto simp: grows_def intro: exI [of _ "[e]"])

lemma drain_grows:
  assumes "drain (logged D) (r, b, w) = Some (r', b', w')"
  shows "\<exists>n. snd w' = n @ snd w \<and> quiet n"
proof -
  have "(\<lambda>(r, b, w'). \<exists>n. snd w' = n @ snd w \<and> quiet n) (r', b', w')"
    using assms unfolding drain_def
  proof (rule while_option_rule [rotated])
    fix s :: "io_result \<times> byte \<times> 'a \<times> io_event list"
    assume "case s of (r, b, w') \<Rightarrow> \<exists>n. snd w' = n @ snd w \<and> quiet n"
    then obtain r0 b0 w0 n where s: "s = (r0, b0, w0)" "snd w0 = n @ snd w" "quiet n" by (cases s) auto
    let ?e = "ReadByte (fst (dev_read D (fst w0) Immediate b0)) (fst (snd (dev_read D (fst w0) Immediate b0)))"
    have "\<exists>n. snd (snd (snd (dev_read (logged D) w0 Immediate b0))) = n @ snd w \<and> quiet n"
      using s(2,3) by (intro exI [of _ "?e # n"]) (simp add: logged_log)
    then show "case (case s of (r, b, d) \<Rightarrow> dev_read (logged D) d Immediate b) of (r, b, w') \<Rightarrow>
        \<exists>n. snd w' = n @ snd w \<and> quiet n"
      by (simp add: s case_prod_beta)
  qed simp
  then show ?thesis by simp
qed

lemma recv_log_enquiry:
  assumes "recv_handlers cs (observed D) R_enquiry (c, p) = Ret (e, (c', p'))"
  shows "grows p p'"
proof -
  obtain r0 b0 w0 where r0: "dev_read (logged D) (m_device p) Immediate 0 = (r0, b0, w0)" by (metis prod_cases3)
  obtain r b w where d: "drain (logged D) (r0, b0, w0) = Some (r, b, w)" and p': "p' = p\<lparr>m_device := w\<rparr>"
    using assms r0 by (auto simp: recvEnquiry_def Let_def split: option.splits)
  obtain n where n: "snd w = n @ snd w0" "quiet n" using drain_grows [OF d] by blast
  have "\<exists>e. snd w0 = e # snd (m_device p) \<and> (\<forall>r f. e \<noteq> Wrote r f)"
    using logged_log(1) [of D "m_device p" Immediate 0] by (simp add: r0)
  then obtain e where e: "snd w0 = e # snd (m_device p)" "\<forall>r f. e \<noteq> Wrote r f" by blast
  have "quiet (n @ [e])" using n(2) e(2) by (auto simp: quiet_def)
  then show ?thesis unfolding grows_def p' using n(1) e(1) by (intro exI [of _ "n @ [e]"]) simp
qed

lemma read_into_frame_grows: "read_into_frame (observed D) n (c, p) = Ret (e, bs, (c', p')) \<Longrightarrow> grows p p'"
  by (auto simp: read_into_frame_def outcome_eqs case_prod_beta logged_log intro!: grows_event)

lemma recv_log:
  assumes "recv_handlers cs (observed D) q (c, p) = Ret (e, (c', p'))"
  shows "grows p p' \<and> (q \<in> {R_idle, R_poll} \<longrightarrow> snd (m_device p') = snd (m_device p))"
proof -
  consider "q \<in> {R_datacmd, R_dataextlen, R_dataframenumber, R_data}" | "q \<in> {R_stx, R_len, R_etx, R_cs}"
    | "q = R_enquiry" | "q \<in> {R_ack, R_ack2, R_nak}"
    | "q \<in> {R_idle, R_poll, R_repoll, R_retry, R_done, R_error, R_end}"
    by (cases q) simp_all
  then show ?thesis
  proof cases
    case 1
    then show ?thesis using assms
      by (auto simp: recvDataCommand_def recvDataExtLen_def recvDataFrameNumber_def recvData_def outcome_eqs Let_def
          split: if_splits dest: read_into_frame_grows intro: grows_same)
  next
    case 2
    then show ?thesis using assms
      by (auto simp: recvControlCode_def recvLength_def recvChecksum_def outcome_eqs Let_def case_prod_beta logged_log
          split: if_splits intro!: grows_event)
  next
    case 3
    then show ?thesis using recv_log_enquiry assms by simp
  next
    case 4
    then show ?thesis using assms
      by (auto simp: recvAcknowledgement_def recvAcknowledgement2_def recvNak_def case_prod_beta logged_log
          intro!: grows_event)
  next
    case 5
    then show ?thesis using assms
      by (elim insertE emptyE)
         (auto simp: recv_handler_defs outcome_eqs case_prod_beta mutex_lock_def mutex_unlock_def Let_def grows_def
           split: option.splits if_splits TransmitionType.splits)
  qed
qed

section \<open>A call of send beside the receiver\<close>

text \<open>What the sender does depends on the device but not on what the log held before.\<close>

definition add_log :: "io_event list \<Rightarrow> 'd \<times> io_event list \<Rightarrow> 'd \<times> io_event list" where
  "add_log l0 = apsnd (\<lambda>l. l @ l0)"

interpretation extended: device_map "logged D" "logged D" "add_log l0" for D l0
  by unfold_locales (auto simp: logged_def add_log_def split: prod.split)

definition extend :: "io_event list \<Rightarrow> ('d \<times> io_event list) Protocol \<Rightarrow> ('d \<times> io_event list) Protocol" where
  "extend l0 = map_protocol (add_log l0)"

lemma extend_simps [simp]:
  "m_accessLock (extend l0 p) = m_accessLock p" "m_r2 (extend l0 p) = m_r2 p"
  "snd (m_device (extend l0 p)) = snd (m_device p) @ l0"
  "extend l0 (p\<lparr>m_r2 := r\<rparr>) = extend l0 p\<lparr>m_r2 := r\<rparr>"
  "extend l0 (p\<lparr>m_accessLock := a\<rparr>) = extend l0 p\<lparr>m_accessLock := a\<rparr>"
  by (simp_all add: extend_def add_log_def)

lemma send_handlers_extend:
  "send_handlers (logged D) q (c, extend l0 p) = omap (apsnd (apsnd (extend l0))) (send_handlers (logged D) q (c, p))"
  using extended.map_send_handlers [where w = "(c, p)"] by (simp add: extend_def)

lemma sendRetry_reopen_extend:
  "sendRetry_reopen (logged D) (extend l0 p) = extend l0 (sendRetry_reopen (logged D) p)"
  by (simp add: sendRetry_reopen_def extend_def extended.map_open extended.map_close)

text \<open>
  While the call lasts, what the line has recorded since it began is what the sender alone would
  have recorded, and more that does not matter to it.
\<close>

definition progress_since :: "byte list list \<Rightarrow> io_event list \<Rightarrow> ('d \<times> io_event list) duplex \<Rightarrow> bool" where
  "progress_since fs l0 x \<longleftrightarrow>
     (\<exists>p. protocol x = extend l0 p \<and> send_progress fs (send_state (sender x)) (send_context x, p))"

definition call_inv :: "byte list list \<Rightarrow> io_event list \<Rightarrow> ('d \<times> io_event list) duplex \<Rightarrow> bool" where
  "call_inv fs l0 x \<longleftrightarrow> sender_ok fs x \<and> progress_since fs l0 x"

lemma progress_sinceI:
  "protocol x = extend l0 p \<Longrightarrow> send_progress fs (send_state (sender x)) (send_context x, p) \<Longrightarrow> progress_since fs l0 x"
  by (auto simp: progress_since_def)

lemma send_progress_device:
  "snd (m_device p') = snd (m_device p) \<Longrightarrow> m_r2 p' = m_r2 p \<Longrightarrow> send_progress fs q (c, p') = send_progress fs q (c, p)"
  by (simp add: send_progress_def)

lemma send_progress_quiet:
  assumes "send_progress fs q (c, p)" and "q \<noteq> S_ack2" and "quiet n" and "snd (m_device p') = n @ snd (m_device p)"
    and "m_r2 p' = m_r2 p"
  shows "send_progress fs q (c, p')"
proof -
  have "\<not> frame_written (snd (m_device p))" using assms(1,2) by (simp add: send_progress_def Let_def)
  then show ?thesis using assms quiet_acked [OF assms(3)] by (simp add: send_progress_def Let_def)
qed

lemma call_receiver_turn:
  assumes turn: "receiver_turn cs (observed D) x = Ret y" and lock: "lock_inv x" and call: "call_inv fs l0 x"
  shows "call_inv fs l0 y"
proof -
  obtain p where p: "protocol x = extend l0 p" "send_progress fs (send_state (sender x)) (send_context x, p)"
    and ok: "sender_ok fs x" using call by (auto simp: call_inv_def progress_since_def)
  note same = receiver_turn_sender [OF turn]
  have "\<exists>n. snd (m_device (protocol y)) = n @ snd (m_device (protocol x)) \<and> quiet n \<and> (n = [] \<or> receiver_holds (receiver x))"
  proof (cases "receiver x")
    case (In q)
    show ?thesis by (rule receiver_turn_In [OF turn In]) (use recv_log In in \<open>fastforce simp: grows_def\<close>)
  qed (use turn receiver_turn_idle [of x cs "observed D"] in auto)
  then obtain n where n: "snd (m_device (protocol y)) = n @ snd (m_device (protocol x))" "quiet n"
    and h: "n = [] \<or> receiver_holds (receiver x)" by blast
  let ?p = "(protocol y)\<lparr>m_device := (fst (m_device (protocol y)), n @ snd (m_device p))\<rparr>"
  have y: "protocol y = extend l0 ?p" using n(1) p(1) by (simp add: extend_def map_protocol_def add_log_def prod_eq_iff)
  have r2: "m_r2 ?p = m_r2 p" using same p(1) by simp
  have "send_progress fs (send_state (sender x)) (send_context x, ?p)"
  proof (cases "n = []")
    case True
    then show ?thesis using p(2) r2 send_progress_device [of ?p p] by simp
  next
    case False
    then have "\<not> sender_holds (sender x)" using h lock holds_excludes by blast
    then have "send_state (sender x) \<noteq> S_ack2" by (cases "sender x") (auto simp: send_unlocked_def)
    then show ?thesis using send_progress_quiet [OF p(2) _ n(2), of ?p] r2 by simp
  qed
  then show ?thesis using same y receiver_turn_sender_ok [OF turn ok] by (auto simp: call_inv_def intro: progress_sinceI)
qed

text \<open>The sender's turns, by the point it is at.\<close>

lemma progress_reopen:
  assumes turn: "sender_turn (observed D) x = Ret y" and s: "sender x = Reopening"
    and p: "protocol x = extend l0 p" "send_progress fs (send_state (sender x)) (send_context x, p)"
  shows "progress_since fs l0 y"
proof (rule progress_sinceI)
  show "protocol y = extend l0 (sendRetry_reopen (logged D) p)"
    using sender_turn_reopen [OF turn s] p(1) by (simp add: sendRetry_reopen_extend sendRetry_reopen_observed)
  show "send_progress fs (send_state (sender y)) (send_context y, sendRetry_reopen (logged D) p)"
    using p(2) sender_turn_reopen [OF turn s] s
    by (cases "m_device p") (simp add: send_progress_def sendRetry_reopen_def Let_def)
qed

lemma progress_retry:
  assumes turn: "sender_turn (observed D) x = Ret y" and s: "sender x = At S_retry" and ok: "sender_ok fs x"
    and p: "protocol x = extend l0 p" "send_progress fs (send_state (sender x)) (send_context x, p)"
  shows "progress_since fs l0 y"
proof (rule sender_turn_retry [OF turn s])
  let ?p = "p\<lparr>m_r2 := m_r2 p + 1, m_accessLock := None\<rparr>"
  assume y: "y = x\<lparr>sender := (if (m_r2 (protocol x) + 1) mod kSendAttemptsForPortReinit = 0 then Reopening else At S_enquiry),
    protocol := (protocol x)\<lparr>m_r2 := m_r2 (protocol x) + 1, m_accessLock := None\<rparr>\<rparr>"
  have "send_progress fs S_enquiry (send_context x, ?p)" using p(2) s by (simp add: send_progress_def Let_def)
  then show ?thesis unfolding y using p(1) by (intro progress_sinceI [of _ _ ?p]) simp_all
next
  let ?p = "p\<lparr>m_r2 := m_r2 p + 1\<rparr>"
  assume n: "\<not> m_r2 (protocol x) + 1 < kMaxNumberOfSendAttempts"
    and y: "y = x\<lparr>sender := At S_error, protocol := (protocol x)\<lparr>m_r2 := m_r2 (protocol x) + 1\<rparr>\<rparr>"
  have "m_r2 p < kMaxNumberOfSendAttempts" using ok s p(1) by (simp add: sender_ok_def send_ok_def)
  then have "send_progress fs S_error (send_context x, ?p)"
    using p s n by (simp add: send_progress_def Let_def kMaxNumberOfSendAttempts_def u32_below_Suc)
  then show ?thesis unfolding y using p(1) by (intro progress_sinceI [of _ _ ?p]) simp_all
qed

lemma progress_handler:
  assumes turn: "sender_turn (observed D) x = Ret y" and s: "sender x = At q" and q: "q \<notin> {S_idle, S_retry, S_end}"
    and lock: "lock_inv x" and ok: "sender_ok fs x"
    and p: "protocol x = extend l0 p" "send_progress fs (send_state (sender x)) (send_context x, p)"
  shows "progress_since fs l0 y"
proof -
  have q': "q \<notin> {S_retry, S_end}" "q \<notin> {S_idle, S_retry}" "q \<noteq> S_end" using q by auto
  obtain e c' p' where h: "send_handlers (observed D) q (send_context x, protocol x) = Ret (e, (c', p'))"
    and y: "y = x\<lparr>sender := At (send_next q e), send_context := c', protocol := p'\<rparr>"
    by (rule sender_turn_At [OF turn s q'(1)])
  obtain p1 where h1: "send_handlers (logged D) q (send_context x, p) = Ret (e, (c', p1))" and p': "p' = extend l0 p1"
    using h unfolding send_handlers_observed p(1) send_handlers_extend by (auto simp: omap_eq_Ret)
  have "send_inv fs q (send_context x, protocol x)"
    by (rule sender_step [OF lock s q'(2) h]) (use ok s in \<open>simp add: sender_ok_def\<close>)
  then have "send_inv fs q (send_context x, p)" by (simp add: send_inv_ok p(1))
  then have "send_progress fs (send_next q e) (c', p1)"
    using send_progress_step [OF _ _ q'(3) h1] p(2) s by simp
  then show ?thesis unfolding y p' by (intro progress_sinceI [of _ _ p1]) simp_all
qed

lemma call_sender_turn:
  assumes turn: "sender_turn (observed D) x = Ret y" and lock: "lock_inv x" and call: "call_inv fs l0 x"
  shows "call_inv fs l0 y"
proof -
  obtain p where p: "protocol x = extend l0 p" "send_progress fs (send_state (sender x)) (send_context x, p)"
    and ok: "sender_ok fs x" using call by (auto simp: call_inv_def progress_since_def)
  have "progress_since fs l0 y"
  proof (cases "sender x")
    case Sender_idle
    then show ?thesis using sender_turn_idle [OF turn] by simp
  next
    case Reopening
    then show ?thesis by (rule progress_reopen [OF turn _ p])
  next
    case (At q)
    consider "sender x = At S_idle" | "sender x = At S_retry" | "sender x = At S_end" | "q \<notin> {S_idle, S_retry, S_end}"
      using At by blast
    then show ?thesis
    proof cases
      case 1
      then have "protocol y = extend l0 (p\<lparr>m_r2 := 0\<rparr>)" "sender y = At S_enquiry" "send_context y = send_context x"
        using turn p(1) by (auto simp: sender_turn_def set_sender_def sendIdle_def)
      then show ?thesis using p(2) 1 by (intro progress_sinceI [of _ _ "p\<lparr>m_r2 := 0\<rparr>"]) (simp_all add: send_progress_def Let_def)
    next
      case 3
      then show ?thesis using sender_turn_end [OF turn] p
        by (intro progress_sinceI [of _ _ "p\<lparr>m_accessLock := None\<rparr>"]) (simp_all add: send_progress_def Let_def)
    qed (auto intro: progress_retry [OF turn _ ok p] progress_handler [OF turn At _ lock ok p])
  qed
  then show ?thesis using sender_turn_inv [OF turn lock ok] by (simp add: call_inv_def)
qed

lemma call_begin:
  assumes "sender x = Sender_idle" and "lock_inv x" and "length data < 2 ^ 32"
  shows "call_inv (prepareFrames cs data) (snd (m_device (protocol x))) (begin_send cs data x)"
proof -
  let ?p = "(protocol x)\<lparr>m_device := (fst (m_device (protocol x)), [])\<rparr>"
  have "protocol x = extend (snd (m_device (protocol x))) ?p" by (simp add: extend_def map_protocol_def add_log_def)
  moreover have "send_progress (prepareFrames cs data) S_idle (SendContext cs data, ?p)"
    by (rule send_progress_start) simp
  ultimately have "progress_since (prepareFrames cs data) (snd (m_device (protocol x))) (begin_send cs data x)"
    by (intro progress_sinceI [of _ _ ?p]) (simp_all add: begin_send_def)
  then show ?thesis using begin_send_inv [OF assms] by (simp add: call_inv_def)
qed

lemma call_moves:
  assumes "(duplex_move cs (observed D))\<^sup>*\<^sup>* x y" and "duplex_inv cs x" and "call_inv fs l0 x" and "polls_succeed D"
  shows "duplex_inv cs y \<and> call_inv fs l0 y"
  using assms(1)
proof (induction rule: rtranclp_induct)
  case base
  show ?case using assms(2,3) by simp
next
  case (step y z)
  have inv: "duplex_inv cs y" and call: "call_inv fs l0 y" using step.IH by simp_all
  have "call_inv fs l0 z" using step.hyps(2)
  proof (cases rule: duplex_move.cases)
    case sender_moves
    then show ?thesis using call_sender_turn [OF _ _ call] inv by (simp add: duplex_inv_def)
  next
    case receiver_moves
    then show ?thesis using call_receiver_turn [OF _ _ call] inv by (simp add: duplex_inv_def)
  qed
  then show ?case using duplex_move_inv [OF step.hyps(2) inv] assms(4) by simp
qed

section \<open>Devices for the witnesses\<close>

text \<open>A line on which an enquiry comes in now and then and nothing else.\<close>

definition chatty :: "bool IODevice" where
  "chatty = \<lparr>
     dev_open = (\<lambda>d. (True, d)), dev_close = (\<lambda>d. d),
     dev_read = (\<lambda>d t b. if t = Immediate then (if d then (IO_Success, ENQ, False) else (IO_Timeout, b, True)) else (IO_Timeout, 0, d)),
     dev_readMulti = (\<lambda>d n t. (IO_Timeout, [], d)),
     dev_write_byte = (\<lambda>d x. (IO_Success, d)), dev_write = (\<lambda>d x. (IO_Success, d)),
     dev_poll = (\<lambda>d t. (IO_Success, d))\<rparr>"

lemma chatty_simps [simp]:
  "dev_open chatty d = (True, d)" "dev_close chatty d = d"
  "dev_read chatty d t b =
     (if t = Immediate then (if d then (IO_Success, ENQ, False) else (IO_Timeout, b, True)) else (IO_Timeout, 0, d))"
  "dev_write_byte chatty d x = (IO_Success, d)" "dev_poll chatty d t = (IO_Success, d)"
  by (simp_all add: chatty_def)

lemma chatty_polls: "polls_succeed chatty" by (simp add: polls_succeed_def)

lemma steady_polls: "polls_succeed (steady_peer IO_Success b)" by (simp add: polls_succeed_def)

lemmas turn_simps = sender_turn_def receiver_turn_def set_sender_def set_receiver_def send_handler_defs
  sendRetry_release_def recvIdle_def recvPoll_def recvEnquiry_def recvAcknowledgement_def kMaxNumberOfSendAttempts_def
  kSendAttemptsForPortReinit_def kTimeout3_def

lemma chatty_drain:
  "drain (logged chatty) (IO_Success, b, d, l) =
     Some (IO_Timeout, if d then ENQ else b, True,
       (if d then [ReadByte IO_Timeout ENQ, ReadByte IO_Success ENQ] else [ReadByte IO_Timeout b]) @ l)"
  by (cases d) (simp_all add: drain_unfold)

definition race_schedule :: "party list" where
  "race_schedule = [Sending,
     Sending, Sending, Sending, Sending, Sending, Sending, Sending, Sending, Sending, Sending, Sending, Sending,
     Sending, Sending, Sending, Sending, Sending, Sending, Sending, Sending, Sending, Sending, Sending, Sending,
     Receiving, Receiving, Receiving, Receiving, Receiving]"

lemma race_turns:
  "\<exists>y l. run_turns cs (observed chatty) race_schedule (begin_send cs data (duplex_start (fresh (False, [])))) = Ret y \<and>
    sender y = Reopening \<and> receiver y = In R_stx \<and> m_device (protocol y) = (True, l)"
  by (simp add: race_schedule_def begin_send_def duplex_start_def turn_simps chatty_drain Let_def mutex_lock_def
      mutex_unlock_def)

section \<open>Properties\<close>







text \<open>
  C32: the sender closes and opens the device when it has already released the mutex: there is a
  run in which it does so while the receiver holds the mutex and waits for the rest of a frame.
\<close>

theorem duplex_reopen_race:
  "\<exists>x y. (duplex_step cs (observed chatty))\<^sup>*\<^sup>* (duplex_start (fresh (False, []))) x \<and>
    receiver x = In R_stx \<and> m_accessLock (protocol x) = Some Receiving \<and>
    sender_turn (observed chatty) x = Ret y \<and>
    snd (m_device (protocol y)) = [Opened True, Closed] @ snd (m_device (protocol x))"
proof -
  let ?x = "duplex_start (fresh (False, [])) :: (bool \<times> io_event list) duplex"
  obtain x l where x: "run_turns cs (observed chatty) race_schedule (begin_send cs [1, 2, 3] ?x) = Ret x"
      "sender x = Reopening" "receiver x = In R_stx" "m_device (protocol x) = (True, l)"
    using race_turns by blast
  have "duplex_step cs (observed chatty) ?x (begin_send cs [1, 2, 3] ?x)"
    by (rule sends) (simp_all add: duplex_start_def)
  then have r: "(duplex_step cs (observed chatty))\<^sup>*\<^sup>* ?x x"
    using moves_steps [OF run_turns_moves [OF x(1)]] by (rule converse_rtranclp_into_rtranclp)
  then have "lock_inv x" using duplex_reachable_inv [OF r] chatty_polls by (simp add: duplex_inv_def)
  then have held: "m_accessLock (protocol x) = Some Receiving" using x(3) by (simp add: lock_inv_def)
  have "\<exists>y. sender_turn (observed chatty) x = Ret y \<and>
      snd (m_device (protocol y)) = [Opened True, Closed] @ snd (m_device (protocol x))"
    using x(2,4) by (simp add: sender_turn_def set_sender_def sendRetry_reopen_def Let_def)
  then show ?thesis using r x(3) held by blast
qed
end
