(* ===== verification/Link.thy ===== *)
theory Link
  imports SendProperties RecvProperties
begin

text \<open>
  Two protocol objects at the two ends of a line: one sends a message, the other receives it, each
  in its own machine, a handler at a time in any order. Nothing is lost on the line. A handler that
  waits with a timeout and finds nothing is said to be late; as long as nobody is late, the message
  arrives.
\<close>

section \<open>The line\<close>

text \<open>
  An end of the line: what can be read at it, what has been written at it, and whether a read or a
  poll that waits has found nothing.
\<close>

type_synonym line_end = "byte list \<times> byte list \<times> bool"

definition wire_end :: "line_end IODevice" where
  "wire_end = \<lparr>
     dev_open = (\<lambda>d. (True, d)), dev_close = (\<lambda>d. d),
     dev_read = (\<lambda>(i, out, late) t b.
       case i of [] \<Rightarrow> (IO_Timeout, b, (i, out, late \<or> t \<noteq> Immediate)) | x # xs \<Rightarrow> (IO_Success, x, (xs, out, late))),
     dev_readMulti = (\<lambda>(i, out, late) n t.
       if n \<le> length i then (IO_Success, take n i, (drop n i, out, late)) else (IO_Timeout, i, ([], out, True))),
     dev_write_byte = (\<lambda>(i, out, late) b. (IO_Success, (i, out @ [b], late))),
     dev_write = (\<lambda>(i, out, late) bs. (IO_Success, (i, out @ bs, late))),
     dev_poll = (\<lambda>(i, out, late) t. (IO_Success, (i, out, late \<or> i = [])))\<rparr>"

lemma wire_end_simps [simp]:
  "dev_read wire_end ([], out, late) t b = (IO_Timeout, b, ([], out, late \<or> t \<noteq> Immediate))"
  "dev_read wire_end (x # xs, out, late) t b = (IO_Success, x, (xs, out, late))"
  "dev_readMulti wire_end (i, out, late) n t =
     (if n \<le> length i then (IO_Success, take n i, (drop n i, out, late)) else (IO_Timeout, i, ([], out, True)))"
  "dev_write_byte wire_end (i, out, late) b = (IO_Success, (i, out @ [b], late))"
  "dev_write wire_end (i, out, late) bs = (IO_Success, (i, out @ bs, late))"
  "dev_poll wire_end (i, out, late) t = (IO_Success, (i, out, late \<or> i = []))"
  by (simp_all add: wire_end_def)

record link =
  s_at :: "SendState option"
  s_ctx :: SendContext
  s_prot :: "line_end Protocol"
  r_at :: "RecvState option"
  r_ctx :: RecvContext
  r_prot :: "line_end Protocol"
  to_receiver :: "byte list"
  to_sender :: "byte list"
  late :: bool

text \<open>The turns: each end sees the line from its side. A call that has returned has no turn.\<close>

definition s_turn :: "link \<Rightarrow> link outcome" where
  "s_turn x =
     (case s_at x of
        None \<Rightarrow> Blocked
      | Some q \<Rightarrow>
          omap (\<lambda>(e, c, p).
              case m_device p of (i, out, late') \<Rightarrow>
                x\<lparr>s_at := (if q = S_end then None else Some (send_next q e)), s_ctx := c, s_prot := p,
                  to_receiver := out, to_sender := i, late := late'\<rparr>)
            (send_handlers wire_end q (s_ctx x, (s_prot x)\<lparr>m_device := (to_sender x, to_receiver x, False)\<rparr>)))"

definition r_turn :: "(byte list \<Rightarrow> byte) \<Rightarrow> link \<Rightarrow> link outcome" where
  "r_turn cs x =
     (case r_at x of
        None \<Rightarrow> Blocked
      | Some q \<Rightarrow>
          omap (\<lambda>(e, c, p).
              case m_device p of (i, out, late') \<Rightarrow>
                x\<lparr>r_at := (if q = R_end then None else Some (recv_next q e)), r_ctx := c, r_prot := p,
                  to_receiver := i, to_sender := out, late := late'\<rparr>)
            (recv_handlers cs wire_end q (r_ctx x, (r_prot x)\<lparr>m_device := (to_receiver x, to_sender x, False)\<rparr>)))"

fun turn_of :: "(byte list \<Rightarrow> byte) \<Rightarrow> party \<Rightarrow> link \<Rightarrow> link outcome" where
  "turn_of cs Sending x = s_turn x"
| "turn_of cs Receiving x = r_turn cs x"

text \<open>A turn in which nobody is late.\<close>

inductive on_time :: "(byte list \<Rightarrow> byte) \<Rightarrow> link \<Rightarrow> link \<Rightarrow> bool" for cs where
  on_timeI: "turn_of cs t x = Ret y \<Longrightarrow> \<not> late y \<Longrightarrow> on_time cs x y"

text \<open>Both calls begin; their protocol objects are new.\<close>

definition link_start :: "(byte list \<Rightarrow> byte) \<Rightarrow> byte list \<Rightarrow> link" where
  "link_start cs data =
     \<lparr>s_at = Some S_idle, s_ctx = SendContext cs data, s_prot = fresh ([], [], False),
      r_at = Some R_idle, r_ctx = RecvContext, r_prot = fresh ([], [], False),
      to_receiver = [], to_sender = [], late = False\<rparr>"

section \<open>A frame taken in\<close>

text \<open>The receiver's handlers, as long as each of them passes, writes nothing and is not late.\<close>

fun recv_pass :: "(byte list \<Rightarrow> byte) \<Rightarrow> nat \<Rightarrow> RecvState \<Rightarrow> line_end recv_world \<Rightarrow> (RecvState \<times> line_end recv_world) option"
  where
  "recv_pass cs 0 q w = Some (q, w)"
| "recv_pass cs (Suc n) q w =
     (case recv_handlers cs wire_end q w of
        Ret (e, w') \<Rightarrow>
          (if e = Pass \<and> snd (m_device (snd w')) = ([], False) then recv_pass cs n (recv_next q Pass) w' else None)
      | _ \<Rightarrow> None)"

abbreviation eight :: nat where "eight \<equiv> Suc (Suc (Suc (Suc (Suc (Suc (Suc (Suc 0)))))))"

lemma pass_regular_frame:
  assumes d: "3 \<le> length d" "length d \<le> 251"
    and c: "m_frames c = fs @ [[]]" "m_currentFrame c = length fs"
  shows "recv_pass cs eight R_stx (c, p\<lparr>m_device := (regular_frame cs d, [], False)\<rparr>) =
    Some (R_ack2, (c\<lparr>m_transmitionType := Regular, m_dataLength := word_of_nat (length d),
         m_frames := fs @ [regular_frame cs d]\<rparr>, p\<lparr>m_device := ([], [], False)\<rparr>))"
proof -
  define l where "l = (word_of_nat (length d + 2) :: byte)"
  have l: "unat l = length d + 2" unfolding l_def by (rule unat_word_of_nat_byte) (use d in simp)
  then have e: "l \<noteq> EXT_LEN" using d by (auto simp: EXT_LEN_def)
  have w: "(word_of_nat (length d) :: u32) - 3 = word_of_nat (length d - 3)" using d by (simp add: of_nat_diff)
  have u: "unat (word_of_nat (length d - 3) :: u32) = length d - 3" using d by (intro unat_word_of_nat_u32) simp
  have f: "regular_frame cs d = STX # l # take 3 d @ drop 3 d @ [ETX, cs (l # d @ [ETX])]"
    by (simp add: regular_frame_def seal_def l_def)
  have a: "take 3 d @ drop 3 d @ xs = d @ xs" for xs by (metis append_assoc append_take_drop_id)
  show ?thesis
    unfolding f using d c l e
    by (simp add: a recv_handler_defs append_current_def currentFrame_def
      set_currentFrame_def vec_at_def recv_data_size_def kTimeout3_def kTimeout4_def read_event_def w u del: of_nat_diff)
qed

lemma pass_extended_frame:
  assumes h: "length h = 3" and n: "n = length P + 8" "n \<le> 1032"
    and c: "m_frames c = fs @ [[]]" "m_currentFrame c = length fs" "m_transmitionType c = NotDefinedYet"
  shows "recv_pass cs eight R_stx (c, p\<lparr>m_device := (long_frame cs h n P, [], False)\<rparr>) =
    Some (R_ack2, (c\<lparr>m_dataLength := word_of_nat n - 2, m_transmitionType := ExtendedLength,
         m_frames := fs @ [long_frame cs h n P]\<rparr>, p\<lparr>m_device := ([], [], False)\<rparr>))"
proof -
  let ?L = "length_bytes (word_of_nat n)"
  have dec: "decode_length (?L ! 0) (?L ! 1) (?L ! 2) = word_of_nat n" by (rule decode_word_of_nat) (use n in simp)
  have w: "(word_of_nat n :: u32) - 8 = word_of_nat (length P)" using n by simp
  have u: "unat (word_of_nat (length P) :: u32) = length P" using n by (intro unat_word_of_nat_u32) simp
  have lim: "\<not> 1032 < (word_of_nat n :: u32)" using n by (simp add: word_less_nat_alt del: of_nat_add)
  have f: "long_frame cs h n P = STX # EXT_LEN # h @ ?L @ P @ [ETX, cs (EXT_LEN # h @ ?L @ P @ [ETX])]"
    by (simp add: long_frame_def seal_def)
  have L: "length ?L = 3" by simp
  show ?thesis
    unfolding f using c h L
    by (simp add: recv_handler_defs append_current_def currentFrame_def
      set_currentFrame_def vec_at_def recv_data_size_def kTimeout3_def kTimeout4_def read_event_def w u lim
      dec [unfolded One_nat_def] Let_def del: of_nat_diff length_length_bytes)
qed

lemma pass_division_frame:
  assumes h: "length h = 3" and n: "n = length P + 12" "n < 2 ^ 24" and nb: "length nb = 4"
    and c: "m_frames c = fs @ [[]]" "m_currentFrame c = length fs" "m_transmitionType c \<noteq> Regular"
      "1032 < n \<or> m_transmitionType c = ExtendedLengthWithFrameDivision"
  shows "recv_pass cs eight R_stx (c, p\<lparr>m_device := (long_frame cs h n (nb @ P), [], False)\<rparr>) =
    Some (R_ack2, (c\<lparr>m_dataLength := word_of_nat n - 2, m_transmitionType := ExtendedLengthWithFrameDivision,
         m_totalFrames := ucast (decode_number (nb ! 2) (nb ! 3)),
         m_frameNumber := ucast (decode_number (nb ! 0) (nb ! 1)),
         m_frames := fs @ [long_frame cs h n (nb @ P)]\<rparr>, p\<lparr>m_device := ([], [], False)\<rparr>))"
proof -
  let ?L = "length_bytes (word_of_nat n)"
  have dec: "decode_length (?L ! 0) (?L ! 1) (?L ! 2) = word_of_nat n" by (rule decode_word_of_nat) (use n in simp)
  have w: "(word_of_nat n :: u32) - 12 = word_of_nat (length P)" using n by simp
  have u: "unat (word_of_nat (length P) :: u32) = length P" using n by (intro unat_word_of_nat_u32) simp
  have lim: "1032 < (word_of_nat n :: u32) \<longleftrightarrow> 1032 < n" using n by (simp add: word_less_nat_alt del: of_nat_add)
  have f: "long_frame cs h n (nb @ P) = STX # EXT_LEN # h @ ?L @ nb @ P @ [ETX, cs (EXT_LEN # h @ ?L @ nb @ P @ [ETX])]"
    by (simp add: long_frame_def seal_def)
  have L: "length ?L = 3" by simp
  show ?thesis
    unfolding f using c h L nb
    by (simp add: recv_handler_defs append_current_def currentFrame_def
      set_currentFrame_def vec_at_def recv_data_size_def kTimeout3_def kTimeout4_def read_event_def w u lim
      dec [unfolded One_nat_def] Let_def del: of_nat_diff length_length_bytes)
qed

section \<open>Where the two ends stand\<close>

text \<open>
  What the receiver's context is while it takes in the frames \<open>fs\<close> of a message: \<open>R k\<close> before
  frame \<open>k\<close>, \<open>A k\<close> behind it, \<open>F\<close> at the end.
\<close>

definition receivable :: "(byte list \<Rightarrow> byte) \<Rightarrow> byte list list \<Rightarrow> (nat \<Rightarrow> RecvContext) \<Rightarrow> (nat \<Rightarrow> RecvContext) \<Rightarrow> RecvContext \<Rightarrow> bool"
  where
  "receivable cs fs R A F \<longleftrightarrow> R 0 = RecvContext \<and> fs \<noteq> [] \<and> m_result F \<and>
     (\<forall>k p. k < length fs \<longrightarrow> recv_pass cs 8 R_stx (R k, p\<lparr>m_device := (fs ! k, [], False)\<rparr>) =
        Some (R_ack2, (A k, p\<lparr>m_device := ([], [], False)\<rparr>))) \<and>
     (\<forall>k (p :: line_end Protocol). Suc k < length fs \<longrightarrow> recvDone (A k, p) = Ret (Wait, (R (Suc k), p))) \<and>
     (\<forall>p :: line_end Protocol. recvDone (A (length fs - 1), p) = Ret (Pass, (F, p)))"

text \<open>The receiver waits for frame \<open>k\<close>, or it has all of them and returns.\<close>

definition waits :: "(nat \<Rightarrow> RecvContext) \<Rightarrow> (nat \<Rightarrow> RecvContext) \<Rightarrow> nat \<Rightarrow> link \<Rightarrow> bool" where
  "waits R A k x \<longleftrightarrow>
     (r_at x = Some R_idle \<and> k = 0 \<and> r_ctx x = R 0 \<and> m_accessLock (r_prot x) = None \<or>
      r_at x = Some R_done \<and> (\<exists>j. k = Suc j \<and> r_ctx x = A j) \<and> m_accessLock (r_prot x) = Some Receiving \<or>
      r_at x = Some R_poll \<and> r_ctx x = R k \<and> m_accessLock (r_prot x) = None \<or>
      r_at x \<in> {Some R_repoll, Some R_enquiry} \<and> r_ctx x = R k \<and> m_accessLock (r_prot x) = Some Receiving)"

definition has_all :: "(nat \<Rightarrow> RecvContext) \<Rightarrow> RecvContext \<Rightarrow> nat \<Rightarrow> link \<Rightarrow> bool" where
  "has_all A F n x \<longleftrightarrow>
     (r_at x = Some R_done \<and> r_ctx x = A (n - 1) \<and> m_accessLock (r_prot x) = Some Receiving \<or>
      r_at x = Some R_end \<and> r_ctx x = F \<and> m_accessLock (r_prot x) = Some Receiving \<or>
      r_at x = None \<and> r_ctx x = F)"

definition ready :: "(nat \<Rightarrow> RecvContext) \<Rightarrow> (nat \<Rightarrow> RecvContext) \<Rightarrow> RecvContext \<Rightarrow> nat \<Rightarrow> nat \<Rightarrow> link \<Rightarrow> bool" where
  "ready R A F n k x \<longleftrightarrow> (if k < n then waits R A k x else has_all A F n x)"

text \<open>How far each of them is from the end of its frame.\<close>

fun send_rank :: "SendState option \<Rightarrow> nat" where
  "send_rank (Some S_idle) = 9"
| "send_rank (Some S_enquiry) = 8"
| "send_rank (Some S_reenquiry) = 7"
| "send_rank (Some S_ack) = 6"
| "send_rank (Some S_frame) = 5"
| "send_rank (Some S_ack2) = 4"
| "send_rank (Some S_done) = 3"
| "send_rank (Some S_end) = 2"
| "send_rank _ = 0"

fun recv_rank :: "bool \<Rightarrow> RecvState option \<Rightarrow> nat" where
  "recv_rank enq (Some R_idle) = 16"
| "recv_rank enq (Some R_done) = 15"
| "recv_rank enq (Some R_enquiry) = (if enq then 11 else 14)"
| "recv_rank enq (Some R_end) = 14"
| "recv_rank enq (Some R_repoll) = 13"
| "recv_rank enq (Some R_poll) = 12"
| "recv_rank enq (Some R_ack) = 10"
| "recv_rank enq (Some R_stx) = 9"
| "recv_rank enq (Some R_len) = 8"
| "recv_rank enq (Some R_datacmd) = 7"
| "recv_rank enq (Some R_dataextlen) = 6"
| "recv_rank enq (Some R_dataframenumber) = 5"
| "recv_rank enq (Some R_data) = 4"
| "recv_rank enq (Some R_etx) = 3"
| "recv_rank enq (Some R_cs) = 2"
| "recv_rank enq (Some R_ack2) = 1"
| "recv_rank enq _ = 0"

definition to_go :: "nat \<Rightarrow> link \<Rightarrow> nat" where
  "to_go n x = 100 * (n - m_currentFrame (s_ctx x)) +
     (if s_at x \<in> {Some S_done, Some S_end, None} \<or> s_at x = Some S_ack2 \<and> to_sender x \<noteq> [] then 0 else 50) +
     send_rank (s_at x) + recv_rank (to_receiver x \<noteq> []) (r_at x)"

text \<open>The phases of a frame \<open>k\<close>, in the order in which they come.\<close>

datatype phase = Calling | Called | Answering | Answered | Writing | Taking | Confirmed | Over

definition sender_at :: "byte list list \<Rightarrow> nat \<Rightarrow> link \<Rightarrow> bool" where
  "sender_at fs k x \<longleftrightarrow> k < length fs \<and> s_ctx x = \<lparr>m_currentFrame = k, m_frames = fs, m_result = False\<rparr> \<and>
     m_accessLock (s_prot x) = (if send_unlocked (the (s_at x)) then None else Some Sending)"

definition receiver_at :: "(nat \<Rightarrow> RecvContext) \<Rightarrow> nat \<Rightarrow> RecvState \<Rightarrow> link \<Rightarrow> bool" where
  "receiver_at R k q x \<longleftrightarrow> r_at x = Some q \<and> r_ctx x = R k \<and> m_accessLock (r_prot x) = Some Receiving"

definition taking :: "(byte list \<Rightarrow> byte) \<Rightarrow> (nat \<Rightarrow> RecvContext) \<Rightarrow> nat \<Rightarrow> link \<Rightarrow> bool" where
  "taking cs A k x \<longleftrightarrow> (\<exists>q m p. r_at x = Some q \<and> recv_rank False (Some q) = Suc m \<and> m \<le> 8 \<and>
     recv_pass cs m q (r_ctx x, (r_prot x)\<lparr>m_device := (to_receiver x, [], False)\<rparr>) = Some (R_ack2, (A k, p)) \<and>
     m_device p = ([], [], False) \<and> m_accessLock p = Some Receiving)"

fun in_phase :: "(byte list \<Rightarrow> byte) \<Rightarrow> byte list list \<Rightarrow> (nat \<Rightarrow> RecvContext) \<Rightarrow> (nat \<Rightarrow> RecvContext) \<Rightarrow> RecvContext \<Rightarrow>
    nat \<Rightarrow> phase \<Rightarrow> link \<Rightarrow> bool" where
  "in_phase cs fs R A F k Calling x =
     (s_at x \<in> {Some S_idle, Some S_enquiry, Some S_reenquiry} \<and> sender_at fs k x \<and>
      to_receiver x = [] \<and> to_sender x = [] \<and> waits R A k x)"
| "in_phase cs fs R A F k Called x =
     (s_at x = Some S_ack \<and> sender_at fs k x \<and> to_receiver x = [ENQ] \<and> to_sender x = [] \<and> waits R A k x)"
| "in_phase cs fs R A F k Answering x =
     (s_at x = Some S_ack \<and> sender_at fs k x \<and> to_receiver x = [] \<and> to_sender x = [] \<and> receiver_at R k R_ack x)"
| "in_phase cs fs R A F k Answered x =
     (s_at x = Some S_ack \<and> sender_at fs k x \<and> to_receiver x = [] \<and> to_sender x = [ACK] \<and> receiver_at R k R_stx x)"
| "in_phase cs fs R A F k Writing x =
     (s_at x = Some S_frame \<and> sender_at fs k x \<and> to_receiver x = [] \<and> to_sender x = [] \<and> receiver_at R k R_stx x)"
| "in_phase cs fs R A F k Taking x =
     (s_at x = Some S_ack2 \<and> sender_at fs k x \<and> to_sender x = [] \<and> taking cs A k x)"
| "in_phase cs fs R A F k Confirmed x =
     ((s_at x = Some S_ack2 \<and> to_sender x = [ACK] \<or> s_at x = Some S_done \<and> to_sender x = []) \<and> sender_at fs k x \<and>
      to_receiver x = [] \<and> ready R A F (length fs) (Suc k) x)"
| "in_phase cs fs R A F k Over x =
     ((s_at x = Some S_end \<and> m_accessLock (s_prot x) = Some Sending \<or> s_at x = None) \<and>
      m_result (s_ctx x) \<and> to_receiver x = [] \<and> to_sender x = [] \<and> has_all A F (length fs) x)"

definition on_course :: "(byte list \<Rightarrow> byte) \<Rightarrow> byte list list \<Rightarrow> (nat \<Rightarrow> RecvContext) \<Rightarrow> (nat \<Rightarrow> RecvContext) \<Rightarrow> RecvContext \<Rightarrow>
    link \<Rightarrow> bool" where
  "on_course cs fs R A F x \<longleftrightarrow> \<not> late x \<and> (\<exists>k ph. in_phase cs fs R A F k ph x)"

section \<open>Turns\<close>

lemma turn_simps:
  "s_at x = None \<Longrightarrow> s_turn x = Blocked"
  "s_at x = Some q \<Longrightarrow> s_turn x =
     omap (\<lambda>(e, c, p). x\<lparr>s_at := (if q = S_end then None else Some (send_next q e)), s_ctx := c, s_prot := p,
              to_receiver := fst (snd (m_device p)), to_sender := fst (m_device p), late := snd (snd (m_device p))\<rparr>)
       (send_handlers wire_end q (s_ctx x, (s_prot x)\<lparr>m_device := (to_sender x, to_receiver x, False)\<rparr>))"
  "r_at x = None \<Longrightarrow> r_turn cs x = Blocked"
  "r_at x = Some q' \<Longrightarrow> r_turn cs x =
     omap (\<lambda>(e, c, p). x\<lparr>r_at := (if q' = R_end then None else Some (recv_next q' e)), r_ctx := c, r_prot := p,
              to_receiver := fst (m_device p), to_sender := fst (snd (m_device p)), late := snd (snd (m_device p))\<rparr>)
       (recv_handlers cs wire_end q' (r_ctx x, (r_prot x)\<lparr>m_device := (to_receiver x, to_sender x, False)\<rparr>))"
  by (simp_all add: s_turn_def r_turn_def case_prod_beta)

text \<open>What a phase promises: each turn that is not late goes on, and there is one.\<close>

definition goes_on :: "(byte list \<Rightarrow> byte) \<Rightarrow> byte list list \<Rightarrow> (nat \<Rightarrow> RecvContext) \<Rightarrow> (nat \<Rightarrow> RecvContext) \<Rightarrow> RecvContext \<Rightarrow>
    link \<Rightarrow> link outcome \<Rightarrow> bool" where
  "goes_on cs fs R A F x r \<longleftrightarrow> (\<exists>y. r = Ret y \<and> on_course cs fs R A F y \<and> to_go (length fs) y < to_go (length fs) x)"

definition is_late :: "link outcome \<Rightarrow> bool" where
  "is_late r \<longleftrightarrow> (\<exists>y. r = Ret y \<and> late y)"

lemma goes_onI:
  "\<exists>y. r = Ret y \<and> in_phase cs fs R A F k ph y \<and> \<not> late y \<and> to_go (length fs) y < to_go (length fs) x \<Longrightarrow>
    goes_on cs fs R A F x r"
  unfolding goes_on_def on_course_def by blast

lemmas turn_eqs = turn_simps sender_at_def receiver_at_def send_unlocked_def waits_def has_all_def ready_def to_go_def

lemma calling_sender:
  assumes "in_phase cs fs R A F k Calling x" "\<not> late x"
  shows "goes_on cs fs R A F x (s_turn x)"
proof -
  consider "s_at x = Some S_idle" | "s_at x = Some S_enquiry" | "s_at x = Some S_reenquiry" using assms by auto
  then show ?thesis
  proof cases
    case 1
    then show ?thesis using assms by (intro goes_onI [where ph = Calling and k = k]) (simp add: turn_eqs sendIdle_def)
  next
    case 2
    then show ?thesis using assms by (intro goes_onI [where ph = Calling and k = k]) (simp add: turn_eqs sendEnquiry_def)
  next
    case 3
    then show ?thesis using assms
      by (intro goes_onI [where ph = Called and k = k]) (auto simp: turn_eqs sendReenquiry_def drain_unfold)
  qed
qed

text \<open>The receiver, as long as it waits: its poll is late when there is no \<open>ENQ\<close> to find.\<close>

lemma waiting_receiver:
  assumes "waits R A k x" "receivable cs fs R A F" "k < length fs" "\<not> late x" "to_receiver x = (if enq then [ENQ] else [])"
  shows "(\<exists>y. r_turn cs x = Ret y \<and> s_at y = s_at x \<and> s_ctx y = s_ctx x \<and> s_prot y = s_prot x \<and> to_sender y = to_sender x \<and>
     \<not> late y \<and> (if r_at x = Some R_enquiry \<and> enq then to_receiver y = [] \<and> receiver_at R k R_ack y
       else to_receiver y = to_receiver x \<and> waits R A k y) \<and>
     recv_rank (to_receiver y \<noteq> []) (r_at y) < recv_rank enq (r_at x)) \<or>
   is_late (r_turn cs x) \<and> \<not> enq"
proof -
  have r: "R 0 = RecvContext" "\<And>j (p :: line_end Protocol). Suc j < length fs \<Longrightarrow> recvDone (A j, p) = Ret (Wait, (R (Suc j), p))"
    using assms(2) by (simp_all add: receivable_def)
  consider "r_at x = Some R_idle" | "r_at x = Some R_done" | "r_at x = Some R_poll" | "r_at x = Some R_repoll"
    | "r_at x = Some R_enquiry"
    using assms(1) by (auto simp: waits_def)
  then show ?thesis
  proof cases
    case 1
    then show ?thesis using assms by (simp add: turn_eqs recvIdle_def)
  next
    case 2
    then show ?thesis using assms r(2) by (auto simp: turn_eqs)
  next
    case 3
    then show ?thesis using assms by (simp add: turn_eqs recvPoll_def is_late_def)
  next
    case 4
    then show ?thesis using assms by (simp add: turn_eqs recvRepoll_def)
  next
    case 5
    then show ?thesis using assms by (simp add: turn_eqs recvEnquiry_def drain_unfold Let_def)
  qed
qed

lemma calling_receiver:
  assumes "in_phase cs fs R A F k Calling x" "\<not> late x" "receivable cs fs R A F"
  shows "goes_on cs fs R A F x (r_turn cs x) \<or> is_late (r_turn cs x)"
proof -
  have "k < length fs" using assms(1) by (simp add: sender_at_def)
  then have "(\<exists>y. r_turn cs x = Ret y \<and> in_phase cs fs R A F k Calling y \<and> \<not> late y \<and>
      to_go (length fs) y < to_go (length fs) x) \<or> is_late (r_turn cs x)"
    using waiting_receiver [of R A k x cs fs F False] assms by (fastforce simp: sender_at_def to_go_def)
  then show ?thesis using goes_onI by blast
qed

lemma called_receiver:
  assumes "in_phase cs fs R A F k Called x" "\<not> late x" "receivable cs fs R A F"
  shows "goes_on cs fs R A F x (r_turn cs x)"
proof -
  have "k < length fs" using assms(1) by (simp add: sender_at_def)
  then have "\<exists>y. r_turn cs x = Ret y \<and> (in_phase cs fs R A F k Called y \<or> in_phase cs fs R A F k Answering y) \<and> \<not> late y \<and>
      to_go (length fs) y < to_go (length fs) x"
    using waiting_receiver [of R A k x cs fs F True] assms
    by (cases "r_at x = Some R_enquiry") (fastforce simp: sender_at_def to_go_def)+
  then show ?thesis using goes_onI by blast
qed

text \<open>A sender that waits for an answer is late when there is none.\<close>

lemma early_sender:
  assumes "s_at x \<in> {Some S_ack, Some S_ack2}" "to_sender x = []"
  shows "is_late (s_turn x)"
  using assms
  by (auto simp: turn_simps sendAcknowledgement_def sendAcknowledgement2_def is_late_def kTimeout3_def)

lemma answering_receiver:
  assumes "in_phase cs fs R A F k Answering x" "\<not> late x"
  shows "goes_on cs fs R A F x (r_turn cs x)"
  using assms by (intro goes_onI [where ph = Answered and k = k]) (auto simp: turn_eqs recvAcknowledgement_def)

text \<open>A receiver that waits for the start of a frame is late when there is none.\<close>

lemma early_receiver:
  assumes "r_at x = Some R_stx" "to_receiver x = []"
  shows "is_late (r_turn cs x)"
  using assms by (simp add: turn_simps recvControlCode_def is_late_def kTimeout3_def Let_def read_event_def)

lemma answered_sender:
  assumes "in_phase cs fs R A F k Answered x" "\<not> late x"
  shows "goes_on cs fs R A F x (s_turn x)"
  using assms by (intro goes_onI [where ph = Writing and k = k]) (auto simp: turn_eqs sendAcknowledgement_def)

lemma writing_sender:
  assumes "in_phase cs fs R A F k Writing x" "\<not> late x" "receivable cs fs R A F"
  shows "goes_on cs fs R A F x (s_turn x)"
proof -
  have k: "k < length fs" using assms(1) by (simp add: sender_at_def)
  then have "recv_pass cs 8 R_stx (R k, (r_prot x)\<lparr>m_device := (fs ! k, [], False)\<rparr>) =
      Some (R_ack2, (A k, (r_prot x)\<lparr>m_device := ([], [], False)\<rparr>))"
    using assms(3) by (simp add: receivable_def)
  then have "\<exists>p. recv_pass cs 8 R_stx (R k, (r_prot x)\<lparr>m_device := (fs ! k, [], False)\<rparr>) = Some (R_ack2, (A k, p)) \<and>
      m_device p = ([], [], False) \<and> m_accessLock p = Some Receiving"
    using assms(1) by (simp add: receiver_at_def)
  then show ?thesis using assms(1,2) k
    by (intro goes_onI [where ph = Taking and k = k])
       (simp add: turn_eqs sendFrame_def currentFrame_def taking_def del: recv_pass.simps)
qed

lemma with_own_device [simp]: "m_device p = d \<Longrightarrow> p\<lparr>m_device := d\<rparr> = p"
  by (cases p) simp

lemma taking_receiver:
  assumes "in_phase cs fs R A F k Taking x" "\<not> late x"
  shows "goes_on cs fs R A F x (r_turn cs x)"
proof -
  obtain q m p where q: "r_at x = Some q" "recv_rank False (Some q) = Suc m" "m \<le> 8"
    and pass: "recv_pass cs m q (r_ctx x, (r_prot x)\<lparr>m_device := (to_receiver x, [], False)\<rparr>) = Some (R_ack2, (A k, p))"
    and p: "m_device p = ([], [], False)" "m_accessLock p = Some Receiving"
    using assms(1) by (auto simp: taking_def)
  show ?thesis
  proof (cases m)
    case 0
    then have "q = R_ack2" "r_ctx x = A k" "p = (r_prot x)\<lparr>m_device := (to_receiver x, [], False)\<rparr>" using pass by auto
    moreover then have "to_receiver x = []" "m_accessLock (r_prot x) = Some Receiving" using p by auto
    ultimately have "r_turn cs x = Ret (x\<lparr>r_at := Some R_done, r_ctx := A k, r_prot := (r_prot x)\<lparr>m_device := ([], [ACK], False)\<rparr>,
          to_receiver := [], to_sender := [ACK], late := False\<rparr>)" (is "_ = Ret ?y")
      using assms q(1) by (simp add: turn_simps recvAcknowledgement2_def recvAcknowledgement_def)
    moreover have "Suc k < length fs \<or> length fs - Suc 0 = k" using assms(1) by (auto simp: sender_at_def)
    then have "in_phase cs fs R A F k Confirmed ?y" "to_go (length fs) ?y < to_go (length fs) x"
      using assms q(1) \<open>q = R_ack2\<close> \<open>r_ctx x = A k\<close> \<open>to_receiver x = []\<close> \<open>m_accessLock (r_prot x) = Some Receiving\<close>
      by (auto simp: turn_eqs)
    ultimately show ?thesis by (intro goes_onI [where ph = Confirmed and k = k]) auto
  next
    case (Suc n)
    have next_q: "recv_rank False (Some (recv_next q Pass)) = Suc n" "q \<noteq> R_end"
        "recv_rank b (Some (recv_next q Pass)) = Suc n" "recv_rank b (Some q) = Suc (Suc n)" for b
      using q(2,3) Suc by (cases q; simp)+
    obtain c' p' where h: "recv_handlers cs wire_end q (r_ctx x, (r_prot x)\<lparr>m_device := (to_receiver x, [], False)\<rparr>) =
        Ret (Pass, (c', p'))" "snd (m_device p') = ([], False)"
        "recv_pass cs n (recv_next q Pass) (c', p') = Some (R_ack2, (A k, p))"
      using pass Suc by (auto split: outcome.splits prod.splits if_splits)
    obtain i where i: "m_device p' = (i, [], False)" using h(2) by (cases "m_device p'") auto
    show ?thesis using assms q(1,3) h i p Suc next_q
      by (intro goes_onI [where ph = Taking and k = k]) (auto simp: turn_eqs taking_def)
  qed
qed

lemma confirmed_sender:
  assumes "in_phase cs fs R A F k Confirmed x" "\<not> late x"
  shows "goes_on cs fs R A F x (s_turn x)"
proof -
  consider "s_at x = Some S_ack2" "to_sender x = [ACK]" | "s_at x = Some S_done" "Suc k < length fs"
    | "s_at x = Some S_done" "\<not> Suc k < length fs"
    using assms(1) by auto
  then show ?thesis
  proof cases
    case 1
    then show ?thesis using assms
      by (intro goes_onI [where ph = Confirmed and k = k])
         (simp add: turn_simps sender_at_def send_unlocked_def ready_def waits_def has_all_def to_go_def
           sendAcknowledgement2_def sendAcknowledgement_def split: if_splits)
  next
    case 2
    then show ?thesis using assms
      by (intro goes_onI [where ph = Calling and k = "Suc k"])
         (auto simp: turn_eqs sendDone_def hasFramesToSend_def onFrameCompleted_def)
  next
    case 3
    then show ?thesis using assms
      by (intro goes_onI [where ph = Over and k = k])
         (auto simp: turn_simps sender_at_def send_unlocked_def ready_def has_all_def to_go_def sendDone_def hasFramesToSend_def
           split: if_splits)
  qed
qed

lemma last_receiver:
  assumes "has_all A F (length fs) x" "receivable cs fs R A F" "\<not> late x" "to_receiver x = []" "r_at x \<noteq> None"
  shows "\<exists>y. r_turn cs x = Ret y \<and> s_at y = s_at x \<and> s_ctx y = s_ctx x \<and> s_prot y = s_prot x \<and> to_sender y = to_sender x \<and>
     \<not> late y \<and> to_receiver y = [] \<and> has_all A F (length fs) y \<and> recv_rank False (r_at y) < recv_rank False (r_at x)"
proof -
  have r: "\<And>(p :: line_end Protocol). recvDone (A (length fs - Suc 0), p) = Ret (Pass, (F, p))"
    using assms(2) by (simp add: receivable_def)
  consider "r_at x = Some R_done" | "r_at x = Some R_end" using assms(1,5) by (auto simp: has_all_def)
  then show ?thesis
    using assms r by cases (simp_all add: turn_simps has_all_def recvEnd_def)
qed

lemma confirmed_receiver:
  assumes "in_phase cs fs R A F k Confirmed x" "\<not> late x" "receivable cs fs R A F"
  shows "goes_on cs fs R A F x (r_turn cs x) \<or> is_late (r_turn cs x) \<or> r_turn cs x = Blocked"
proof (cases "r_at x = None")
  case True
  then show ?thesis by (simp add: turn_simps)
next
  case False
  have "(\<exists>y. r_turn cs x = Ret y \<and> in_phase cs fs R A F k Confirmed y \<and> \<not> late y \<and>
      to_go (length fs) y < to_go (length fs) x) \<or> is_late (r_turn cs x)"
  proof (cases "Suc k < length fs")
    case True
    then show ?thesis
      using waiting_receiver [of R A "Suc k" x cs fs F False] assms
      by (fastforce simp: sender_at_def ready_def to_go_def)
  next
    case last: False
    then show ?thesis
      using last_receiver [of A F fs x cs R] assms False by (fastforce simp: sender_at_def ready_def to_go_def)
  qed
  then show ?thesis using goes_onI by blast
qed

lemma over_sender:
  assumes "in_phase cs fs R A F k Over x" "\<not> late x" "s_at x \<noteq> None"
  shows "goes_on cs fs R A F x (s_turn x)"
  using assms by (intro goes_onI [where ph = Over and k = k]) (auto simp: turn_simps sendEnd_def to_go_def has_all_def)

lemma over_receiver:
  assumes "in_phase cs fs R A F k Over x" "\<not> late x" "receivable cs fs R A F" "r_at x \<noteq> None"
  shows "goes_on cs fs R A F x (r_turn cs x)"
proof -
  have "\<exists>y. r_turn cs x = Ret y \<and> in_phase cs fs R A F k Over y \<and> \<not> late y \<and> to_go (length fs) y < to_go (length fs) x"
    using last_receiver [of A F fs x cs R] assms by (fastforce simp: to_go_def)
  then show ?thesis by (rule goes_onI)
qed

section \<open>Whole runs\<close>

lemma course_turn:
  assumes "on_course cs fs R A F x" "receivable cs fs R A F"
  shows "goes_on cs fs R A F x (turn_of cs t x) \<or> is_late (turn_of cs t x) \<or> turn_of cs t x = Blocked"
    and "(\<exists>t. goes_on cs fs R A F x (turn_of cs t x)) \<or> s_at x = None \<and> r_at x = None"
proof -
  obtain k ph where ph: "in_phase cs fs R A F k ph x" and l: "\<not> late x"
    using assms(1) by (auto simp: on_course_def)
  have *: "((goes_on cs fs R A F x (s_turn x) \<or> is_late (s_turn x) \<or> s_turn x = Blocked) \<and>
     (goes_on cs fs R A F x (r_turn cs x) \<or> is_late (r_turn cs x) \<or> r_turn cs x = Blocked)) \<and>
     (goes_on cs fs R A F x (s_turn x) \<or> goes_on cs fs R A F x (r_turn cs x) \<or> s_at x = None \<and> r_at x = None)"
  proof (cases ph)
    case Calling
    then show ?thesis using calling_sender [of cs fs R A F k x] calling_receiver [of cs fs R A F k x] ph l assms(2) by blast
  next
    case Called
    then show ?thesis using early_sender [of x] called_receiver [of cs fs R A F k x] ph l assms(2) by auto
  next
    case Answering
    then show ?thesis using early_sender [of x] answering_receiver [of cs fs R A F k x] ph l by auto
  next
    case Answered
    then show ?thesis using answered_sender [of cs fs R A F k x] early_receiver [of x cs] ph l
      by (auto simp: receiver_at_def)
  next
    case Writing
    then show ?thesis using writing_sender [of cs fs R A F k x] early_receiver [of x cs] ph l assms(2)
      by (auto simp: receiver_at_def)
  next
    case Taking
    then show ?thesis using early_sender [of x] taking_receiver [of cs fs R A F k x] ph l by auto
  next
    case Confirmed
    then show ?thesis using confirmed_sender [of cs fs R A F k x] confirmed_receiver [of cs fs R A F k x] ph l assms(2) by blast
  next
    case Over
    then show ?thesis
      using over_sender [of cs fs R A F k x] over_receiver [of cs fs R A F k x] ph l assms(2)
        turn_simps(1) [of x] turn_simps(3) [of x cs] by blast
  qed
  then show "goes_on cs fs R A F x (turn_of cs t x) \<or> is_late (turn_of cs t x) \<or> turn_of cs t x = Blocked"
    by (cases t) simp_all
  show "(\<exists>t. goes_on cs fs R A F x (turn_of cs t x)) \<or> s_at x = None \<and> r_at x = None"
    using * turn_of.simps by metis
qed

lemma course_step:
  assumes "on_course cs fs R A F x" "receivable cs fs R A F" "on_time cs x y"
  shows "on_course cs fs R A F y" and "to_go (length fs) y < to_go (length fs) x"
proof -
  obtain t where "turn_of cs t x = Ret y" "\<not> late y" using assms(3) by (auto elim: on_time.cases)
  then have "goes_on cs fs R A F x (Ret y)" using course_turn(1) [OF assms(1,2), of t] by (simp add: is_late_def)
  then show "on_course cs fs R A F y" and "to_go (length fs) y < to_go (length fs) x" by (simp_all add: goes_on_def)
qed

lemma course_steps:
  assumes "(on_time cs ^^ m) x y" "on_course cs fs R A F x" "receivable cs fs R A F"
  shows "on_course cs fs R A F y \<and> m + to_go (length fs) y \<le> to_go (length fs) x"
  using assms(1)
proof (induction m arbitrary: y)
  case (Suc m)
  then obtain z where "(on_time cs ^^ m) x z" "on_time cs z y" by auto
  then show ?case using Suc.IH [of z] course_step [of cs fs R A F z y] assms(3) by fastforce
qed (use assms(2) in simp)

lemma course_progress:
  assumes "on_course cs fs R A F x" "receivable cs fs R A F" "s_at x \<noteq> None \<or> r_at x \<noteq> None"
  shows "\<exists>y. on_time cs x y"
  using course_turn(2) [OF assms(1,2)] assms(3) by (auto simp: goes_on_def on_course_def intro: on_timeI)

lemma course_end:
  assumes "on_course cs fs R A F x" "receivable cs fs R A F"
  shows "(s_at x = None \<longrightarrow> m_result (s_ctx x)) \<and> (r_at x = None \<longrightarrow> r_ctx x = F)"
proof -
  obtain k ph where "in_phase cs fs R A F k ph x" using assms(1) by (auto simp: on_course_def)
  then show ?thesis
    by (cases ph) (auto simp: waits_def has_all_def ready_def receiver_at_def taking_def split: if_splits)
qed

text \<open>What \<^verbatim>\<open>send\<close> and \<^verbatim>\<open>receive\<close> give back when they have returned.\<close>

definition link_sent :: "link \<Rightarrow> bool option" where
  "link_sent x = (case s_at x of None \<Rightarrow> Some (m_result (s_ctx x)) | _ \<Rightarrow> None)"

definition link_received :: "link \<Rightarrow> byte list option outcome option" where
  "link_received x =
     (case r_at x of
        None \<Rightarrow> Some (if m_result (r_ctx x)
          then omap Some (extract_message (m_transmitionType (r_ctx x)) (m_frames (r_ctx x)) (m_currentFrame (r_ctx x))
                 (m_totalFrames (r_ctx x)))
          else Ret None)
      | _ \<Rightarrow> None)"

definition gives :: "RecvContext \<Rightarrow> byte list \<Rightarrow> bool" where
  "gives F data \<longleftrightarrow>
     extract_message (m_transmitionType F) (m_frames F) (m_currentFrame F) (m_totalFrames F) = Ret (as_delivered data)"

lemma late_start: "\<not> late (link_start cs data)"
  by (simp add: link_start_def)

lemma start_on_course:
  assumes "receivable cs (prepareFrames cs data) R A F"
  shows "on_course cs (prepareFrames cs data) R A F (link_start cs data)"
    and "to_go (length (prepareFrames cs data)) (link_start cs data) = 100 * length (prepareFrames cs data) + 75"
proof -
  have "in_phase cs (prepareFrames cs data) R A F 0 Calling (link_start cs data)"
    using assms
    by (simp add: link_start_def sender_at_def SendContext_def fresh_def waits_def receivable_def send_unlocked_def)
  then show "on_course cs (prepareFrames cs data) R A F (link_start cs data)"
    unfolding on_course_def by (intro conjI exI) (rule late_start)
qed (simp add: to_go_def link_start_def SendContext_def)

section \<open>Every kind of frame is taken in\<close>

lemma eight: "8 = eight" by simp

lemma receivable_single:
  assumes "\<And>p. recv_pass cs eight R_stx (RecvContext, p\<lparr>m_device := (f, [], False)\<rparr>) =
      Some (R_ack2, (A, p\<lparr>m_device := ([], [], False)\<rparr>))"
    and "m_transmitionType A \<in> {Regular, ExtendedLength}"
    and "prepareFrames cs data = [f]" and "gives (A\<lparr>m_result := True\<rparr>) data"
  shows "\<exists>R A F. receivable cs (prepareFrames cs data) R A F \<and> gives F data"
proof -
  have "receivable cs [f] (\<lambda>_. RecvContext) (\<lambda>_. A) (A\<lparr>m_result := True\<rparr>)"
    unfolding receivable_def eight using assms(1,2) by (auto simp: recvDone_def simp del: recv_pass.simps)
  then show ?thesis unfolding assms(3) using assms(4) by blast
qed

lemma receivable_regular:
  assumes "3 \<le> length data" "length data \<le> 251"
  shows "\<exists>R A F. receivable cs (prepareFrames cs data) R A F \<and> gives F data"
  by (rule receivable_single [OF pass_regular_frame [OF assms new_context(1,2)]])
     (use extract_regular [of cs data] assms in
      \<open>simp_all add: prepareFrames_def gives_def as_delivered_def message_of_frames_def RecvContext_def extract_message_def\<close>)

lemma receivable_extended:
  assumes "251 < length data" "length data \<le> 1027"
  shows "\<exists>R A F. receivable cs (prepareFrames cs data) R A F \<and> gives F data"
proof -
  have "3 \<le> length data" using assms(1) by simp
  then obtain a s cb P where d: "data = a # s # cb # P" by (metis Suc_le_length_iff numeral_3_eq_3)
  let ?f = "long_frame cs [a, s, cb] (length P + 8) P"
  have f: "extended_frame cs data = ?f"
    by (simp add: extended_frame_def long_frame_def d Let_def add.commute)
  have n: "length [a, s, cb] = 3" "length P + 8 \<le> 1032" using assms(2) d by simp_all
  have pf: "prepareFrames cs data = [?f]" using assms f by (simp add: prepareFrames_def)
  have "message_of_frames [?f] ExtendedLength = Ret data" using extract_extended [of data cs] assms f by simp
  then have g: "gives (RecvContext\<lparr>m_dataLength := l, m_transmitionType := ExtendedLength, m_frames := [] @ [?f]\<rparr>\<lparr>m_result := True\<rparr>) data" for l
    using assms(2) by (simp add: gives_def as_delivered_def message_of_frames_def RecvContext_def extract_message_def)
  show ?thesis
    by (rule receivable_single [OF pass_extended_frame [OF n(1) refl n(2) new_context] _ _ g]) (simp_all add: pf)
qed

text \<open>
  The receiver's context when frames with the numbers \<open>js\<close> of a divided message have been taken in,
  and when it waits for another one.
\<close>

definition arrived :: "(nat \<Rightarrow> byte list) \<Rightarrow> nat \<Rightarrow> nat \<Rightarrow> nat list \<Rightarrow> RecvContext" where
  "arrived frame n len js = RecvContext\<lparr>m_dataLength := word_of_nat (min 1024 (len - 1024 * last js) + 12) - 2,
     m_transmitionType := ExtendedLengthWithFrameDivision, m_totalFrames := word_of_nat n,
     m_frameNumber := word_of_nat (last js), m_frames := map frame js, m_currentFrame := length js - 1\<rparr>"

definition awaiting :: "(nat \<Rightarrow> byte list) \<Rightarrow> nat \<Rightarrow> nat \<Rightarrow> nat list \<Rightarrow> RecvContext" where
  "awaiting frame n len js = (if js = [] then RecvContext
     else (arrived frame n len js)\<lparr>m_frames := map frame js @ [[]], m_currentFrame := length js\<rparr>)"

lemma arrive:
  assumes n: "n = (length P + 1023) div 1024" "n < 65536" "j < n" "js = [] \<Longrightarrow> Suc j < n"
  shows "recv_pass cs 8 R_stx (awaiting (nth_division_frame cs n a s cb P) n (length P) js,
      p\<lparr>m_device := (nth_division_frame cs n a s cb P j, [], False)\<rparr>) =
    Some (R_ack2, (arrived (nth_division_frame cs n a s cb P) n (length P) (js @ [j]), p\<lparr>m_device := ([], [], False)\<rparr>))"
proof -
  let ?F = "nth_division_frame cs n a s cb P" and ?P = "take 1024 (drop (1024 * j) P)"
  let ?size = "min 1024 (length P - 1024 * j) + 12" and ?h = "[a, s, if Suc j = n then cb OR 0x03 else cb OR 0x02]"
    and ?nb = "number_bytes (word_of_nat j) @ number_bytes (word_of_nat n)" and ?c = "awaiting ?F n (length P) js"
  have F: "?F j = long_frame cs ?h ?size (?nb @ ?P)"
    unfolding nth_division_frame_def by (rule division_as_long) simp
  have size: "?size = length ?P + 12" "?size < 2 ^ 24" by auto
  have "1024 * (n - 1) < length P" using n(1,3) by linarith
  then have "1032 < ?size" if "js = []" using n(4) [OF that] by auto
  then have c: "m_frames ?c = map ?F js @ [[]]" "m_currentFrame ?c = length (map ?F js)" "m_transmitionType ?c \<noteq> Regular"
      "1032 < ?size \<or> m_transmitionType ?c = ExtendedLengthWithFrameDivision"
    by (cases "js = []"; simp add: awaiting_def arrived_def RecvContext_def)+
  have res: "?c\<lparr>m_dataLength := word_of_nat ?size - 2, m_transmitionType := ExtendedLengthWithFrameDivision,
      m_totalFrames := word_of_nat n, m_frameNumber := word_of_nat j, m_frames := map ?F js @ [?F j]\<rparr> =
      arrived ?F n (length P) (js @ [j])"
    by (cases "js = []") (simp_all add: awaiting_def arrived_def RecvContext_def)
  have h: "length ?h = 3" "length ?nb = 4" by simp_all
  have "j < 65536" using n(2,3) by simp
  note num = decode_numbers [OF this n(2)]
  show ?thesis
    by (unfold eight) (rule pass_division_frame [OF h(1) size h(2) c, where cs = cs and p = p, unfolded num, folded F, unfolded res])
qed

lemma arrived_done:
  assumes "js \<noteq> []" "last js < n" "n < 65536"
  shows "recvDone (arrived frame n len js, p) =
    Ret (if Suc (last js) = n then (Pass, ((arrived frame n len js)\<lparr>m_result := True\<rparr>, p)) else (Wait, (awaiting frame n len js, p)))"
  using assms word_of_nat_eq_pred [of "last js" n]
  by (cases js) (simp_all add: arrived_def awaiting_def recvDone_def recv_onFrameCompleted_def onFrameCompleted_def)

lemma receivable_divided:
  assumes "1030 < length data" "length data \<le> 3 + 1024 * 65535"
  shows "\<exists>R A F. receivable cs (prepareFrames cs data) R A F \<and> gives F data"
proof -
  have "3 \<le> length data" using assms(1) by simp
  then obtain a s cb P where d: "data = a # s # cb # P" by (metis Suc_le_length_iff numeral_3_eq_3)
  define n where "n = (length P + 1023) div 1024"
  have P: "1024 < length P" "length P < 2 ^ 32 - 3" "n < 65536" using assms d by (auto simp: n_def)
  have n: "1 < n" using P(1) by (simp add: n_def)
  let ?F = "nth_division_frame cs n a s cb P"
  let ?A = "\<lambda>k. arrived ?F n (length P) [0..<Suc k]" and ?R = "\<lambda>k. awaiting ?F n (length P) [0..<k]"
  have pf: "prepareFrames cs data = map ?F [0..<n]"
    using assms(1) divided_frames_eq [OF d P(1,2)] by (simp add: prepareFrames_def n_def)
  let ?final = "(?A (n - 1))\<lparr>m_result := True\<rparr>"
  have pass: "recv_pass cs 8 R_stx (?R k, p\<lparr>m_device := (?F k, [], False)\<rparr>) = Some (R_ack2, (?A k, p\<lparr>m_device := ([], [], False)\<rparr>))"
    if "k < n" for k p
    using arrive [OF n_def P(3) that, of "[0..<k]" cs a s cb p] n by simp
  have taken: "recvDone (?A k, p) = Ret (if Suc k = n then (Pass, ((?A k)\<lparr>m_result := True\<rparr>, p)) else (Wait, (?R (Suc k), p)))"
    if "k < n" for k and p :: "line_end Protocol"
    using arrived_done [of "[0..<Suc k]" n ?F "length P" p] that P(3) by simp
  have "receivable cs (map ?F [0..<n]) ?R ?A ?final"
    unfolding receivable_def
  proof (intro conjI allI impI)
    show "recvDone (?A (length (map ?F [0..<n]) - 1), p) = Ret (Pass, (?final, p))" for p :: "line_end Protocol"
      using taken [of "n - 1" p] n by simp
  qed (use n pass taken in \<open>simp_all add: awaiting_def [of _ _ _ "[]"] del: upt_Suc\<close>)
  moreover have "gives ?final data"
  proof -
    have "as_delivered data = a # s # (cb OR 0x02) # P" using assms(1) d by (simp add: as_delivered_def)
    moreover have "extract_message ExtendedLengthWithFrameDivision (map ?F [0..<n]) (n - 1) (word_of_nat n) =
        Ret (a # s # (cb OR 0x02) # P)"
      using extract_divided [OF d P(1,2), of cs] divided_frames_eq [OF d P(1,2), of cs]
      by (simp add: message_of_frames_def n_def)
    moreover have e: "m_transmitionType ?final = ExtendedLengthWithFrameDivision" "m_frames ?final = map ?F [0..<n]"
        "m_currentFrame ?final = n - 1" "m_totalFrames ?final = word_of_nat n"
      using n by (simp_all add: arrived_def)
    ultimately show ?thesis unfolding gives_def e by (simp only:)
  qed
  ultimately show ?thesis unfolding pf by blast
qed

lemma receivable_message:
  assumes "3 \<le> length data" "length data \<notin> {1028, 1029, 1030}" "length data \<le> 3 + 1024 * 65535"
  obtains R A F where "receivable cs (prepareFrames cs data) R A F" "gives F data"
proof -
  consider "length data \<le> 251" | "251 < length data" "length data \<le> 1027" | "1030 < length data"
    using assms(2) by fastforce
  then have "\<exists>R A F. receivable cs (prepareFrames cs data) R A F \<and> gives F data"
    using receivable_regular [OF assms(1)] receivable_extended receivable_divided assms(3) by cases blast+
  then show thesis using that by blast
qed

section \<open>Delivery\<close>

text \<open>Runs of bounded length can be continued to one that ends.\<close>

lemma longest_run:
  assumes "\<And>m y. (r ^^ m) x y \<Longrightarrow> m \<le> b"
  obtains m y where "(r ^^ m) x y" "\<And>z. \<not> r y z"
proof -
  have "\<exists>y. (r ^^ 0) x y" by simp
  then obtain m where m: "\<exists>y. (r ^^ m) x y" "\<forall>k. (\<exists>y. (r ^^ k) x y) \<longrightarrow> k \<le> m"
    using GreatestI_nat [of "\<lambda>m. \<exists>y. (r ^^ m) x y" 0 b] Greatest_le_nat [of "\<lambda>m. \<exists>y. (r ^^ m) x y" _ b] assms by blast
  then obtain y where y: "(r ^^ m) x y" by blast
  have "\<not> r y z" for z using m(2) relpowp_Suc_I [OF y] not_less_eq_eq by blast
  then show thesis using that y by blast
qed


end
