(* ===== verification/FrameGrammar.thy ===== *)
theory FrameGrammar
  imports Link
begin

text \<open>
  What the receiver accepts: from the state that waits for \<open>STX\<close> the machine comes to the
  acknowledgement exactly when the line holds a well formed frame, and to \<open>NAK\<close> otherwise.
  Well formedness is stated on the bytes alone.
\<close>

section \<open>Well formed frames\<close>

text \<open>The length a frame announces: all of it but \<open>STX\<close> and the length byte.\<close>

definition announced :: "byte list \<Rightarrow> nat" where
  "announced f = (if f ! 1 = EXT_LEN then unat (decode_length (f ! 5) (f ! 6) (f ! 7)) else unat (f ! 1))"

text \<open>How a frame is read depends on whether a divided message has begun before it.\<close>

definition frame_type :: "TransmitionType \<Rightarrow> byte list \<Rightarrow> TransmitionType" where
  "frame_type t f =
     (if f ! 1 \<noteq> EXT_LEN then Regular
      else if 1032 < announced f \<or> t = ExtendedLengthWithFrameDivision then ExtendedLengthWithFrameDivision
      else ExtendedLength)"

definition valid_frame :: "(byte list \<Rightarrow> byte) \<Rightarrow> TransmitionType \<Rightarrow> byte list \<Rightarrow> bool" where
  "valid_frame cs t f \<longleftrightarrow>
     header_length (frame_type t f) + 2 \<le> length f \<and> length f = announced f + 2 \<and>
     (f ! 1 \<noteq> EXT_LEN \<longrightarrow> kMinFrameLength \<le> unat (f ! 1) \<and> unat (f ! 1) \<le> kMaxFrameLength) \<and>
     (\<exists>g. f = STX # g @ [ETX, cs (g @ [ETX])])"

section \<open>The walk through a frame\<close>

text \<open>The handlers from \<open>R_stx\<close> on, until the frame is taken in or refused.\<close>

fun recv_walk :: "(byte list \<Rightarrow> byte) \<Rightarrow> nat \<Rightarrow> RecvState \<Rightarrow> line_end recv_world \<Rightarrow> (RecvState \<times> line_end recv_world) outcome"
  where
  "recv_walk cs 0 q w = Ret (q, w)"
| "recv_walk cs (Suc n) q w =
     (if q = R_nak then Ret (q, w)
      else obind (recv_handlers cs wire_end q w) (\<lambda>(e, w). recv_walk cs n (recv_next q e) w))"

lemma recv_walk_nak [simp]: "recv_walk cs n R_nak w = Ret (R_nak, w)"
  by (cases n) simp_all

definition refused :: "(RecvState \<times> line_end recv_world) outcome \<Rightarrow> bool" where
  "refused r \<longleftrightarrow> (\<exists>w. r = Ret (R_nak, w))"

lemmas walk_simps = recv_handler_defs append_current_def currentFrame_def set_currentFrame_def vec_at_def
  kTimeout3_def kTimeout4_def read_event_def Let_def

lemma walk_start:
  assumes c: "m_frames c = fs @ [[]]" "m_currentFrame c = length fs"
  shows "\<not> (\<exists>l r. i = STX # l # r) \<Longrightarrow> refused (recv_walk cs eight R_stx (c, p\<lparr>m_device := (i, out, lt)\<rparr>))"
    and "l \<noteq> EXT_LEN \<Longrightarrow> \<not> (5 \<le> unat l \<and> unat l \<le> 253) \<Longrightarrow>
      refused (recv_walk cs eight R_stx (c, p\<lparr>m_device := (STX # l # r, out, lt)\<rparr>))"
proof -
  assume "\<not> (\<exists>l r. i = STX # l # r)"
  then consider "i = []" | b r where "i = b # r" "b \<noteq> STX" | "i = [STX]"
    by (metis neq_Nil_conv)
  then show "refused (recv_walk cs eight R_stx (c, p\<lparr>m_device := (i, out, lt)\<rparr>))"
    using c by cases (simp_all add: walk_simps refused_def)
next
  assume "l \<noteq> EXT_LEN" "\<not> (5 \<le> unat l \<and> unat l \<le> 253)"
  then have "l \<noteq> EXT_LEN" "\<not> 5 \<le> unat l \<or> \<not> unat l \<le> 253" by auto
  then show "refused (recv_walk cs eight R_stx (c, p\<lparr>m_device := (STX # l # r, out, lt)\<rparr>))"
    using c by (elim disjE) (simp_all add: walk_simps refused_def)
qed

text \<open>The end of a frame, \<open>ETX\<close> and the checksum of the bytes \<open>g\<close> after \<open>STX\<close>, and what comes behind it.\<close>

definition ends :: "(byte list \<Rightarrow> byte) \<Rightarrow> byte list \<Rightarrow> byte list \<Rightarrow> byte list option" where
  "ends cs g r = (case r of e # k # r' \<Rightarrow> if e = ETX \<and> k = cs (g @ [ETX]) then Some r' else None | _ \<Rightarrow> None)"

lemma walk_end:
  assumes c: "m_frames c = fs @ [STX # g]" "m_currentFrame c = length fs"
  shows "case ends cs g r of
      None \<Rightarrow> refused (recv_walk cs (Suc (Suc 0)) R_etx (c, p\<lparr>m_device := (r, out, lt)\<rparr>))
    | Some r' \<Rightarrow> recv_walk cs (Suc (Suc 0)) R_etx (c, p\<lparr>m_device := (r, out, lt)\<rparr>) =
        Ret (R_ack2, (c\<lparr>m_frames := fs @ [STX # g @ [ETX, cs (g @ [ETX])]]\<rparr>, p\<lparr>m_device := (r', out, lt)\<rparr>))"
proof -
  consider "r = []" | e where "r = [e]" | e k r' where "r = e # k # r'" by (metis neq_Nil_conv)
  then show ?thesis
    using c by cases (auto simp: walk_simps refused_def ends_def)
qed

lemma walk_data:
  assumes c: "m_frames c = fs @ [f]" "m_currentFrame c = length fs"
  shows "recv_walk cs (Suc n) R_data (c, p\<lparr>m_device := (r, out, lt)\<rparr>) =
    (if unat (recv_data_size c) \<le> length r
     then recv_walk cs n R_etx (c\<lparr>m_frames := fs @ [f @ take (unat (recv_data_size c)) r]\<rparr>,
            p\<lparr>m_device := (drop (unat (recv_data_size c)) r, out, lt)\<rparr>)
     else Ret (R_nak, (c\<lparr>m_frames := fs @ [f @ overwrite (unat (recv_data_size c)) r]\<rparr>, p\<lparr>m_device := ([], out, True)\<rparr>)))"
  using c by (simp add: walk_simps)

definition taken_in :: "(RecvState \<times> line_end recv_world) outcome \<Rightarrow> byte list list \<Rightarrow> TransmitionType \<Rightarrow> line_end Protocol \<Rightarrow> bool"
  where
  "taken_in r frames t p \<longleftrightarrow> (\<exists>c. r = Ret (R_ack2, (c, p)) \<and> m_frames c = frames \<and> m_transmitionType c = t)"

text \<open>A frame whose bytes \<open>h\<close> after \<open>STX\<close> have been read, with \<open>n\<close> bytes of data to come.\<close>

definition finishes :: "(byte list \<Rightarrow> byte) \<Rightarrow> byte list list \<Rightarrow> TransmitionType \<Rightarrow> byte list \<Rightarrow> nat \<Rightarrow> byte list \<Rightarrow>
    line_end Protocol \<Rightarrow> byte list \<Rightarrow> bool \<Rightarrow> (RecvState \<times> line_end recv_world) outcome \<Rightarrow> bool" where
  "finishes cs fs t h n r p out lt res \<longleftrightarrow>
     (case (if n \<le> length r then ends cs (h @ take n r) (drop n r) else None) of
        None \<Rightarrow> refused res
      | Some r' \<Rightarrow> taken_in res (fs @ [STX # h @ take n r @ [ETX, cs (h @ take n r @ [ETX])]]) t (p\<lparr>m_device := (r', out, lt)\<rparr>))"

lemma walk_finish:
  assumes c: "m_frames c = fs @ [STX # h]" "m_currentFrame c = length fs" and n: "unat (recv_data_size c) = n"
  shows "finishes cs fs (m_transmitionType c) h n r p out lt
    (recv_walk cs (Suc (Suc (Suc 0))) R_data (c, p\<lparr>m_device := (r, out, lt)\<rparr>))"
proof (cases "n \<le> length r")
  case True
  then show ?thesis
    using walk_end [of "c\<lparr>m_frames := fs @ [STX # h @ take n r]\<rparr>" fs "h @ take n r" cs "drop n r" out lt p] c
    unfolding walk_data [OF c, of cs "Suc (Suc 0)"] n
    by (simp add: finishes_def taken_in_def split: option.splits)
next
  case False
  then show ?thesis unfolding walk_data [OF c, of cs "Suc (Suc 0)"] n by (simp add: finishes_def refused_def)
qed

lemma finishes_shift:
  assumes "finishes cs fs t (h @ take m r) k (drop m r) p out lt res" "m \<le> length r"
  shows "finishes cs fs t h (m + k) r p out lt res"
proof -
  have "k \<le> length (drop m r) \<longleftrightarrow> m + k \<le> length r" "(h @ take m r) @ take k (drop m r) = h @ take (m + k) r"
    using assms(2) by (auto simp: take_add)
  moreover have "drop k (drop m r) = drop (m + k) r" by (simp add: add.commute)
  ultimately have "k \<le> length (drop m r) \<longleftrightarrow> m + k \<le> length r" "drop k (drop m r) = drop (m + k) r"
      "(h @ take m r) @ take k (drop m r) = h @ take (m + k) r"
    by blast+
  then show ?thesis using assms(1) unfolding finishes_def by (auto simp: take_add split: option.splits if_splits)
qed

lemma recv_walk_add: "recv_walk cs (m + n) q w = obind (recv_walk cs m q w) (\<lambda>(q, w). recv_walk cs n q w)"
proof (induction m arbitrary: q w)
  case (Suc m)
  then show ?case by (cases "recv_handlers cs wire_end q w") auto
qed simp

abbreviation five :: nat where "five \<equiv> Suc (Suc (Suc (Suc (Suc 0))))"

lemma walk_head:
  assumes "recv_walk cs five R_stx w = Ret (R_data, w')"
  shows "recv_walk cs eight R_stx w = recv_walk cs (Suc (Suc (Suc 0))) R_data w'"
  using recv_walk_add [of cs five "Suc (Suc (Suc 0))" R_stx w] assms by (simp del: recv_walk.simps)

lemma walk_refused:
  assumes "refused (recv_walk cs five R_stx w)"
  shows "refused (recv_walk cs eight R_stx w)"
  using recv_walk_add [of cs five "Suc (Suc (Suc 0))" R_stx w] assms by (auto simp: refused_def simp del: recv_walk.simps)

lemma walk_regular:
  assumes c: "m_frames c = fs @ [[]]" "m_currentFrame c = length fs" and l: "l \<noteq> EXT_LEN" "5 \<le> unat l" "unat l \<le> 253"
  shows "finishes cs fs Regular [l] (unat l - 2) r p out lt (recv_walk cs eight R_stx (c, p\<lparr>m_device := (STX # l # r, out, lt)\<rparr>))"
proof (cases "3 \<le> length r")
  case True
  let ?c = "c\<lparr>m_transmitionType := Regular, m_dataLength := word_of_nat (unat l - 2), m_frames := fs @ [STX # l # take 3 r]\<rparr>"
  have "(word_of_nat (unat l - 2) :: u32) - 3 = word_of_nat (unat l - 5)" using l(2) by (simp add: of_nat_diff)
  then have n: "unat (recv_data_size ?c) = unat l - 5" using l(3) by (simp add: recv_data_size_def del: of_nat_diff)
  have "recv_walk cs five R_stx (c, p\<lparr>m_device := (STX # l # r, out, lt)\<rparr>) =
      Ret (R_data, (?c, p\<lparr>m_device := (drop 3 r, out, lt)\<rparr>))"
    using c l True by (simp add: walk_simps numeral_2_eq_2 del: of_nat_diff)
  note walk = walk_head [OF this]
  have "finishes cs fs Regular (l # take 3 r) (unat l - 5) (drop 3 r) p out lt
      (recv_walk cs (Suc (Suc (Suc 0))) R_data (?c, p\<lparr>m_device := (drop 3 r, out, lt)\<rparr>))"
    using walk_finish [of ?c fs "l # take 3 r", OF _ _ n] c by (simp del: recv_walk.simps)
  then have "finishes cs fs Regular [l] (3 + (unat l - 5)) r p out lt
      (recv_walk cs (Suc (Suc (Suc 0))) R_data (?c, p\<lparr>m_device := (drop 3 r, out, lt)\<rparr>))"
    by (intro finishes_shift) (simp_all add: True del: recv_walk.simps)
  then show ?thesis unfolding walk using l(2) by (simp del: recv_walk.simps)
next
  case False
  then have "refused (recv_walk cs five R_stx (c, p\<lparr>m_device := (STX # l # r, out, lt)\<rparr>))"
    using c l by (simp add: walk_simps refused_def)
  then have "refused (recv_walk cs eight R_stx (c, p\<lparr>m_device := (STX # l # r, out, lt)\<rparr>))" by (rule walk_refused)
  moreover have "\<not> unat l - 2 \<le> length r" using False l(2) by linarith
  ultimately show ?thesis by (simp add: finishes_def del: recv_walk.simps)
qed

text \<open>The header of an extended frame: what the walk over it has made of the context, or that it breaks off.\<close>

definition extended_kind :: "nat \<Rightarrow> TransmitionType \<Rightarrow> TransmitionType" where
  "extended_kind n t0 = (if 1032 < n \<or> t0 = ExtendedLengthWithFrameDivision then ExtendedLengthWithFrameDivision else ExtendedLength)"

lemma extended_kind_length: "header_length (extended_kind n t0) = (if 1032 < n \<or> t0 = ExtendedLengthWithFrameDivision then 12 else 8)"
  by (simp add: extended_kind_def header_length_def)

lemma decoded_above: "1032 < decode_length a b x \<longleftrightarrow> 1032 < unat (decode_length a b x)"
  by (simp add: word_less_nat_alt)

lemma nth_length_bytes:
  "6 \<le> length r \<Longrightarrow> take 3 (drop 3 r) ! 0 = r ! 3 \<and> take 3 (drop 3 r) ! 1 = r ! 4 \<and> take 3 (drop 3 r) ! 2 = r ! 5"
  by (simp add: nth_drop)

lemma walk_header:
  assumes c: "m_frames c = fs @ [[]]" "m_currentFrame c = length fs" "m_transmitionType c \<noteq> Regular"
    and r: "6 \<le> length r" "header_length t - 2 \<le> length r" and n: "n = unat (decode_length (r ! 3) (r ! 4) (r ! 5))"
    and t: "t = extended_kind n (m_transmitionType c)"
  shows "\<exists>c'. recv_walk cs five R_stx (c, p\<lparr>m_device := (STX # EXT_LEN # r, out, lt)\<rparr>) =
      Ret (R_data, (c', p\<lparr>m_device := (drop (header_length t - 2) r, out, lt)\<rparr>)) \<and>
    m_frames c' = fs @ [STX # EXT_LEN # take (header_length t - 2) r] \<and> m_currentFrame c' = length fs \<and>
    m_transmitionType c' = t \<and> m_dataLength c' = decode_length (r ! 3) (r ! 4) (r ! 5) - 2"
proof -
  note nth = nth_length_bytes [OF r(1), unfolded One_nat_def] and lim = decoded_above [of "r ! 3" "r ! 4" "r ! 5", folded n]
  have six: "take 3 r @ take 3 (drop 3 r) = take 6 r" and ten: "take 6 r @ take 4 (drop 6 r) = take 10 r"
    by (simp_all flip: take_add)
  have six': "take 3 r @ take 3 (drop 3 r) @ xs = take 6 r @ xs" for xs by (simp flip: append_assoc add: six)
  have three: "3 \<le> length r - 3" using r by simp
  show ?thesis
  proof (cases "1032 < n \<or> m_transmitionType c = ExtendedLengthWithFrameDivision")
    case True
    then have "t = ExtendedLengthWithFrameDivision" "4 \<le> length r - 6" using t r(2) by (simp_all add: extended_kind_def header_length_def)
    then show ?thesis
      using c r True ten three by (simp add: walk_simps nth lim six' header_length_def)
  next
    case False
    then have "t = ExtendedLength" using t by (simp add: extended_kind_def)
    then show ?thesis
      using c r False three by (simp add: walk_simps nth lim six header_length_def)
  qed
qed

lemma walk_header_short:
  assumes c: "m_frames c = fs @ [[]]" "m_currentFrame c = length fs" "m_transmitionType c \<noteq> Regular"
    and r: "6 \<le> length r" and n: "n = unat (decode_length (r ! 3) (r ! 4) (r ! 5))"
    and t: "t = extended_kind n (m_transmitionType c)" and short: "\<not> header_length t - 2 \<le> length r"
  shows "refused (recv_walk cs five R_stx (c, p\<lparr>m_device := (STX # EXT_LEN # r, out, lt)\<rparr>))"
proof -
  note nth = nth_length_bytes [OF r, unfolded One_nat_def] and lim = decoded_above [of "r ! 3" "r ! 4" "r ! 5", folded n]
  have "1032 < n \<or> m_transmitionType c = ExtendedLengthWithFrameDivision" "length r < 10"
    using short r by (auto simp: t extended_kind_length split: if_splits)
  then show ?thesis using c r by (simp add: walk_simps nth lim refused_def)
qed

lemma walk_extended:
  assumes c: "m_frames c = fs @ [[]]" "m_currentFrame c = length fs" "m_transmitionType c \<noteq> Regular"
    and r: "6 \<le> length r" and n: "n = unat (decode_length (r ! 3) (r ! 4) (r ! 5))"
    and t: "t = (if 1032 < n \<or> m_transmitionType c = ExtendedLengthWithFrameDivision
      then ExtendedLengthWithFrameDivision else ExtendedLength)"
    and big: "header_length t \<le> n"
  shows "finishes cs fs t [EXT_LEN] (n - 2) r p out lt (recv_walk cs eight R_stx (c, p\<lparr>m_device := (STX # EXT_LEN # r, out, lt)\<rparr>))"
proof -
  let ?len = "decode_length (r ! 3) (r ! 4) (r ! 5)" and ?i = "STX # EXT_LEN # r"
  let ?m = "header_length t - 2"
  have kind: "t = extended_kind n (m_transmitionType c)" using t by (simp add: extended_kind_def)
  have h: "header_length t = 8 \<or> header_length t = 12" by (simp add: kind extended_kind_length)
  have size: "unat (?len - word_of_nat (header_length t)) = n - header_length t"
    using big h by (auto simp: n unat_sub word_le_nat_alt)
  show ?thesis
  proof (cases "?m \<le> length r")
    case True
    obtain c' where c': "recv_walk cs five R_stx (c, p\<lparr>m_device := (?i, out, lt)\<rparr>) = Ret (R_data, (c', p\<lparr>m_device := (drop ?m r, out, lt)\<rparr>))"
      "m_frames c' = fs @ [STX # EXT_LEN # take ?m r]" "m_currentFrame c' = length fs" "m_transmitionType c' = t"
      "m_dataLength c' = ?len - 2"
      using walk_header [OF c r True n kind] by blast
    have "unat (recv_data_size c') = n - header_length t"
      using size c'(4,5) by (auto simp: recv_data_size_def header_length_def t)
    then have "finishes cs fs t (EXT_LEN # take ?m r) (n - header_length t) (drop ?m r) p out lt
        (recv_walk cs (Suc (Suc (Suc 0))) R_data (c', p\<lparr>m_device := (drop ?m r, out, lt)\<rparr>))"
      using walk_finish [of c' fs "EXT_LEN # take ?m r" "n - header_length t" cs "drop ?m r" p out lt] c'
      by (simp del: recv_walk.simps)
    then have "finishes cs fs t [EXT_LEN] (?m + (n - header_length t)) r p out lt
        (recv_walk cs (Suc (Suc (Suc 0))) R_data (c', p\<lparr>m_device := (drop ?m r, out, lt)\<rparr>))"
      by (intro finishes_shift) (simp_all add: True del: recv_walk.simps)
    moreover have "?m + (n - header_length t) = n - 2" using big h by auto
    ultimately show ?thesis unfolding walk_head [OF c'(1)] by (simp del: recv_walk.simps)
  next
    case False
    then have "refused (recv_walk cs five R_stx (c, p\<lparr>m_device := (?i, out, lt)\<rparr>))"
      by (rule walk_header_short [OF c r n kind])
    moreover have "\<not> n - 2 \<le> length r" using False big by linarith
    ultimately show ?thesis using walk_refused by (simp add: finishes_def del: recv_walk.simps)
  qed
qed

text \<open>The two ways an extended frame fails before its data: it breaks off, or it announces less than its header.\<close>

lemma walk_extended_short:
  assumes c: "m_frames c = fs @ [[]]" "m_currentFrame c = length fs" "m_transmitionType c \<noteq> Regular" and r: "length r < 6"
  shows "refused (recv_walk cs eight R_stx (c, p\<lparr>m_device := (STX # EXT_LEN # r, out, lt)\<rparr>))"
proof (rule walk_refused)
  have "length r < 3 \<or> 3 \<le> length r \<and> \<not> 3 \<le> length r - 3" using r by linarith
  then show "refused (recv_walk cs five R_stx (c, p\<lparr>m_device := (STX # EXT_LEN # r, out, lt)\<rparr>))"
    using c by (elim disjE) (simp_all add: walk_simps refused_def)
qed

lemma walk_extended_small:
  assumes c: "m_frames c = fs @ [[]]" "m_currentFrame c = length fs" "m_transmitionType c \<noteq> Regular"
    and r: "6 \<le> length r" "length r < 2 ^ 31" and n: "n = unat (decode_length (r ! 3) (r ! 4) (r ! 5))"
    and t: "t = (if 1032 < n \<or> m_transmitionType c = ExtendedLengthWithFrameDivision
      then ExtendedLengthWithFrameDivision else ExtendedLength)"
    and small: "n < header_length t"
  shows "refused (recv_walk cs eight R_stx (c, p\<lparr>m_device := (STX # EXT_LEN # r, out, lt)\<rparr>))"
proof -
  let ?len = "decode_length (r ! 3) (r ! 4) (r ! 5)" and ?i = "STX # EXT_LEN # r"
  have nth: "take 3 (drop 3 r) ! 0 = r ! 3" "take 3 (drop 3 r) ! 1 = r ! 4" "take 3 (drop 3 r) ! 2 = r ! 5"
    using r by (simp_all add: nth_drop)
  have lim: "\<not> 1032 < ?len" "n \<le> 1032" using small unfolding n by (auto simp: word_less_nat_alt t header_length_def split: if_splits)
  have size: "2 ^ 31 \<le> unat (?len - word_of_nat (header_length t))"
    using small by (auto simp: n t header_length_def unat_sub_if' word_le_nat_alt)
  have "refused (recv_walk cs five R_stx (c, p\<lparr>m_device := (?i, out, lt)\<rparr>)) \<or>
    (\<exists>c'. recv_walk cs five R_stx (c, p\<lparr>m_device := (?i, out, lt)\<rparr>) =
        Ret (R_data, (c', p\<lparr>m_device := (drop (header_length t - 2) r, out, lt)\<rparr>)) \<and>
      (\<exists>f. m_frames c' = fs @ [f]) \<and> m_currentFrame c' = length fs \<and> m_transmitionType c' = t \<and>
      m_dataLength c' = ?len - 2)"
  proof (cases "m_transmitionType c = ExtendedLengthWithFrameDivision")
    case True
    have "4 \<le> length r - 6 \<or> \<not> 4 \<le> length r - 6" "3 \<le> length r - 3" using r by auto
    then show ?thesis
      using c r True t by (elim disjE) (simp_all add: walk_simps nth [unfolded One_nat_def] lim refused_def header_length_def)
  next
    case False
    have "3 \<le> length r - 3" using r by auto
    then show ?thesis
      using c r False t lim by (simp add: walk_simps nth [unfolded One_nat_def] lim refused_def header_length_def)
  qed
  then show ?thesis
  proof (elim disjE exE conjE)
    fix c' f
    let ?r = "drop (header_length t - 2) r"
    assume c': "recv_walk cs five R_stx (c, p\<lparr>m_device := (?i, out, lt)\<rparr>) = Ret (R_data, (c', p\<lparr>m_device := (?r, out, lt)\<rparr>))"
      "m_frames c' = fs @ [f]" "m_currentFrame c' = length fs" "m_transmitionType c' = t" "m_dataLength c' = ?len - 2"
    have "recv_data_size c' = ?len - word_of_nat (header_length t)"
      using c'(4,5) by (auto simp: recv_data_size_def header_length_def t)
    then have "\<not> unat (recv_data_size c') \<le> length ?r" using size r(2) by simp
    then show ?thesis
      using walk_data [OF c'(2,3), of cs "Suc (Suc 0)" ?r out lt p] unfolding walk_head [OF c'(1)]
      by (simp add: refused_def del: recv_walk.simps)
  qed (rule walk_refused)
qed

section \<open>Exactly the well formed frames are accepted\<close>

lemma sealed_prefix:
  assumes "2 \<le> n"
  shows "STX # l # r = f @ r' \<and> length f = n + 2 \<and> (\<exists>g. f = STX # g @ [ETX, cs (g @ [ETX])]) \<longleftrightarrow>
    n - 2 \<le> length r \<and> ends cs ([l] @ take (n - 2) r) (drop (n - 2) r) = Some r' \<and>
    f = STX # [l] @ take (n - 2) r @ [ETX, cs ([l] @ take (n - 2) r @ [ETX])]" (is "?a \<longleftrightarrow> ?b")
proof
  assume ?a
  then obtain g where g: "f = STX # g @ [ETX, cs (g @ [ETX])]" "l # r = g @ [ETX, cs (g @ [ETX])] @ r'" "Suc (length g) = n"
    by auto
  then show ?b using assms by (cases g) (auto simp: ends_def)
next
  assume b: ?b
  then have "drop (n - 2) r = [ETX, cs ([l] @ take (n - 2) r @ [ETX])] @ r'"
    by (auto simp: ends_def split: list.splits if_splits)
  then have "r = take (n - 2) r @ [ETX, cs ([l] @ take (n - 2) r @ [ETX])] @ r'" by (metis append_take_drop_id)
  then show ?a using b assms by auto
qed

text \<open>The result of a walk on the bytes \<open>i\<close>: a well formed frame in front is taken in, otherwise the walk is refused.\<close>

definition judged :: "(byte list \<Rightarrow> byte) \<Rightarrow> byte list list \<Rightarrow> TransmitionType \<Rightarrow> byte list \<Rightarrow> line_end Protocol \<Rightarrow> byte list \<Rightarrow> bool \<Rightarrow>
    (RecvState \<times> line_end recv_world) outcome \<Rightarrow> bool" where
  "judged cs fs s i p out lt W \<longleftrightarrow>
     (\<forall>f r. i = f @ r \<and> valid_frame cs s f \<longrightarrow> taken_in W (fs @ [f]) (frame_type s f) (p\<lparr>m_device := (r, out, lt)\<rparr>)) \<and>
     ((\<nexists>f r. i = f @ r \<and> valid_frame cs s f) \<longrightarrow> refused W)"

lemma accepted_of_finishes:
  assumes "2 \<le> n" and fin: "finishes cs fs (frame_type s (STX # l # r)) [l] (n - 2) r p out lt W"
    and valid: "\<And>f r'. STX # l # r = f @ r' \<Longrightarrow> valid_frame cs s f \<longleftrightarrow> length f = n + 2 \<and> (\<exists>g. f = STX # g @ [ETX, cs (g @ [ETX])])"
    and type: "\<And>f r'. STX # l # r = f @ r' \<Longrightarrow> length f = n + 2 \<Longrightarrow> frame_type s f = frame_type s (STX # l # r)"
  shows "judged cs fs s (STX # l # r) p out lt W"
  unfolding judged_def
proof (intro conjI allI impI)
  fix f r'
  assume f: "STX # l # r = f @ r' \<and> valid_frame cs s f"
  then have *: "STX # l # r = f @ r' \<and> length f = n + 2 \<and> (\<exists>g. f = STX # g @ [ETX, cs (g @ [ETX])])"
    using valid by blast
  then have "frame_type s f = frame_type s (STX # l # r)" using type by blast
  moreover note sealed = * [unfolded sealed_prefix [OF assms(1)]]
  then have "taken_in W (fs @ [STX # [l] @ take (n - 2) r @ [ETX, cs ([l] @ take (n - 2) r @ [ETX])]])
      (frame_type s (STX # l # r)) (p\<lparr>m_device := (r', out, lt)\<rparr>)"
    using fin by (simp add: finishes_def)
  ultimately show "taken_in W (fs @ [f]) (frame_type s f) (p\<lparr>m_device := (r', out, lt)\<rparr>)"
    using sealed by metis
next
  assume no: "\<nexists>f r'. STX # l # r = f @ r' \<and> valid_frame cs s f"
  have "\<not> (n - 2 \<le> length r \<and> ends cs ([l] @ take (n - 2) r) (drop (n - 2) r) = Some r')" for r'
  proof
    let ?f = "STX # [l] @ take (n - 2) r @ [ETX, cs ([l] @ take (n - 2) r @ [ETX])]"
    assume "n - 2 \<le> length r \<and> ends cs ([l] @ take (n - 2) r) (drop (n - 2) r) = Some r'"
    then have "STX # l # r = ?f @ r' \<and> length ?f = n + 2 \<and> (\<exists>g. ?f = STX # g @ [ETX, cs (g @ [ETX])])"
      unfolding sealed_prefix [OF assms(1)] by blast
    then show False using no valid [of ?f r'] by metis
  qed
  then show "refused W" using fin by (auto simp: finishes_def split: option.splits if_splits)
qed

lemma second_byte: "STX # l # r = f @ r' \<Longrightarrow> 2 \<le> length f \<Longrightarrow> f ! 1 = l"
  by (cases f; cases "tl f") auto

lemma valid_length: "valid_frame cs s f \<Longrightarrow> 2 \<le> length f"
  by (simp add: valid_frame_def)

lemma judged_refused: "\<forall>f r. \<not> (i = f @ r \<and> valid_frame cs s f) \<Longrightarrow> refused W \<Longrightarrow> judged cs fs s i p out lt W"
  by (auto simp: judged_def)

lemma judged_regular:
  assumes c: "m_frames c = fs @ [[]]" "m_currentFrame c = length fs" and l: "l \<noteq> EXT_LEN"
  shows "judged cs fs s (STX # l # r) p out lt (recv_walk cs eight R_stx (c, p\<lparr>m_device := (STX # l # r, out, lt)\<rparr>))"
proof (cases "5 \<le> unat l \<and> unat l \<le> 253")
  case True
  have "finishes cs fs (frame_type s (STX # l # r)) [l] (unat l - 2) r p out lt
      (recv_walk cs eight R_stx (c, p\<lparr>m_device := (STX # l # r, out, lt)\<rparr>))"
    using walk_regular [OF c l] True l by (simp add: frame_type_def)
  then show ?thesis
  proof (rule accepted_of_finishes [rotated])
    show "2 \<le> unat l" using True by simp
    show "valid_frame cs s f \<longleftrightarrow> length f = unat l + 2 \<and> (\<exists>g. f = STX # g @ [ETX, cs (g @ [ETX])])"
      if "STX # l # r = f @ r'" for f r'
    proof (cases "2 \<le> length f")
      case len: True
      show ?thesis using second_byte [OF that len] l True
        by (auto simp: valid_frame_def frame_type_def header_length_def announced_def)
    qed (use valid_length [of cs s f] True in auto)
    show "frame_type s f = frame_type s (STX # l # r)" if "STX # l # r = f @ r'" "length f = unat l + 2" for f r'
      using second_byte [OF that(1)] that(2) l by (simp add: frame_type_def)
  qed
next
  case False
  then have "\<forall>f r'. \<not> (STX # l # r = f @ r' \<and> valid_frame cs s f)"
    using second_byte [of l r] valid_length [of cs s] l by (metis valid_frame_def kMinFrameLength_def kMaxFrameLength_def)
  then show ?thesis by (rule judged_refused) (rule walk_start(2) [OF c l False])
qed

text \<open>What an extended frame announces and how it is read, from the bytes \<open>r\<close> behind the mark.\<close>

definition told :: "byte list \<Rightarrow> nat" where
  "told r = unat (decode_length (r ! 3) (r ! 4) (r ! 5))"

definition read_as :: "TransmitionType \<Rightarrow> byte list \<Rightarrow> TransmitionType" where
  "read_as s r = (if 1032 < told r \<or> s = ExtendedLengthWithFrameDivision then ExtendedLengthWithFrameDivision else ExtendedLength)"

lemma read_as_header: "header_length (read_as s r) = 8 \<or> header_length (read_as s r) = 12"
  by (simp add: header_length_def read_as_def)

lemma extended_front:
  assumes "STX # EXT_LEN # r = f @ r'" "8 \<le> length f"
  shows "announced f = told r" "frame_type s f = read_as s r"
proof -
  have "f ! k = (STX # EXT_LEN # r) ! k" if "k < 8" for k
    unfolding assms(1) using assms(2) that by (simp add: nth_append)
  from this [of 1] this [of 5] this [of 6] this [of 7]
  have "f ! 1 = EXT_LEN" "f ! 5 = r ! 3" "f ! 6 = r ! 4" "f ! 7 = r ! 5" by simp_all
  then show "announced f = told r" "frame_type s f = read_as s r"
    by (simp_all add: announced_def frame_type_def told_def read_as_def)
qed

lemma extended_long:
  assumes "STX # EXT_LEN # r = f @ r'" "valid_frame cs s f"
  shows "10 \<le> length f \<and> 8 \<le> length r"
proof -
  have "f ! 1 = EXT_LEN" by (rule second_byte [OF assms(1) valid_length [OF assms(2)]])
  then have "8 + 2 \<le> length f" using assms(2) by (auto simp: valid_frame_def frame_type_def header_length_def split: if_splits)
  with arg_cong [OF assms(1), of length] show ?thesis by simp
qed

lemma extended_valid:
  assumes "STX # EXT_LEN # r = f @ r'"
  shows "valid_frame cs s f \<longleftrightarrow>
    header_length (read_as s r) \<le> told r \<and> length f = told r + 2 \<and> (\<exists>g. f = STX # g @ [ETX, cs (g @ [ETX])])"
proof (cases "8 \<le> length f")
  case True
  then show ?thesis using second_byte [OF assms] extended_front [OF assms] unfolding valid_frame_def by auto
next
  case False
  then show ?thesis using read_as_header [of s r] extended_long [OF assms] by auto
qed

lemma judged_extended:
  assumes c: "m_frames c = fs @ [[]]" "m_currentFrame c = length fs" "m_transmitionType c \<noteq> Regular" and r: "length r < 2 ^ 31"
  shows "judged cs fs (m_transmitionType c) (STX # EXT_LEN # r) p out lt
    (recv_walk cs eight R_stx (c, p\<lparr>m_device := (STX # EXT_LEN # r, out, lt)\<rparr>))"
proof (cases "6 \<le> length r \<and> header_length (read_as (m_transmitionType c) r) \<le> told r")
  case True
  let ?s = "m_transmitionType c"
  have type: "frame_type ?s (STX # EXT_LEN # r) = read_as ?s r" using True by (intro extended_front(2) [of _ _ "[]"]) simp_all
  have "finishes cs fs (frame_type ?s (STX # EXT_LEN # r)) [EXT_LEN] (told r - 2) r p out lt
      (recv_walk cs eight R_stx (c, p\<lparr>m_device := (STX # EXT_LEN # r, out, lt)\<rparr>))"
    unfolding type by (rule walk_extended [OF c]) (use True in \<open>simp_all add: told_def read_as_def\<close>)
  then show ?thesis
  proof (rule accepted_of_finishes [rotated])
    show "2 \<le> told r" using True read_as_header [of ?s r] by linarith
    show "valid_frame cs ?s f \<longleftrightarrow> length f = told r + 2 \<and> (\<exists>g. f = STX # g @ [ETX, cs (g @ [ETX])])"
      if "STX # EXT_LEN # r = f @ r'" for f r' using extended_valid [OF that] True by blast
    show "frame_type ?s f = frame_type ?s (STX # EXT_LEN # r)" if "STX # EXT_LEN # r = f @ r'" "length f = told r + 2" for f r'
      unfolding type by (rule extended_front(2) [OF that(1)]) (use that(2) True read_as_header [of ?s r] in linarith)
  qed
next
  case False
  have "\<not> (STX # EXT_LEN # r = f @ r' \<and> valid_frame cs (m_transmitionType c) f)" for f r'
  proof
    assume f: "STX # EXT_LEN # r = f @ r' \<and> valid_frame cs (m_transmitionType c) f"
    then have "8 \<le> length r" using extended_long by blast
    moreover have "header_length (read_as (m_transmitionType c) r) \<le> told r" using f extended_valid by blast
    ultimately show False using False by simp
  qed
  then have "\<forall>f r'. \<not> (STX # EXT_LEN # r = f @ r' \<and> valid_frame cs (m_transmitionType c) f)" by blast
  moreover have "refused (recv_walk cs eight R_stx (c, p\<lparr>m_device := (STX # EXT_LEN # r, out, lt)\<rparr>))"
    using False walk_extended_short [OF c, of r] walk_extended_small [OF c _ r told_def read_as_def] by (meson not_le)
  ultimately show ?thesis by (rule judged_refused)
qed



section \<open>The frames of a message are well formed\<close>

lemma long_frame_valid:
  assumes h: "length h = 3" and n: "n = length P + 8" "12 \<le> n" "n < 2 ^ 24"
  shows "valid_frame cs t (long_frame cs h n P)"
    and "frame_type t (long_frame cs h n P) =
      (if 1032 < n \<or> t = ExtendedLengthWithFrameDivision then ExtendedLengthWithFrameDivision else ExtendedLength)"
proof -
  let ?L = "length_bytes (word_of_nat n)"
  let ?f = "long_frame cs h n P"
  have f: "?f = STX # (EXT_LEN # h @ ?L @ P) @ [ETX, cs ((EXT_LEN # h @ ?L @ P) @ [ETX])]"
    by (simp add: long_frame_def seal_def)
  have "?f ! 1 = EXT_LEN" "?f ! 5 = ?L ! 0" "?f ! 6 = ?L ! 1" "?f ! 7 = ?L ! 2"
    unfolding f using h by (simp_all add: nth_append)
  moreover have "length ?f = n + 2" unfolding f using h n(1) by simp
  moreover have "unat (word_of_nat n :: u32) = n" using n(3) by (intro unat_word_of_nat_u32) simp
  ultimately have a: "announced ?f = n" "?f ! 1 = EXT_LEN" "length ?f = n + 2"
    using decode_word_of_nat [OF n(3)] by (simp_all add: announced_def)
  then show "frame_type t ?f =
      (if 1032 < n \<or> t = ExtendedLengthWithFrameDivision then ExtendedLengthWithFrameDivision else ExtendedLength)"
    by (simp add: frame_type_def)
  moreover have "\<exists>g. ?f = STX # g @ [ETX, cs (g @ [ETX])]" using f by blast
  ultimately show "valid_frame cs t ?f" using a n(2) by (simp add: valid_frame_def header_length_def)
qed

lemma regular_frame_valid:
  assumes "3 \<le> length d" "length d \<le> 251"
  shows "valid_frame cs t (regular_frame cs d)" and "frame_type t (regular_frame cs d) = Regular"
proof -
  define l where "l = (word_of_nat (length d + 2) :: byte)"
  have l: "unat l = length d + 2" unfolding l_def by (rule unat_word_of_nat_byte) (use assms in simp)
  then have e: "l \<noteq> EXT_LEN" using assms by (auto simp: EXT_LEN_def)
  have f: "regular_frame cs d = STX # (l # d) @ [ETX, cs ((l # d) @ [ETX])]"
    by (simp add: regular_frame_def seal_def l_def)
  then show t: "frame_type t (regular_frame cs d) = Regular" using e by (simp add: frame_type_def)
  have "\<exists>g. regular_frame cs d = STX # g @ [ETX, cs (g @ [ETX])]" using f by blast
  moreover have "regular_frame cs d ! 1 = l" "length (regular_frame cs d) = length d + 4" by (simp_all add: f)
  ultimately show "valid_frame cs t (regular_frame cs d)"
    using t l e assms by (simp add: valid_frame_def header_length_def announced_def)
qed

text \<open>
  C9: Every frame that \<^verbatim>\<open>prepareFrames\<close> builds is well formed for the receiver at the
  point where it arrives, and its kind depends on the length of the message alone.
\<close>

theorem prepared_frames_well_formed:
  assumes "3 \<le> length data" "length data < 2 ^ 32 - 3" "j < length (prepareFrames cs data)"
  shows "valid_frame cs (if j = 0 then NotDefinedYet else ExtendedLengthWithFrameDivision) (prepareFrames cs data ! j) \<and>
    frame_type (if j = 0 then NotDefinedYet else ExtendedLengthWithFrameDivision) (prepareFrames cs data ! j) =
      (if length data \<le> 251 then Regular else if length data \<le> 1027 then ExtendedLength
       else ExtendedLengthWithFrameDivision)"
proof -
  obtain a s cb P where d: "data = a # s # cb # P"
    using assms(1) by (metis Suc_le_length_iff numeral_3_eq_3)
  consider "length data \<le> 251" | "251 < length data" "length data \<le> 1030" | "1030 < length data" by linarith
  then show ?thesis
  proof cases
    case 1
    then show ?thesis using regular_frame_valid [OF assms(1)] assms(3) by (simp add: prepareFrames_def)
  next
    case 2
    then have "prepareFrames cs data = [long_frame cs [a, s, cb] (length P + 8) P]"
      by (simp add: prepareFrames_def extended_frame_def long_frame_def d Let_def add.commute)
    then show ?thesis
      using long_frame_valid [of "[a, s, cb]" "length P + 8" P] assms(3) 2 d by auto
  next
    case 3
    let ?n = "(length P + 1023) div 1024"
    have P: "1024 < length P" "length P < 2 ^ 32 - 3" using 3 assms(2) d by auto
    have pf: "prepareFrames cs data = map (nth_division_frame cs ?n a s cb P) [0..<?n]"
      using 3 divided_frames_eq [OF d P] by (simp add: prepareFrames_def)
    then have j: "j < ?n" using assms(3) by simp
    let ?chunk = "take 1024 (drop (1024 * j) P)"
    let ?nb = "number_bytes (word_of_nat j) @ number_bytes (word_of_nat ?n)"
    let ?cb = "if Suc j = ?n then cb OR 0x03 else cb OR 0x02"
    let ?m = "min 1024 (length P - 1024 * j) + 12"
    have "prepareFrames cs data ! j = nth_division_frame cs ?n a s cb P j" using j by (simp add: pf)
    then have f: "prepareFrames cs data ! j = long_frame cs [a, s, ?cb] ?m (?nb @ ?chunk)"
      unfolding nth_division_frame_def by (simp only: division_as_long [OF refl])
    have m: "?m = length (?nb @ ?chunk) + 8" "12 \<le> ?m" "?m < 2 ^ 24" by auto
    have first: "j = 0 \<Longrightarrow> 1032 < ?m" using P by simp
    have h: "length [a, s, ?cb] = 3" by simp
    show ?thesis unfolding f
      using long_frame_valid [OF h m] first 3 by auto
  qed
qed

lemma prepared_frames_well_formed_witness:
  "let data = [1, 2, 3] @ replicate 2000 0 in 1 < length (prepareFrames (\<lambda>_. 7) data) \<and>
    valid_frame (\<lambda>_. 7) ExtendedLengthWithFrameDivision (prepareFrames (\<lambda>_. 7) data ! 1) \<and>
    frame_type ExtendedLengthWithFrameDivision (prepareFrames (\<lambda>_. 7) data ! 1) = ExtendedLengthWithFrameDivision"
proof -
  define data :: "byte list" where "data = [1, 2, 3] @ replicate 2000 0"
  have "prepareFrames (\<lambda>_. 7) data =
      map (nth_division_frame (\<lambda>_. 7) ((length (replicate 2000 (0 :: byte)) + 1023) div 1024) 1 2 3 (replicate 2000 0))
        [0..<(length (replicate 2000 (0 :: byte)) + 1023) div 1024]"
    using divided_frames_eq [of data 1 2 3 "replicate 2000 0" "\<lambda>_. 7"] by (simp add: prepareFrames_def data_def)
  then have l: "1 < length (prepareFrames (\<lambda>_. 7) data)" by simp
  then show ?thesis
    using prepared_frames_well_formed [of data 1 "\<lambda>_. 7"] unfolding Let_def data_def by simp
qed
end
