(* ===== verification/Resend.thy ===== *)
theory Resend
  imports Link
begin

text \<open>
  What lateness does on a line that loses nothing: the sender gives up waiting for an
  acknowledgement that is on its way and sends its frame again.
\<close>

section \<open>Runs\<close>

fun run_link :: "(byte list \<Rightarrow> byte) \<Rightarrow> party list \<Rightarrow> link \<Rightarrow> link outcome" where
  "run_link cs [] x = Ret x"
| "run_link cs (t # ts) x = obind (turn_of cs t x) (run_link cs ts)"

lemma run_link_append: "run_link cs (ts @ ts') x = obind (run_link cs ts x) (run_link cs ts')"
proof (induction ts arbitrary: x)
  case (Cons t ts)
  then show ?case by (cases "turn_of cs t x") simp_all
qed simp

lemma run_linkI: "run_link cs ts x = Ret y \<Longrightarrow> run_link cs ts' y = Ret z \<Longrightarrow> run_link cs (ts @ ts') x = Ret z"
  by (simp add: run_link_append)

text \<open>The turns in which a receiver takes a frame in.\<close>

lemma run_pass:
  assumes "recv_pass cs m q (r_ctx x, (r_prot x)\<lparr>m_device := (to_receiver x, [], False)\<rparr>) = Some (q', (c, p))"
    and "r_at x = Some q" "to_sender x = []" "recv_rank False (Some q) = Suc m" "m \<le> 8" "0 < m"
  shows "run_link cs (replicate m Receiving) x =
    Ret (x\<lparr>r_at := Some q', r_ctx := c, r_prot := p, to_receiver := fst (m_device p), late := False\<rparr>)"
  using assms
proof (induction m arbitrary: x q)
  case (Suc m)
  obtain c' p' where h: "recv_handlers cs wire_end q (r_ctx x, (r_prot x)\<lparr>m_device := (to_receiver x, [], False)\<rparr>) =
      Ret (Pass, (c', p'))" "snd (m_device p') = ([], False)" "recv_pass cs m (recv_next q Pass) (c', p') = Some (q', (c, p))"
    using Suc.prems(1) by (auto split: outcome.splits prod.splits if_splits)
  obtain i where i: "m_device p' = (i, [], False)" using h(2) by (cases "m_device p'") auto
  have q: "q \<noteq> R_end" using Suc.prems(4,5) by auto
  let ?y = "x\<lparr>r_at := Some (recv_next q Pass), r_ctx := c', r_prot := p', to_receiver := i, late := False\<rparr>"
  have turn: "r_turn cs x = Ret ?y" using Suc.prems(2,3) h i q by (simp add: turn_simps)
  show ?case
  proof (cases m)
    case 0
    then show ?thesis using turn h(3) i by simp
  next
    case (Suc n)
    have "recv_rank False (Some (recv_next q Pass)) = Suc m"
      using Suc.prems(4,5) Suc by (cases q; simp)
    then have "run_link cs (replicate m Receiving) ?y =
      Ret (?y\<lparr>r_at := Some q', r_ctx := c, r_prot := p, to_receiver := fst (m_device p), late := False\<rparr>)"
      using Suc.IH [of "recv_next q Pass" ?y] h(3) i Suc.prems(3,5) Suc by simp
    then show ?thesis using turn by simp
  qed
qed simp

section \<open>A late acknowledgement\<close>

text \<open>
  Two frames; the first one has been taken in when the sender has just stopped waiting for its
  acknowledgement.
\<close>

definition late_link :: "byte list list \<Rightarrow> nat \<Rightarrow> u32 \<Rightarrow> line_end \<Rightarrow> byte list \<Rightarrow> RecvState \<Rightarrow> RecvContext \<Rightarrow> line_end \<Rightarrow> link" where
  "late_link fs k r2 sd rx q c rd =
     \<lparr>s_at = Some S_ack2, s_ctx = \<lparr>m_currentFrame = k, m_frames = fs, m_result = False\<rparr>,
      s_prot = \<lparr>m_device = sd, m_accessLock = Some Sending, m_r1 = 0, m_r2 = r2\<rparr>,
      r_at = Some q, r_ctx = c, r_prot = \<lparr>m_device = rd, m_accessLock = Some Receiving, m_r1 = 0, m_r2 = 0\<rparr>,
      to_receiver = rx, to_sender = [], late = False\<rparr>"

lemmas late_simps = turn_simps late_link_def sendEnquiry_def sendReenquiry_def sendAcknowledgement_def
  sendAcknowledgement2_def sendFrame_def sendRetry_def sendDone_def sendEnd_def hasFramesToSend_def onFrameCompleted_def
  currentFrame_def drain_unfold recvEnquiry_def recvAcknowledgement_def recvAcknowledgement2_def recvEnd_def Let_def
  kMaxNumberOfSendAttempts_def kSendAttemptsForPortReinit_def kTimeout3_def

text \<open>Up to the first frame on the line; up to the same frame once more; up to the second frame; up to the end.\<close>

lemma late_begin:
  assumes "prepareFrames cs data = [f, g]"
  shows "run_link cs [Sending, Sending, Sending, Receiving, Receiving, Receiving, Receiving, Sending, Sending] (link_start cs data) =
    Ret (late_link [f, g] 0 0 ([], f, False) f R_stx RecvContext ([], [ACK], False))"
  using assms
  by (simp add: late_simps link_start_def SendContext_def fresh_def sendIdle_def recvIdle_def recvPoll_def)

lemma late_again:
  assumes "\<And>p :: line_end Protocol. recvDone (c, p) = Ret (Wait, (c', p))"
  shows "run_link cs [Sending, Sending, Sending, Receiving, Receiving, Sending, Receiving, Receiving, Sending, Sending] (late_link [f, g] 0 0 sd [] R_ack2 c rd) =
    Ret (late_link [f, g] 0 1 ([], f, False) f R_stx c' ([], [ACK], False))"
  using assms by (simp add: late_simps)

lemma late_second:
  assumes "\<And>p :: line_end Protocol. recvDone (c, p) = Ret (Wait, (c', p))"
  shows "run_link cs [Receiving, Sending, Sending, Receiving, Sending, Receiving, Receiving, Sending, Sending] (late_link [f, g] 0 1 sd [] R_ack2 c rd) =
    Ret (late_link [f, g] 1 1 ([], g, False) g R_stx c' ([], [ACK], False))"
  using assms by (simp add: late_simps)

lemma late_end:
  assumes "\<And>p :: line_end Protocol. recvDone (c, p) = Ret (Pass, (c', p))"
  shows "\<exists>x. run_link cs [Receiving, Receiving, Receiving, Sending, Sending, Sending] (late_link [f, g] 1 1 sd [] R_ack2 c rd) = Ret x \<and>
    link_sent x = Some True \<and> r_at x = None \<and> r_ctx x = c'"
  using assms by (simp add: late_simps link_sent_def)

lemma late_taken:
  assumes "\<And>p. recv_pass cs 8 R_stx (c, p\<lparr>m_device := (rx, [], False)\<rparr>) = Some (R_ack2, (c', p\<lparr>m_device := ([], [], False)\<rparr>))"
  shows "run_link cs (replicate 8 Receiving) (late_link fs k r2 sd rx R_stx c rd) =
    Ret (late_link fs k r2 sd [] R_ack2 c' ([], [], False))"
proof -
  let ?x = "late_link fs k r2 sd rx R_stx c rd"
  have "recv_pass cs 8 R_stx (r_ctx ?x, (r_prot ?x)\<lparr>m_device := (to_receiver ?x, [], False)\<rparr>) =
      Some (R_ack2, (c', (r_prot ?x)\<lparr>m_device := ([], [], False)\<rparr>))"
    using assms [of "r_prot ?x"] by (simp add: late_link_def)
  from run_pass [OF this] show ?thesis by (simp add: late_link_def)
qed

text \<open>
  C33: the line loses nothing and no handler fails, but the sender once stops waiting for an
  acknowledgement before it comes. It sends the frame again, as it should, and \<^verbatim>\<open>send\<close> returns
  true; the receiver has taken the frame in twice, and \<^verbatim>\<open>receive\<close> returns a message in which the
  second part is a copy of the first.
\<close>

theorem late_acknowledgement:
  assumes "data = a # s # cb # P" "1027 < length P" "length P \<le> 2048"
  shows "\<exists>ts x. run_link cs ts (link_start cs data) = Ret x \<and> link_sent x = Some True \<and>
    link_received x = Some (Ret (Some (a # s # (cb OR 0x02) # take 1024 P @ take 1024 P)))"
proof -
  have n: "2 = (length P + 1023) div 1024" using assms(2,3) by (intro div_nat_eqI [symmetric]) auto
  let ?F = "nth_division_frame cs 2 a s cb P"
  let ?A = "arrived ?F 2 (length P)" and ?R = "awaiting ?F 2 (length P)"
  have pf: "prepareFrames cs data = [?F 0, ?F 1]"
    using divided_frames_eq [OF assms(1), of cs] assms n [symmetric] by (simp add: prepareFrames_def upt_rec)
  have R0: "?R [] = RecvContext" by (simp add: awaiting_def)
  have pass: "recv_pass cs 8 R_stx (?R js, p\<lparr>m_device := (?F j, [], False)\<rparr>) =
      Some (R_ack2, (?A (js @ [j]), p\<lparr>m_device := ([], [], False)\<rparr>))" if "j < 2" "js = [] \<Longrightarrow> Suc j < 2" for js j p
    by (rule arrive [OF n]) (use that in simp_all)
  have p0: "recv_pass cs 8 R_stx (RecvContext, p\<lparr>m_device := (?F 0, [], False)\<rparr>) = Some (R_ack2, (?A [0], p\<lparr>m_device := ([], [], False)\<rparr>))"
    and p1: "recv_pass cs 8 R_stx (?R [0], p\<lparr>m_device := (?F 0, [], False)\<rparr>) = Some (R_ack2, (?A [0, 0], p\<lparr>m_device := ([], [], False)\<rparr>))"
    and p2: "recv_pass cs 8 R_stx (?R [0, 0], p\<lparr>m_device := (?F 1, [], False)\<rparr>) = Some (R_ack2, (?A [0, 0, 1], p\<lparr>m_device := ([], [], False)\<rparr>))"
    for p using pass [of 0 "[]" p] pass [of 0 "[0]" p] pass [of 1 "[0, 0]" p] by (simp_all add: R0)
  have d0: "recvDone (?A [0], p) = Ret (Wait, (?R [0], p))" and d1: "recvDone (?A [0, 0], p) = Ret (Wait, (?R [0, 0], p))"
    and d2: "recvDone (?A [0, 0, 1], p) = Ret (Pass, ((?A [0, 0, 1])\<lparr>m_result := True\<rparr>, p))" for p :: "line_end Protocol"
    by (simp_all add: arrived_done)
  obtain x where x: "run_link cs [Receiving, Receiving, Receiving, Sending, Sending, Sending]
      (late_link [?F 0, ?F 1] 1 1 ([], ?F 1, False) [] R_ack2 (?A [0, 0, 1]) ([], [], False)) = Ret x"
      "link_sent x = Some True" "r_at x = None" "r_ctx x = (?A [0, 0, 1])\<lparr>m_result := True\<rparr>"
    using late_end [OF d2] by blast
  have "\<exists>ts. run_link cs ts (link_start cs data) = Ret x"
    using run_linkI [OF late_begin [OF pf] run_linkI [OF late_taken [OF p0] run_linkI [OF late_again [OF d0]
      run_linkI [OF late_taken [OF p1] run_linkI [OF late_second [OF d1] run_linkI [OF late_taken [OF p2] x(1)]]]]]]
    by blast
  moreover have "link_received x = Some (Ret (Some (a # s # (cb OR 0x02) # take 1024 P @ take 1024 P)))"
    using long_arrivals [of 2 "[0, 0, 1]" cs a s cb P 2] x(3,4)
    by (simp add: link_received_def numeral_2_eq_2 arrived_def)
  ultimately show ?thesis using x(2) by blast
qed

lemma late_acknowledgement_witness:
  "\<exists>ts x. run_link no_checksum ts (link_start no_checksum (1 # 2 # 4 # replicate 1024 7 @ replicate 1024 8)) = Ret x \<and>
    link_sent x = Some True \<and>
    link_received x = Some (Ret (Some (1 # 2 # 6 # replicate 1024 7 @ replicate 1024 7)))"
  using late_acknowledgement [OF refl, of "replicate 1024 7 @ replicate 1024 8" no_checksum 1 2 4] by simp
end
