(* ===== verification/Repeater.thy ===== *)
theory Repeater
  imports Emulator
begin

text \<open>
  The repeater (\<^verbatim>\<open>Internal/src/Repeater.cpp\<close>): an object whose thread calls a function at an
  interval until it is stopped. The thread and the caller of \<^verbatim>\<open>stop\<close> run side by side, so the
  steps of the two are a relation: the thread tests the flag, calls, and sleeps; \<^verbatim>\<open>stop\<close> sets the
  flag and then waits for the thread to end. The world is what the function acts on.
\<close>

section \<open>The object and its two threads\<close>

text \<open>
  Where the thread stands; a thread that has been joined is no longer joinable. A repeater has no
  thread before it is started.
\<close>

datatype thread_pc = Testing | Calling | Sleeping | Ended | Joined

record 'w Repeater =
  m_callable :: "'w \<Rightarrow> 'w"
  m_interval :: nat
  m_stopFlag :: bool
  m_thread :: "thread_pc option"

definition Repeater_new :: "('w \<Rightarrow> 'w) \<Rightarrow> nat \<Rightarrow> 'w Repeater" where
  "Repeater_new callable interval =
     \<lparr>m_callable = callable, m_interval = interval, m_stopFlag = False, m_thread = None\<rparr>"

definition joinable :: "'w Repeater \<Rightarrow> bool" where
  "joinable r \<longleftrightarrow> m_thread r \<noteq> None \<and> m_thread r \<noteq> Some Joined"

text \<open>Replacing a thread that is still joinable ends the program.\<close>

definition Repeater_start :: "'w Repeater \<Rightarrow> 'w Repeater outcome" where
  "Repeater_start r = (if joinable r then Throw Terminated else Ret (r\<lparr>m_thread := Some Testing\<rparr>))"

text \<open>One step of \<^verbatim>\<open>threadFunction\<close>.\<close>

definition threadFunction_step :: "'w Repeater \<Rightarrow> 'w \<Rightarrow> ('w Repeater \<times> 'w) option" where
  "threadFunction_step r w =
     (case m_thread r of
        Some Testing \<Rightarrow> Some (r\<lparr>m_thread := Some (if m_stopFlag r = False then Calling else Ended)\<rparr>, w)
      | Some Calling \<Rightarrow> Some (r\<lparr>m_thread := Some Sleeping\<rparr>, m_callable r w)
      | Some Sleeping \<Rightarrow> Some (r\<lparr>m_thread := Some Testing\<rparr>, w)
      | _ \<Rightarrow> None)"

text \<open>
  The two steps of \<^verbatim>\<open>stop\<close>: the flag is set; then the call returns, at once when there is nothing
  to join and otherwise when the thread has ended.
\<close>

definition stop_request :: "'w Repeater \<Rightarrow> 'w Repeater" where
  "stop_request r = r\<lparr>m_stopFlag := True\<rparr>"

definition stop_join :: "'w Repeater \<Rightarrow> 'w Repeater option" where
  "stop_join r =
     (if \<not> joinable r then Some r
      else if m_thread r = Some Ended then Some (r\<lparr>m_thread := Some Joined\<rparr>)
      else None)"

section \<open>Runs\<close>

datatype stop_pc = Not_stopping | Joining | Returned

record 'w repeating =
  rr_object :: "'w Repeater"
  rr_world :: 'w
  rr_stop :: stop_pc
  rr_calls :: nat

inductive repeater_step :: "'w repeating \<Rightarrow> 'w repeating \<Rightarrow> bool" where
  thread: "threadFunction_step (rr_object s) (rr_world s) = Some (r, w) \<Longrightarrow>
    repeater_step s (s\<lparr>rr_object := r, rr_world := w,
      rr_calls := rr_calls s + (if m_thread (rr_object s) = Some Calling then 1 else 0)\<rparr>)"
| request: "rr_stop s \<noteq> Joining \<Longrightarrow>
    repeater_step s (s\<lparr>rr_object := stop_request (rr_object s), rr_stop := Joining\<rparr>)"
| join: "rr_stop s = Joining \<Longrightarrow> stop_join (rr_object s) = Some r \<Longrightarrow>
    repeater_step s (s\<lparr>rr_object := r, rr_stop := Returned\<rparr>)"

inductive_cases repeater_stepE: "repeater_step s t"

text \<open>A repeater that was made and started.\<close>

definition started :: "('w \<Rightarrow> 'w) \<Rightarrow> nat \<Rightarrow> 'w \<Rightarrow> 'w repeating" where
  "started f interval w =
     \<lparr>rr_object = (Repeater_new f interval)\<lparr>m_thread := Some Testing\<rparr>, rr_world = w,
      rr_stop = Not_stopping, rr_calls = 0\<rparr>"

lemma started_start: "Repeater_start (Repeater_new f interval) = Ret (rr_object (started f interval w))"
  by (simp add: Repeater_start_def joinable_def Repeater_new_def started_def)

section \<open>The invariant\<close>

text \<open>
  The function that is called never changes, the world is what the calls made of it, a stop that
  waits has set the flag, and one that returned has left no thread.
\<close>

definition repeater_inv :: "('w \<Rightarrow> 'w) \<Rightarrow> 'w \<Rightarrow> 'w repeating \<Rightarrow> bool" where
  "repeater_inv f w0 s \<longleftrightarrow>
     m_callable (rr_object s) = f \<and> rr_world s = (f ^^ rr_calls s) w0 \<and> m_thread (rr_object s) \<noteq> None \<and>
     (rr_stop s \<noteq> Not_stopping \<longrightarrow> m_stopFlag (rr_object s)) \<and>
     (rr_stop s = Returned \<longrightarrow> m_thread (rr_object s) = Some Joined)"

lemma threadFunction_step_cases:
  assumes "threadFunction_step r w = Some (r', w')"
  obtains "m_thread r = Some Testing" "r' = r\<lparr>m_thread := Some (if m_stopFlag r then Ended else Calling)\<rparr>" "w' = w"
  | "m_thread r = Some Calling" "r' = r\<lparr>m_thread := Some Sleeping\<rparr>" "w' = m_callable r w"
  | "m_thread r = Some Sleeping" "r' = r\<lparr>m_thread := Some Testing\<rparr>" "w' = w"
  using assms by (auto simp: threadFunction_step_def split: option.splits thread_pc.splits)

lemma stop_join_cases:
  assumes "stop_join r = Some r'" and "m_thread r \<noteq> None"
  shows "m_thread r \<in> {Some Ended, Some Joined} \<and> r' = r\<lparr>m_thread := Some Joined\<rparr>"
  using assms by (auto simp: stop_join_def joinable_def split: if_splits)

lemma repeater_step_inv: "repeater_step s t \<Longrightarrow> repeater_inv f w0 s \<Longrightarrow> repeater_inv f w0 t"
proof (induction rule: repeater_step.induct)
  case (thread s r w)
  show ?case using thread by (elim threadFunction_step_cases) (auto simp: repeater_inv_def)
next
  case (request s)
  then show ?case by (auto simp: repeater_inv_def stop_request_def)
next
  case (join s r)
  then show ?case using stop_join_cases [OF join(2)] by (auto simp: repeater_inv_def)
qed

lemma started_inv: "repeater_inv f w (started f interval w)"
  by (simp add: repeater_inv_def started_def Repeater_new_def)

lemma repeater_reachable_inv:
  "repeater_step\<^sup>*\<^sup>* s t \<Longrightarrow> repeater_inv f w0 s \<Longrightarrow> repeater_inv f w0 t"
  by (induction rule: rtranclp_induct) (auto dest: repeater_step_inv)

section \<open>After the stop\<close>

text \<open>How far the thread is from its end, once the flag is set.\<close>

fun distance :: "thread_pc option \<Rightarrow> nat" where
  "distance (Some Calling) = 3"
| "distance (Some Sleeping) = 2"
| "distance (Some Testing) = 1"
| "distance _ = 0"

definition waiting :: "'w repeating \<Rightarrow> nat" where
  "waiting s = distance (m_thread (rr_object s)) + (if rr_stop s = Joining then 1 else 0)"

lemma stopping_step:
  assumes "repeater_step s t" and "repeater_inv f w0 s" and "rr_stop s = Joining"
  shows "waiting t < waiting s \<and> rr_calls t - rr_calls s \<le> (if m_thread (rr_object s) = Some Calling then 1 else 0) \<and>
    rr_calls s \<le> rr_calls t \<and> rr_stop t \<noteq> Not_stopping \<and> m_thread (rr_object t) \<noteq> Some Calling"
  using assms
proof (induction rule: repeater_step.induct)
  case (thread s r w)
  have "m_stopFlag (rr_object s)" using thread(2,3) by (simp add: repeater_inv_def)
  with thread show ?case
    by (elim threadFunction_step_cases) (simp_all add: waiting_def)
next
  case (join s r)
  then have "m_thread (rr_object s) \<noteq> None" by (simp add: repeater_inv_def)
  with stop_join_cases [OF join(2)] join show ?case by (auto simp: waiting_def)
qed simp

text \<open>The wait cannot be stuck: as long as \<^verbatim>\<open>stop\<close> has not returned one of the two can go on.\<close>

lemma stopping_progress:
  assumes "repeater_inv f w0 s" and "rr_stop s = Joining"
  shows "\<exists>t. repeater_step s t"
proof -
  obtain pc where pc: "m_thread (rr_object s) = Some pc" using assms(1) by (auto simp: repeater_inv_def)
  show ?thesis
  proof (cases "pc \<in> {Ended, Joined}")
    case True
    then obtain r where "stop_join (rr_object s) = Some r"
      using pc by (auto simp: stop_join_def joinable_def)
    then show ?thesis using assms(2) by (intro exI) (rule repeater_step.join)
  next
    case False
    then obtain r w where "threadFunction_step (rr_object s) (rr_world s) = Some (r, w)"
      using pc by (cases pc) (auto simp: threadFunction_step_def)
    then show ?thesis by (intro exI) (rule repeater_step.thread)
  qed
qed

lemma stopping_path:
  assumes "((\<lambda>x y. rr_stop x = Joining \<and> repeater_step x y) ^^ n) s t" and "repeater_inv f w0 s" and "rr_stop s = Joining"
  shows "waiting t + n \<le> waiting s \<and> rr_calls s \<le> rr_calls t \<and> rr_calls t \<le> rr_calls s + 1 \<and>
    (m_thread (rr_object s) \<noteq> Some Calling \<longrightarrow> rr_calls t = rr_calls s) \<and> repeater_inv f w0 t"
  using assms
proof (induction n arbitrary: s)
  case (Suc n)
  from Suc.prems(1) obtain u where u: "repeater_step s u"
    "((\<lambda>x y. rr_stop x = Joining \<and> repeater_step x y) ^^ n) u t"
    by (elim relpowp_Suc_E2) auto
  note step = stopping_step [OF u(1) Suc.prems(2,3)]
  note inv = repeater_step_inv [OF u(1) Suc.prems(2)]
  show ?case
  proof (cases "rr_stop u = Joining")
    case True
    show ?thesis using Suc.IH [OF u(2) inv True] step by (auto split: if_splits)
  next
    case False
    have "n = 0 \<and> t = u" using u(2) False
      by (cases n) (auto elim: relpowp_Suc_E2 simp del: relpowp.simps(2) simp: relpowp.simps(1))
    then show ?thesis using step inv by (auto split: if_splits)
  qed
qed simp

lemma joined_stays:
  assumes "repeater_step\<^sup>*\<^sup>* s t" and "m_thread (rr_object s) = Some Joined"
  shows "m_thread (rr_object t) = Some Joined \<and> rr_world t = rr_world s"
  using assms
proof (induction rule: rtranclp_induct)
  case (step u t)
  from step.hyps(2) step.IH [OF step.prems] show ?case
    by (elim repeater_stepE)
       (auto simp: threadFunction_step_def stop_request_def stop_join_def joinable_def)
qed simp

text \<open>A run: the repeater fires once, is stopped while its thread sleeps, and ends.\<close>

definition sample_state :: "('w \<Rightarrow> 'w) \<Rightarrow> 'w \<Rightarrow> thread_pc \<Rightarrow> stop_pc \<Rightarrow> 'w repeating" where
  "sample_state f w pc stop =
     \<lparr>rr_object = \<lparr>m_callable = f, m_interval = 50, m_stopFlag = (stop \<noteq> Not_stopping), m_thread = Some pc\<rparr>,
      rr_world = f w, rr_stop = stop, rr_calls = 1\<rparr>"

lemma sample_request: "repeater_step (sample_state f w pc Not_stopping) (sample_state f w pc Joining)"
  using repeater_step.request [of "sample_state f w pc Not_stopping"]
  by (simp add: sample_state_def stop_request_def)

lemma sample_thread:
  "repeater_step (sample_state f w Sleeping stop) (sample_state f w Testing stop)"
  "stop \<noteq> Not_stopping \<Longrightarrow> repeater_step (sample_state f w Testing stop) (sample_state f w Ended stop)"
  using repeater_step.thread [of "sample_state f w Sleeping stop"]
    repeater_step.thread [of "sample_state f w Testing stop"]
  by (simp_all add: sample_state_def threadFunction_step_def)

lemma sample_join: "repeater_step (sample_state f w Ended Joining) (sample_state f w Joined Returned)"
  using repeater_step.join [of "sample_state f w Ended Joining"]
  by (simp add: sample_state_def stop_join_def joinable_def)

lemma sample_reached: "repeater_step\<^sup>*\<^sup>* (started f 50 w) (sample_state f w Sleeping Joining)"
proof -
  let ?s1 = "(started f 50 w)\<lparr>rr_object := (rr_object (started f 50 w))\<lparr>m_thread := Some Calling\<rparr>\<rparr>"
  have a: "repeater_step (started f 50 w) ?s1"
    using repeater_step.thread [of "started f 50 w"]
    by (simp add: started_def threadFunction_step_def Repeater_new_def)
  have b: "repeater_step ?s1 (sample_state f w Sleeping Not_stopping)"
    using repeater_step.thread [of ?s1]
    by (simp add: started_def sample_state_def threadFunction_step_def Repeater_new_def)
  show ?thesis
    by (rule converse_rtranclp_into_rtranclp [where r = repeater_step, OF a converse_rtranclp_into_rtranclp [where r = repeater_step, OF b
          r_into_rtranclp [where r = repeater_step, OF sample_request]]])
qed

lemma sample_ended: "repeater_step\<^sup>*\<^sup>* (sample_state f w Sleeping Joining) (sample_state f w Joined Returned)"
  by (rule converse_rtranclp_into_rtranclp [where r = repeater_step, OF sample_thread(1) converse_rtranclp_into_rtranclp [where r = repeater_step, OF
        sample_thread(2) r_into_rtranclp [where r = repeater_step, OF sample_join]]]) simp

section \<open>Properties\<close>

text \<open>
  Until it is stopped the world of a repeater is what a number of calls of its function made of
  it, and once \<open>stop\<close> has returned the function is never called again.
\<close>

lemma repeater_stop_silences:
  assumes "repeater_step\<^sup>*\<^sup>* (started f interval w) s" and "rr_stop s = Returned" and "repeater_step\<^sup>*\<^sup>* s t"
  shows "rr_world s = (f ^^ rr_calls s) w \<and> rr_world t = rr_world s"
proof -
  have "repeater_inv f w s" by (rule repeater_reachable_inv [OF assms(1) started_inv])
  then show ?thesis using joined_stays [OF assms(3)] assms(2) by (simp add: repeater_inv_def)
qed

text \<open>
  C38: a \<open>stop\<close> that waits is never stuck and returns after at most four steps of the two threads,
  whatever their order, in which the function is called at most once more.
\<close>

theorem repeater_stop_returns:
  assumes "repeater_step\<^sup>*\<^sup>* (started f interval w) s" and "rr_stop s = Joining"
    and "((\<lambda>x y. rr_stop x = Joining \<and> repeater_step x y) ^^ n) s t"
  shows "n \<le> 4 \<and> rr_calls t \<le> rr_calls s + 1 \<and> (rr_stop t = Joining \<longrightarrow> (\<exists>u. repeater_step t u))"
proof -
  have inv: "repeater_inv f w s" by (rule repeater_reachable_inv [OF assms(1) started_inv])
  have "waiting s \<le> 4" using assms(2) by (cases "m_thread (rr_object s)" rule: distance.cases) (auto simp: waiting_def)
  moreover have "rr_stop t = Joining \<Longrightarrow> \<exists>u. repeater_step t u"
    using stopping_path [OF assms(3) inv assms(2)] by (intro stopping_progress) auto
  ultimately show ?thesis using stopping_path [OF assms(3) inv assms(2)] by auto
qed

lemma repeater_stop_returns_witness:
  "\<exists>s t. repeater_step\<^sup>*\<^sup>* (started Suc 50 0) s \<and> rr_stop s = Joining \<and>
    ((\<lambda>x y. rr_stop x = Joining \<and> repeater_step x y) ^^ 3) s t \<and> rr_stop t = Returned \<and> rr_calls t \<le> rr_calls s + 1"
proof -
  let ?s = "sample_state Suc 0 Sleeping Joining"
  let ?t = "sample_state Suc 0 Joined Returned"
  let ?R = "\<lambda>x y. rr_stop x = Joining \<and> repeater_step x y"
  have j: "rr_stop (sample_state Suc 0 pc Joining) = Joining" for pc by (simp add: sample_state_def)
  have r: "repeater_step\<^sup>*\<^sup>* (started Suc 50 0) ?s" by (rule sample_reached)
  have "(?R ^^ 1) ?s (sample_state Suc 0 Testing Joining)" using sample_thread(1) [where f = Suc and w = 0 and stop = Joining] j by auto
  then have "(?R ^^ Suc 1) ?s (sample_state Suc 0 Ended Joining)"
    by (rule relpowp_Suc_I) (use sample_thread(2) [where f = Suc and w = 0 and stop = Joining] j in auto)
  then have "(?R ^^ Suc (Suc 1)) ?s ?t" by (rule relpowp_Suc_I) (use sample_join [of Suc 0] j in auto)
  then have p: "(?R ^^ 3) ?s ?t" by (simp only: numeral_3_eq_3 One_nat_def)
  have "rr_calls ?t \<le> rr_calls ?s + 1" using repeater_stop_returns [OF r j p] by blast
  moreover have "rr_stop ?t = Returned" by (simp add: sample_state_def)
  ultimately show ?thesis using r j p by blast
qed

end
