(* ===== verification/GlobalReference.thy ===== *)
theory GlobalReference
  imports CpuPrelude
begin

text \<open>
  \<^verbatim>\<open>GlobalReference<T>\<close> (\<^verbatim>\<open>CpuComService/jni/GlobalReference.h\<close>): objects that share a Java
  global reference and count their shares. The objects of a program are a map from its variables,
  the counters are cells on a heap; a counter that was deleted is no longer there, so using it is
  undefined. The calls of the deleter are recorded.
\<close>

section \<open>Objects and heap\<close>

text \<open>
  A global reference is a number, as is the address of a counter. \<open>m_deleter\<close> tells the deleter
  that was given from the one that does nothing, \<open>m_vm\<close> whether the pointer is set.
\<close>

record GlobalReference =
  m_vm :: bool
  m_deleter :: bool
  m_value :: nat
  m_counter :: "nat option"

record 'v ref_heap =
  objects :: "'v \<rightharpoonup> GlobalReference"
  counters :: "nat \<rightharpoonup> u32"
  next_ref :: nat
  deleted :: "nat list"

definition empty_heap :: "'v ref_heap" where
  "empty_heap = \<lparr>objects = Map.empty, counters = Map.empty, next_ref = 1, deleted = []\<rparr>"

definition AddReference :: "nat \<Rightarrow> 'v ref_heap \<Rightarrow> 'v ref_heap outcome" where
  "AddReference c h =
     (case counters h c of
        None \<Rightarrow> Throw Undefined_behaviour
      | Some n \<Rightarrow> Ret (h\<lparr>counters := (counters h)(c \<mapsto> n + 1)\<rparr>))"

text \<open>
  \<^verbatim>\<open>if (m_counter && m_counter->ReleaseReference() == 0)\<close> with its two statements, as it stands in
  the assignments and in the destructor.
\<close>

definition release :: "GlobalReference \<Rightarrow> 'v ref_heap \<Rightarrow> 'v ref_heap outcome" where
  "release r h =
     (case m_counter r of
        None \<Rightarrow> Ret h
      | Some c \<Rightarrow>
          (case counters h c of
             None \<Rightarrow> Throw Undefined_behaviour
           | Some n \<Rightarrow>
               if n - 1 = 0
               then Ret (h\<lparr>deleted := deleted h @ (if m_deleter r then [m_value r] else []),
                          counters := (counters h)(c := None)\<rparr>)
               else Ret (h\<lparr>counters := (counters h)(c \<mapsto> n - 1)\<rparr>)))"

definition share :: "GlobalReference \<Rightarrow> 'v ref_heap \<Rightarrow> 'v ref_heap outcome" where
  "share r h = (case m_counter r of None \<Rightarrow> Ret h | Some c \<Rightarrow> AddReference c h)"

definition set_object :: "'v \<Rightarrow> GlobalReference \<Rightarrow> 'v ref_heap \<Rightarrow> 'v ref_heap" where
  "set_object v r h = h\<lparr>objects := (objects h)(v \<mapsto> r)\<rparr>"

definition moved_from :: "GlobalReference \<Rightarrow> GlobalReference" where
  "moved_from r = r\<lparr>m_vm := False, m_deleter := False, m_counter := None\<rparr>"

section \<open>Operations\<close>

datatype 'v ref_op =
    Default 'v
  | Construct 'v
  | Copy_construct 'v 'v
  | Move_construct 'v 'v
  | Copy_assign 'v 'v
  | Move_assign 'v 'v
  | Destroy 'v

definition ref_default :: "'v \<Rightarrow> 'v ref_heap \<Rightarrow> 'v ref_heap outcome" where
  "ref_default v h = Ret (set_object v \<lparr>m_vm = False, m_deleter = False, m_value = 0, m_counter = None\<rparr> h)"

text \<open>\<^verbatim>\<open>NewGlobalRef\<close> gives a new reference, and \<^verbatim>\<open>new\<close> a new counter.\<close>

definition ref_construct :: "'v \<Rightarrow> 'v ref_heap \<Rightarrow> 'v ref_heap outcome" where
  "ref_construct v h =
     (let c = next_ref h;
          h = h\<lparr>next_ref := c + 1, counters := (counters h)(c \<mapsto> 0)\<rparr>
      in omap (set_object v \<lparr>m_vm = True, m_deleter = True, m_value = c, m_counter = Some c\<rparr>) (AddReference c h))"

definition ref_copy_construct :: "'v \<Rightarrow> GlobalReference \<Rightarrow> 'v ref_heap \<Rightarrow> 'v ref_heap outcome" where
  "ref_copy_construct v other h = share other (set_object v other h)"

definition ref_move_construct :: "'v \<Rightarrow> 'v \<Rightarrow> GlobalReference \<Rightarrow> 'v ref_heap \<Rightarrow> 'v ref_heap outcome" where
  "ref_move_construct v w other h = Ret (set_object w (moved_from other) (set_object v other h))"

definition ref_copy_assign ::
    "'v \<Rightarrow> GlobalReference \<Rightarrow> 'v \<Rightarrow> GlobalReference \<Rightarrow> 'v ref_heap \<Rightarrow> 'v ref_heap outcome" where
  "ref_copy_assign v this w other h =
     (if v \<noteq> w then obind (release this h) (\<lambda>h. share other (set_object v other h)) else Ret h)"

definition ref_move_assign ::
    "'v \<Rightarrow> GlobalReference \<Rightarrow> 'v \<Rightarrow> GlobalReference \<Rightarrow> 'v ref_heap \<Rightarrow> 'v ref_heap outcome" where
  "ref_move_assign v this w other h =
     omap (\<lambda>h. set_object w (moved_from other) (set_object v other h)) (release this h)"

definition ref_destroy :: "'v \<Rightarrow> GlobalReference \<Rightarrow> 'v ref_heap \<Rightarrow> 'v ref_heap outcome" where
  "ref_destroy v this h = omap (\<lambda>h. h\<lparr>objects := (objects h)(v := None)\<rparr>) (release this h)"

text \<open>
  One operation of a program. A constructor makes an object that is not there yet, and the others
  are called on objects that are; what is not of this form is not an operation of a program, and
  leaves the state as it is.
\<close>

fun ref_step :: "'v ref_op \<Rightarrow> 'v ref_heap \<Rightarrow> 'v ref_heap outcome" where
  "ref_step (Default v) h = (case objects h v of None \<Rightarrow> ref_default v h | _ \<Rightarrow> Ret h)"
| "ref_step (Construct v) h = (case objects h v of None \<Rightarrow> ref_construct v h | _ \<Rightarrow> Ret h)"
| "ref_step (Copy_construct v w) h =
     (case (objects h v, objects h w) of (None, Some other) \<Rightarrow> ref_copy_construct v other h | _ \<Rightarrow> Ret h)"
| "ref_step (Move_construct v w) h =
     (case (objects h v, objects h w) of (None, Some other) \<Rightarrow> ref_move_construct v w other h | _ \<Rightarrow> Ret h)"
| "ref_step (Copy_assign v w) h =
     (case (objects h v, objects h w) of (Some this, Some other) \<Rightarrow> ref_copy_assign v this w other h | _ \<Rightarrow> Ret h)"
| "ref_step (Move_assign v w) h =
     (case (objects h v, objects h w) of (Some this, Some other) \<Rightarrow> ref_move_assign v this w other h | _ \<Rightarrow> Ret h)"
| "ref_step (Destroy v) h = (case objects h v of Some this \<Rightarrow> ref_destroy v this h | _ \<Rightarrow> Ret h)"

fun ref_run :: "'v ref_op list \<Rightarrow> 'v ref_heap \<Rightarrow> 'v ref_heap outcome" where
  "ref_run [] h = Ret h"
| "ref_run (op # ops) h = obind (ref_step op h) (ref_run ops)"

section \<open>The invariant\<close>

definition holders :: "nat \<Rightarrow> ('v \<rightharpoonup> GlobalReference) \<Rightarrow> 'v set" where
  "holders c objs = {v. \<exists>r. objs v = Some r \<and> m_counter r = Some c}"

text \<open>
  Every object that counts has the reference that belongs to its counter, every counter there is
  counts its objects, which are not none, and what has been deleted are the references whose counter is gone, each
  once.
\<close>

definition ref_ok :: "GlobalReference \<Rightarrow> bool" where
  "ref_ok r \<longleftrightarrow> (\<forall>c. m_counter r = Some c \<longrightarrow> m_vm r \<and> m_deleter r \<and> m_value r = c)"

definition counter_at :: "u32 option \<Rightarrow> 'v set \<Rightarrow> nat \<Rightarrow> bool \<Rightarrow> bool" where
  "counter_at counter holding deletions made \<longleftrightarrow>
     (case counter of
        None \<Rightarrow> holding = {} \<and> deletions = (if made then 1 else 0)
      | Some n \<Rightarrow> made \<and> holding \<noteq> {} \<and> unat n = card holding \<and> deletions = 0)"

definition counter_ok :: "'v ref_heap \<Rightarrow> nat \<Rightarrow> bool" where
  "counter_ok h c \<longleftrightarrow>
     counter_at (counters h c) (holders c (objects h)) (count_list (deleted h) c) (0 < c \<and> c < next_ref h)"

definition heap_inv :: "'v ref_heap \<Rightarrow> bool" where
  "heap_inv h \<longleftrightarrow>
     finite (dom (objects h)) \<and> 0 < next_ref h \<and> (\<forall>r\<in>ran (objects h). ref_ok r) \<and> (\<forall>c. counter_ok h c)"

lemma counter_at_simps [simp]:
  "counter_at None H k a \<longleftrightarrow> H = {} \<and> k = (if a then 1 else 0)"
  "counter_at (Some n) H k a \<longleftrightarrow> a \<and> H \<noteq> {} \<and> unat n = card H \<and> k = 0"
  by (simp_all add: counter_at_def)

lemma holders_subset: "holders c objs \<subseteq> dom objs"
  by (auto simp: holders_def)

lemma heap_inv_finite: "heap_inv h \<Longrightarrow> finite (holders c (objects h))"
  using holders_subset [of c "objects h"] by (auto simp: heap_inv_def intro: finite_subset)

lemma holders_drop:
  assumes "r = None \<or> (\<exists>r'. r = Some r' \<and> m_counter r' = None)"
  shows "holders c (objs(v := r)) = holders c objs - {v}"
  using assms by (auto simp: holders_def)

lemma holders_add: "m_counter r = Some d \<Longrightarrow>
  holders c (objs(v \<mapsto> r)) = (if c = d then insert v (holders c objs) else holders c objs - {v})"
  by (auto simp: holders_def)

lemma heap_inv_counter:
  assumes "heap_inv h" and "v \<in> holders c (objects h)"
  shows "\<exists>n. counters h c = Some n \<and> unat n = card (holders c (objects h)) \<and> 0 < c \<and> c < next_ref h \<and>
    count_list (deleted h) c = 0"
proof -
  have "counter_ok h c" using assms(1) by (simp add: heap_inv_def)
  then show ?thesis using assms(2) by (cases "counters h c") (auto simp: counter_ok_def)
qed

definition unshared :: "GlobalReference option \<Rightarrow> bool" where
  "unshared r \<longleftrightarrow> (case r of None \<Rightarrow> True | Some r \<Rightarrow> m_counter r = None)"

lemma unshared_holders: "unshared X \<Longrightarrow> holders c (objs(v := X)) = holders c objs - {v}"
  by (auto simp: unshared_def holders_def split: option.splits)

lemma unshared_ran: "unshared X \<Longrightarrow> \<forall>r\<in>ran objs. ref_ok r \<Longrightarrow> \<forall>r\<in>ran (objs(v := X)). ref_ok r"
  by (auto simp: unshared_def ran_def ref_ok_def split: option.splits if_splits)

lemma counter_ok_objects:
  "holders c objs = holders c (objects h) \<Longrightarrow> counter_ok (h\<lparr>objects := objs\<rparr>) c = counter_ok h c"
  by (simp add: counter_ok_def)

lemma heap_invI:
  "heap_inv h \<Longrightarrow> dom objs \<subseteq> insert v (insert w (dom (objects h))) \<Longrightarrow> \<forall>r\<in>ran objs. ref_ok r \<Longrightarrow>
   objects h' = objs \<Longrightarrow> next_ref h' = next_ref h \<Longrightarrow> (\<And>c. counter_ok h' c) \<Longrightarrow> heap_inv h'"
  by (auto simp: heap_inv_def intro: finite_subset)

lemma drop_uncounted:
  assumes "heap_inv h" and "objects h v = Some r" and "m_counter r = None" and "unshared X"
  shows "heap_inv (h\<lparr>objects := (objects h)(v := X)\<rparr>)"
proof -
  have "holders c ((objects h)(v := X)) = holders c (objects h)" for c
    using assms(2-4) by (auto simp: unshared_def holders_def split: option.splits)
  then have "counter_ok (h\<lparr>objects := (objects h)(v := X)\<rparr>) c = counter_ok h c" for c
    by (rule counter_ok_objects)
  then show ?thesis using assms(1)
    by (intro heap_invI [OF assms(1), of _ v v]) (auto simp: heap_inv_def intro!: unshared_ran [OF assms(4)])
qed

lemma drop_inv:
  assumes "heap_inv h" and "objects h v = Some r" and "unshared X"
  shows "\<exists>h'. release r h = Ret h' \<and> objects h' = objects h \<and> next_ref h' = next_ref h \<and>
    heap_inv (h'\<lparr>objects := (objects h)(v := X)\<rparr>)"
proof (cases "m_counter r")
  case None
  then show ?thesis using drop_uncounted [OF assms(1,2) _ assms(3)] by (simp add: release_def)
next
  case (Some c)
  let ?o = "(objects h)(v := X)"
  have v: "v \<in> holders c (objects h)" using assms(2) Some by (simp add: holders_def)
  obtain n where n: "counters h c = Some n" "unat n = card (holders c (objects h))" "0 < c" "c < next_ref h"
    "count_list (deleted h) c = 0"
    using heap_inv_counter [OF assms(1) v] by blast
  have fin: "finite (holders c (objects h))" by (rule heap_inv_finite [OF assms(1)])
  have r: "m_deleter r" "m_value r = c" using assms(1,2) Some by (auto simp: heap_inv_def ref_ok_def ran_def)
  have "0 < unat n" using v fin n(2) by (auto simp: card_gt_0_iff)
  then have pos: "n \<noteq> 0" by auto
  have n1: "unat (n - 1) = card (holders c ?o)"
    using v fin n(2) unat_minus_one [OF pos] by (simp add: unshared_holders [OF assms(3)])
  have other: "holders d ?o = holders d (objects h)" if "d \<noteq> c" for d
    using assms(2,3) Some that by (auto simp: unshared_def holders_def split: option.splits)
  have ok: "counter_ok h d" for d using assms(1) by (simp add: heap_inv_def)
  have fin': "finite (holders c ?o)" using fin by (simp add: unshared_holders [OF assms(3)])
  show ?thesis
  proof (cases "n - 1 = 0")
    case True
    let ?h = "h\<lparr>deleted := deleted h @ [c], counters := (counters h)(c := None)\<rparr>"
    have rel: "release r h = Ret ?h" using Some n(1) True r by (simp add: release_def)
    have e: "holders c ?o = {}" using n1 fin' True by simp
    have "counter_ok (?h\<lparr>objects := ?o\<rparr>) d" for d
      using ok [of d] n(3-5) e other [of d] by (cases "d = c") (simp_all add: counter_ok_def)
    then have "heap_inv (?h\<lparr>objects := ?o\<rparr>)" using assms(1)
      by (intro heap_invI [OF assms(1), of _ v v]) (auto simp: heap_inv_def intro!: unshared_ran [OF assms(3)])
    then show ?thesis unfolding rel by simp
  next
    case False
    let ?h = "h\<lparr>counters := (counters h)(c \<mapsto> n - 1)\<rparr>"
    have rel: "release r h = Ret ?h" using Some n(1) False by (simp add: release_def)
    have ne: "holders c ?o \<noteq> {}" using n1 False by (auto simp: word_unat_eq_iff)
    have "counter_ok (?h\<lparr>objects := ?o\<rparr>) d" for d
      using ok [of d] n(3-5) n1 ne other [of d] by (cases "d = c") (simp_all add: counter_ok_def)
    then have "heap_inv (?h\<lparr>objects := ?o\<rparr>)" using assms(1)
      by (intro heap_invI [OF assms(1), of _ v v]) (auto simp: heap_inv_def intro!: unshared_ran [OF assms(3)])
    then show ?thesis unfolding rel by simp
  qed
qed

lemma share_objects: "share r (h\<lparr>objects := objs\<rparr>) = omap (\<lambda>h. h\<lparr>objects := objs\<rparr>) (share r h)"
  by (simp add: share_def AddReference_def split: option.split)

lemma share_frame: "share r h = Ret h' \<Longrightarrow> objects h' = objects h \<and> next_ref h' = next_ref h"
  by (auto simp: share_def AddReference_def split: option.splits)

lemma ran_update: "\<forall>r\<in>ran objs. P r \<Longrightarrow> P r' \<Longrightarrow> \<forall>r\<in>ran (objs(v \<mapsto> r')). P r"
  by (auto simp: ran_def split: if_splits)

lemma acquire_inv:
  assumes "heap_inv h" and "unshared (objects h v)" and "objects h w = Some r" and "card (dom (objects h)) + 1 < 2 ^ 32"
  shows "\<exists>h'. share r h = Ret h' \<and> heap_inv (h'\<lparr>objects := (objects h)(v \<mapsto> r)\<rparr>)"
proof (cases "m_counter r")
  case None
  then have "unshared (Some r)" by (simp add: unshared_def)
  have "holders c ((objects h)(v \<mapsto> r)) = holders c (objects h)" for c
    using assms(2) None by (auto simp: unshared_def holders_def split: option.splits)
  then have "counter_ok (h\<lparr>objects := (objects h)(v \<mapsto> r)\<rparr>) c = counter_ok h c" for c
    by (rule counter_ok_objects)
  then have "heap_inv (h\<lparr>objects := (objects h)(v \<mapsto> r)\<rparr>)" using assms(1)
    by (intro heap_invI [OF assms(1), of _ v v]) (auto simp: heap_inv_def intro!: unshared_ran [OF \<open>unshared (Some r)\<close>])
  then show ?thesis using None by (simp add: share_def)
next
  case (Some c)
  let ?o = "(objects h)(v \<mapsto> r)"
  have w: "w \<in> holders c (objects h)" using assms(3) Some by (simp add: holders_def)
  obtain n where n: "counters h c = Some n" "unat n = card (holders c (objects h))" "0 < c" "c < next_ref h"
    "count_list (deleted h) c = 0"
    using heap_inv_counter [OF assms(1) w] by blast
  let ?h = "h\<lparr>counters := (counters h)(c \<mapsto> n + 1)\<rparr>"
  have sh: "share r h = Ret ?h" using Some n(1) by (simp add: share_def AddReference_def)
  have fin: "finite (holders c (objects h))" by (rule heap_inv_finite [OF assms(1)])
  have out: "v \<notin> holders d (objects h)" for d
    using assms(2) by (auto simp: unshared_def holders_def split: option.splits)
  have "card (holders c (objects h)) \<le> card (dom (objects h))"
    using assms(1) by (intro card_mono [OF _ holders_subset]) (simp add: heap_inv_def)
  then have "unat n + 1 < 2 ^ 32" using n(2) assms(4) by simp
  then have n1: "unat (n + 1) = card (holders c ?o)"
    using n(2) fin out [of c] Some by (simp add: holders_add unat_word_ariths)
  have ok: "counter_ok h d" for d using assms(1) by (simp add: heap_inv_def)
  have "counter_ok (?h\<lparr>objects := ?o\<rparr>) d" for d
    using ok [of d] n(3-5) n1 Some out [of d] by (cases "d = c") (simp_all add: counter_ok_def holders_add)
  moreover have "ref_ok r" using assms(1,3) by (auto simp: heap_inv_def ran_def)
  then have "\<forall>r\<in>ran ?o. ref_ok r" using assms(1) by (intro ran_update) (simp_all add: heap_inv_def)
  ultimately have "heap_inv (?h\<lparr>objects := ?o\<rparr>)"
    by (intro heap_invI [OF assms(1), of ?o v v]) auto
  then show ?thesis unfolding sh by simp
qed

lemma transfer_inv:
  assumes "heap_inv h" and "unshared (objects h v)" and "objects h w = Some r" and "v \<noteq> w"
  shows "heap_inv (set_object w (moved_from r) (set_object v r h))"
proof -
  let ?o = "(objects h)(v \<mapsto> r, w \<mapsto> moved_from r)"
  have ok: "counter_ok h c" for c using assms(1) by (simp add: heap_inv_def)
  have card: "card (holders c ?o) = card (holders c (objects h)) \<and> (holders c ?o = {} \<longleftrightarrow> holders c (objects h) = {})" for c
  proof (cases "m_counter r = Some c")
    case True
    have "holders c ?o = insert v (holders c (objects h) - {w})"
      using True assms(4) by (auto simp: holders_def moved_from_def)
    moreover have w: "w \<in> holders c (objects h)" and "v \<notin> holders c (objects h)"
      using True assms(2,3) by (auto simp: holders_def unshared_def split: option.splits)
    moreover have fin: "finite (holders c (objects h))" by (rule heap_inv_finite [OF assms(1)])
    ultimately have "card (holders c ?o) = Suc (card (holders c (objects h) - {w}))" and "holders c ?o \<noteq> {}"
      by auto
    moreover have "Suc (card (holders c (objects h) - {w})) = card (holders c (objects h))"
      by (rule card_Suc_Diff1 [OF fin w])
    ultimately show ?thesis using w by auto
  next
    case False
    have "holders c ?o = holders c (objects h)"
      using False assms by (auto simp: holders_def moved_from_def unshared_def split: option.splits if_splits)
    then show ?thesis by simp
  qed
  have "counter_ok (set_object w (moved_from r) (set_object v r h)) c" for c
    using ok [of c] card [of c] by (cases "counters h c") (simp_all add: counter_ok_def set_object_def)
  moreover have "ref_ok r" using assms(1,3) by (auto simp: heap_inv_def ran_def)
  then have "\<forall>r\<in>ran ?o. ref_ok r"
    using assms(1) by (intro ran_update) (auto simp: heap_inv_def ref_ok_def moved_from_def)
  ultimately show ?thesis
    by (intro heap_invI [OF assms(1), of ?o v w]) (auto simp: set_object_def)
qed

section \<open>Every operation keeps it\<close>

lemma unshared_moved: "unshared (Some (moved_from r))" and unshared_None: "unshared None"
  by (simp_all add: unshared_def moved_from_def)

lemma default_inv:
  assumes "heap_inv h" and "objects h v = None" and "m_counter r = None"
  shows "heap_inv (set_object v r h)"
proof -
  have u: "unshared (Some r)" using assms(3) by (simp add: unshared_def)
  have "holders c ((objects h)(v \<mapsto> r)) = holders c (objects h)" for c
    using assms(2,3) by (auto simp: holders_def)
  then have "counter_ok (h\<lparr>objects := (objects h)(v \<mapsto> r)\<rparr>) c = counter_ok h c" for c
    by (rule counter_ok_objects)
  then have "heap_inv (h\<lparr>objects := (objects h)(v \<mapsto> r)\<rparr>)" using assms(1)
    by (intro heap_invI [OF assms(1), of _ v v]) (auto simp: heap_inv_def intro!: unshared_ran [OF u])
  then show ?thesis by (simp add: set_object_def)
qed

lemma construct_inv:
  assumes "heap_inv h" and "objects h v = None"
  shows "\<exists>h'. ref_construct v h = Ret h' \<and> heap_inv h'"
proof -
  let ?c = "next_ref h"
  let ?r = "\<lparr>m_vm = True, m_deleter = True, m_value = ?c, m_counter = Some ?c\<rparr>"
  let ?o = "(objects h)(v \<mapsto> ?r)"
  let ?h = "h\<lparr>next_ref := ?c + 1, counters := (counters h)(?c \<mapsto> 1), objects := ?o\<rparr>"
  have run: "ref_construct v h = Ret ?h"
    by (simp add: ref_construct_def AddReference_def set_object_def Let_def)
  have ok: "counter_ok h c" for c using assms(1) by (simp add: heap_inv_def)
  have c: "counters h ?c = None" "holders ?c (objects h) = {}" "count_list (deleted h) ?c = 0"
    using ok [of ?c] by (cases "counters h ?c"; simp add: counter_ok_def)+
  have "counter_ok ?h c" for c
  proof (cases "c = ?c")
    case True
    then show ?thesis using c assms(1) by (simp add: counter_ok_def holders_add heap_inv_def)
  next
    case False
    have "holders c ?o = holders c (objects h)" using False assms(2) by (auto simp: holders_def)
    moreover have "(c < ?c + 1) = (c < ?c)" using False by auto
    ultimately show ?thesis using ok [of c] False by (simp add: counter_ok_def)
  qed
  moreover have "\<forall>r\<in>ran ?o. ref_ok r" using assms(1) by (intro ran_update) (simp_all add: heap_inv_def ref_ok_def)
  ultimately have "heap_inv ?h" using assms(1) by (auto simp: heap_inv_def)
  then show ?thesis unfolding run by simp
qed

lemma copy_construct_inv:
  assumes "heap_inv h" and "objects h v = None" and "objects h w = Some r" and "card (dom (objects h)) + 1 < 2 ^ 32"
  shows "\<exists>h'. ref_copy_construct v r h = Ret h' \<and> heap_inv h'"
  using acquire_inv [OF assms(1) _ assms(3,4), of v] assms(2)
  by (auto simp: ref_copy_construct_def set_object_def share_objects unshared_def)

lemma copy_assign_inv:
  assumes "heap_inv h" and "objects h v = Some r" and "objects h w = Some s" and "card (dom (objects h)) + 1 < 2 ^ 32"
  shows "\<exists>h'. ref_copy_assign v r w s h = Ret h' \<and> heap_inv h'"
proof (cases "v = w")
  case False
  let ?o = "(objects h)(v \<mapsto> moved_from r)"
  obtain h1 where h1: "release r h = Ret h1" "objects h1 = objects h" "heap_inv (h1\<lparr>objects := ?o\<rparr>)"
    using drop_inv [OF assms(1,2) unshared_moved] by blast
  have "dom ?o = dom (objects h)" using assms(2) by auto
  then obtain h2 where "share s (h1\<lparr>objects := ?o\<rparr>) = Ret h2" "heap_inv (h2\<lparr>objects := ?o(v \<mapsto> s)\<rparr>)"
    using acquire_inv [OF h1(3), of v w s] assms(3,4) False by (auto simp: unshared_def moved_from_def)
  then show ?thesis using False h1(1,2)
    by (auto simp: ref_copy_assign_def set_object_def share_objects omap_eq_Ret)
qed (use assms(1) in \<open>simp add: ref_copy_assign_def\<close>)

lemma move_assign_inv:
  assumes "heap_inv h" and "objects h v = Some r" and "objects h w = Some s"
  shows "\<exists>h'. ref_move_assign v r w s h = Ret h' \<and> heap_inv h'"
proof -
  obtain h1 where h1: "release r h = Ret h1" "objects h1 = objects h"
    "heap_inv (h1\<lparr>objects := (objects h)(v \<mapsto> moved_from r)\<rparr>)"
    using drop_inv [OF assms(1,2) unshared_moved] by blast
  show ?thesis
  proof (cases "v = w")
    case True
    then show ?thesis using h1 assms(2,3) by (simp add: ref_move_assign_def set_object_def)
  next
    case False
    have "heap_inv (set_object w (moved_from s) (set_object v s (h1\<lparr>objects := (objects h)(v \<mapsto> moved_from r)\<rparr>)))"
      by (rule transfer_inv [OF h1(3)]) (use assms(3) False in \<open>simp_all add: unshared_moved\<close>)
    then show ?thesis using h1 by (simp add: ref_move_assign_def set_object_def)
  qed
qed

lemma destroy_inv:
  assumes "heap_inv h" and "objects h v = Some r"
  shows "\<exists>h'. ref_destroy v r h = Ret h' \<and> heap_inv h'"
  using drop_inv [OF assms unshared_None] by (auto simp: ref_destroy_def)

lemma ref_step_inv:
  assumes "heap_inv h" and "card (dom (objects h)) + 1 < 2 ^ 32"
  shows "\<exists>h'. ref_step op h = Ret h' \<and> heap_inv h'"
  using assms
proof (cases op)
  case (Move_construct v w)
  show ?thesis
  proof (cases "objects h v = None \<and> objects h w \<noteq> None")
    case True
    then obtain s where s: "objects h v = None" "objects h w = Some s" by auto
    moreover have "v \<noteq> w" using s by auto
    ultimately show ?thesis using transfer_inv [OF assms(1), of v w s] Move_construct
      by (simp add: ref_move_construct_def unshared_None)
  qed (use assms(1) Move_construct in \<open>auto split: option.splits\<close>)
qed (use assms in \<open>auto simp: ref_default_def default_inv construct_inv copy_construct_inv copy_assign_inv
      move_assign_inv destroy_inv split: option.splits\<close>)

section \<open>Runs\<close>

lemma release_objects: "release r h = Ret h' \<Longrightarrow> objects h' = objects h"
  by (auto simp: release_def split: option.splits if_splits)

lemma ref_step_dom:
  assumes "ref_step op h = Ret h'"
  shows "\<exists>v. dom (objects h') \<subseteq> insert v (dom (objects h))"
  using assms
  by (cases op)
     (fastforce simp: ref_default_def ref_construct_def ref_copy_construct_def ref_move_construct_def
        ref_copy_assign_def ref_move_assign_def ref_destroy_def set_object_def omap_eq_Ret obind_eq_Ret
        AddReference_def Let_def dest!: release_objects share_frame split: option.splits if_splits)+

lemma ref_run_inv:
  assumes "heap_inv h" and "card (dom (objects h)) + length ops < 2 ^ 32"
  shows "\<exists>h'. ref_run ops h = Ret h' \<and> heap_inv h'"
  using assms
proof (induction ops arbitrary: h)
  case (Cons op ops)
  then obtain h1 where h1: "ref_step op h = Ret h1" "heap_inv h1" using ref_step_inv [of h op] by auto
  obtain v where sub: "dom (objects h1) \<subseteq> insert v (dom (objects h))" using ref_step_dom [OF h1(1)] by blast
  have fin: "finite (dom (objects h))" using Cons.prems(1) by (simp add: heap_inv_def)
  have "card (dom (objects h1)) \<le> card (insert v (dom (objects h)))" by (rule card_mono [OF _ sub]) (simp add: fin)
  also have "\<dots> \<le> card (dom (objects h)) + 1" using fin by (simp add: card_insert_if)
  finally show ?case using Cons.IH [OF h1(2)] Cons.prems(2) h1(1) by simp
qed simp

lemma empty_heap_inv: "heap_inv empty_heap"
  by (auto simp: heap_inv_def empty_heap_def counter_ok_def holders_def)

section \<open>Property\<close>

text \<open>
  C30: whatever a program does with its references, of up to four thousand million operations none
  uses a counter that is gone, and the deleter has been called for a Java reference once when no
  object holds it any more, and not at all while one does.
\<close>

theorem references_released_once:
  assumes "length ops < 2 ^ 32"
  shows "\<exists>h. ref_run ops empty_heap = Ret h \<and>
    (\<forall>c. 0 < c \<and> c < next_ref h \<longrightarrow>
       count_list (deleted h) c = (if \<exists>v r. objects h v = Some r \<and> m_counter r = Some c then 0 else 1)) \<and>
    (\<forall>v r c. objects h v = Some r \<longrightarrow> m_counter r = Some c \<longrightarrow> m_value r = c \<and> 0 < c \<and> c < next_ref h)"
proof -
  obtain h where h: "ref_run ops empty_heap = Ret h" "heap_inv h"
    using ref_run_inv [OF empty_heap_inv, of ops] assms by (auto simp: empty_heap_def)
  have ok: "counter_ok h c" for c using h(2) by (simp add: heap_inv_def)
  have "count_list (deleted h) c = (if \<exists>v r. objects h v = Some r \<and> m_counter r = Some c then 0 else 1)"
    if "0 < c \<and> c < next_ref h" for c
    using ok [of c] that by (cases "counters h c") (auto simp: counter_ok_def holders_def)
  moreover have "m_value r = c \<and> 0 < c \<and> c < next_ref h" if "objects h v = Some r" "m_counter r = Some c" for v r c
  proof -
    have "v \<in> holders c (objects h)" using that by (simp add: holders_def)
    moreover have "ref_ok r" using h(2) that(1) by (auto simp: heap_inv_def ran_def)
    ultimately show ?thesis using heap_inv_counter [OF h(2), of v c] that(2) by (auto simp: ref_ok_def)
  qed
  ultimately show ?thesis using h(1) by blast
qed

lemma references_released_once_witness:
  "\<exists>h. ref_run [Construct 0, Copy_construct 1 (0 :: nat), Construct 2, Copy_assign 2 1, Destroy 0, Move_assign 1 2] empty_heap = Ret h \<and>
    deleted h = [2] \<and> count_list (deleted h) 1 = 0 \<and> count_list (deleted h) 2 = 1"
proof -
  let ?ops = "[Construct 0, Copy_construct 1 (0 :: nat), Construct 2, Copy_assign 2 1, Destroy 0, Move_assign 1 2]"
  have run: "\<exists>h. ref_run ?ops empty_heap = Ret h \<and> deleted h = [2] \<and> next_ref h = 3 \<and>
      objects h = Map.empty(1 \<mapsto> \<lparr>m_vm = True, m_deleter = True, m_value = 1, m_counter = Some 1\<rparr>,
        2 \<mapsto> \<lparr>m_vm = False, m_deleter = False, m_value = 1, m_counter = None\<rparr>)"
    by (auto simp: empty_heap_def ref_construct_def ref_copy_construct_def ref_copy_assign_def ref_destroy_def
        ref_move_assign_def set_object_def release_def share_def AddReference_def Let_def moved_from_def)
  have "length ?ops < 2 ^ 32" by simp
  from references_released_once [OF this] run show ?thesis by (auto split: if_splits)
qed

end
