(* ===== verification/JniService.thy ===== *)
theory JniService
  imports ClientV2
begin

text \<open>
  The native half of the Java service (\<^verbatim>\<open>CpuComService/jni/cpu_com_service_jni.cpp\<close>): one client
  object of the library for each process that uses the service, and one object to call with errors
  for each. What is called in Java is a task for the Java thread; the tasks are recorded in order.
  A Java object is a value of \<open>'o\<close>; the counting of the references to it is the theory
  \<open>GlobalReference\<close>.
\<close>

section \<open>State\<close>

text \<open>The functions given to a client: the bound error function of a process, the function around a Java callback, and the one that does nothing.\<close>

datatype 'o service_callback = Error_of int | Command_to 'o | Do_nothing

datatype 'o java_call = Call_onCommand 'o CpuCommand "byte list" | Call_onError 'o CpuCommand int

record ('u, 'o) Service =
  gClients :: "int \<rightharpoonup> ('u, 'o service_callback) CpuCom"
  gErrorCallbacks :: "int \<rightharpoonup> 'o option"
  gJavaThread :: "'o java_call list"

definition Service_new :: "('u, 'o) Service" where
  "Service_new = \<lparr>gClients = Map.empty, gErrorCallbacks = Map.empty, gJavaThread = []\<rparr>"

section \<open>Native methods\<close>

text \<open>An absent error callback becomes an empty reference.\<close>

definition callErrorCallback :: "int \<Rightarrow> CpuCommand \<Rightarrow> int \<Rightarrow> ('u, 'o) Service \<Rightarrow> ('u, 'o) Service" where
  "callErrorCallback pid command errorCode s =
     (let obj = (case gErrorCallbacks s pid of None \<Rightarrow> None | Some r \<Rightarrow> r);
          s = s\<lparr>gErrorCallbacks := (gErrorCallbacks s)(pid \<mapsto> obj)\<rparr>
      in case obj of
           None \<Rightarrow> s
         | Some obj \<Rightarrow> s\<lparr>gJavaThread := gJavaThread s @ [Call_onError obj command errorCode]\<rparr>)"

text \<open>\<^verbatim>\<open>insert\<close> keeps the client that a process already has; it is initialized again.\<close>

definition Client_create :: "int \<Rightarrow> ('u, 'o) Service \<Rightarrow> ('u, 'o) Service" where
  "Client_create pid s =
     (let clients = map_insert pid CpuCom_new (gClients s)
      in s\<lparr>gClients := clients(pid := map_option (initialize (Some (Error_of pid)) (Some Do_nothing)) (clients pid))\<rparr>)"

text \<open>\<^verbatim>\<open>gClients[pid]\<close> of a process without a client is a null pointer, which each method calls through.\<close>

definition with_client ::
    "int \<Rightarrow> (('u, 'o service_callback) CpuCom \<Rightarrow> ('u, 'o service_callback) CpuCom) \<Rightarrow> ('u, 'o) Service \<Rightarrow>
     ('u, 'o) Service outcome" where
  "with_client pid f s =
     (case gClients s pid of
        None \<Rightarrow> Throw Undefined_behaviour
      | Some c \<Rightarrow> Ret (s\<lparr>gClients := (gClients s)(pid \<mapsto> f c)\<rparr>))"

definition Client_destroy :: "int \<Rightarrow> ('u, 'o) Service \<Rightarrow> ('u, 'o) Service outcome" where
  "Client_destroy pid s =
     omap (\<lambda>s. s\<lparr>gClients := (gClients s)(pid := None)\<rparr>) (with_client pid (\<lambda>c. c) s)"

text \<open>\<^verbatim>\<open>std::make_pair(command, subCommand)\<close> as a pair of bytes.\<close>

definition native_command :: "int \<Rightarrow> int \<Rightarrow> CpuCommand" where
  "native_command command subCommand = (word_of_int command, word_of_int subCommand)"

definition Client_send :: "int \<Rightarrow> int \<Rightarrow> int \<Rightarrow> int list option \<Rightarrow> ('u, 'o) Service \<Rightarrow> ('u, 'o) Service outcome" where
  "Client_send pid command subCommand data s =
     (let nativeData = (case data of None \<Rightarrow> [] | Some nativeBuffer \<Rightarrow> map word_of_int nativeBuffer)
      in with_client pid (client_send (native_command command subCommand) nativeData) s)"

definition Client_setErrorCallback :: "int \<Rightarrow> 'o option \<Rightarrow> ('u, 'o) Service \<Rightarrow> ('u, 'o) Service" where
  "Client_setErrorCallback pid callback s = s\<lparr>gErrorCallbacks := (gErrorCallbacks s)(pid \<mapsto> callback)\<rparr>"

definition Client_subscribe :: "int \<Rightarrow> int \<Rightarrow> int \<Rightarrow> 'o \<Rightarrow> ('u, 'o) Service \<Rightarrow> ('u, 'o) Service outcome" where
  "Client_subscribe pid command subCommand callback s =
     with_client pid (client_subscribe (native_command command subCommand) (Some (Command_to callback))) s"

definition Client_unsubscribe :: "int \<Rightarrow> int \<Rightarrow> int \<Rightarrow> ('u, 'o) Service \<Rightarrow> ('u, 'o) Service outcome" where
  "Client_unsubscribe pid command subCommand s =
     with_client pid (client_unsubscribe (native_command command subCommand)) s"

section \<open>Messages from the daemon\<close>

text \<open>A call of a client's callback, and a message to a client with the calls it leads to.\<close>

fun run_callback :: "'o service_callback client_call \<Rightarrow> ('u, 'o) Service \<Rightarrow> ('u, 'o) Service" where
  "run_callback (CommandCall (Command_to obj) command data) s =
     s\<lparr>gJavaThread := gJavaThread s @ [Call_onCommand obj command data]\<rparr>"
| "run_callback (ErrorCall (Error_of pid) command result) s = callErrorCallback pid command result s"
| "run_callback _ s = s"

definition service_receive ::
    "(error \<Rightarrow> int) \<Rightarrow> int \<Rightarrow> 'u DaemonMessage \<Rightarrow> ('u, 'o) Service \<Rightarrow> ('u, 'o) Service outcome" where
  "service_receive err pid m s =
     (case gClients s pid of
        None \<Rightarrow> Ret s
      | Some c \<Rightarrow>
          (let c' = client_receive err m (c\<lparr>m_calls := []\<rparr>)
           in Ret (fold run_callback (m_calls c') (s\<lparr>gClients := (gClients s)(pid \<mapsto> c'\<lparr>m_calls := []\<rparr>)\<rparr>))))"

datatype ('u, 'o) service_event =
    Create int
  | Destroy int
  | Java_send int int int "int list option"
  | Java_setErrorCallback int "'o option"
  | Java_subscribe int int int 'o
  | Java_unsubscribe int int int
  | Receive int "'u DaemonMessage"

fun service_step :: "(error \<Rightarrow> int) \<Rightarrow> ('u, 'o) service_event \<Rightarrow> ('u, 'o) Service \<Rightarrow> ('u, 'o) Service outcome" where
  "service_step err (Create pid) s = Ret (Client_create pid s)"
| "service_step err (Destroy pid) s = Client_destroy pid s"
| "service_step err (Java_send pid command subCommand data) s = Client_send pid command subCommand data s"
| "service_step err (Java_setErrorCallback pid callback) s = Ret (Client_setErrorCallback pid callback s)"
| "service_step err (Java_subscribe pid command subCommand callback) s =
     Client_subscribe pid command subCommand callback s"
| "service_step err (Java_unsubscribe pid command subCommand) s = Client_unsubscribe pid command subCommand s"
| "service_step err (Receive pid m) s = service_receive err pid m s"

fun service_run :: "(error \<Rightarrow> int) \<Rightarrow> ('u, 'o) service_event list \<Rightarrow> ('u, 'o) Service \<Rightarrow> ('u, 'o) Service outcome" where
  "service_run err [] s = Ret s"
| "service_run err (e # es) s = obind (service_step err e s) (service_run err es)"

section \<open>What the processes asked for\<close>

text \<open>
  The callbacks the processes have subscribed, and the error objects they have set: a second
  subscription for a command does not replace the first, the end of a client ends its subscriptions
  and leaves its error object.
\<close>

fun wanted_after :: "('u, 'o) service_event \<Rightarrow> (int \<times> CpuCommand \<rightharpoonup> 'o) \<Rightarrow> (int \<times> CpuCommand \<rightharpoonup> 'o)" where
  "wanted_after (Java_subscribe pid a b callback) w =
     map_insert (pid, native_command a b) callback w"
| "wanted_after (Java_unsubscribe pid a b) w = w((pid, native_command a b) := None)"
| "wanted_after (Destroy pid) w = (\<lambda>(p, c). if p = pid then None else w (p, c))"
| "wanted_after _ w = w"

fun errors_after :: "('u, 'o) service_event \<Rightarrow> (int \<rightharpoonup> 'o) \<Rightarrow> (int \<rightharpoonup> 'o)" where
  "errors_after (Java_setErrorCallback pid callback) w = w(pid := callback)"
| "errors_after _ w = w"

section \<open>The invariant\<close>

text \<open>The condition on one client.\<close>

definition client_ok :: "int \<Rightarrow> (CpuCommand \<rightharpoonup> 'o) \<Rightarrow> ('u, 'o service_callback) CpuCom \<Rightarrow> bool" where
  "client_ok pid w cl \<longleftrightarrow>
     m_callbacks cl = map_option (\<lambda>obj. Some (Command_to obj)) \<circ> w \<and>
     CpuCom.m_errorCallback cl = Some (Error_of pid) \<and> CpuCom.m_onConnectionClosed cl = Some Do_nothing \<and>
     CpuCom.m_deliveryStatusCallbacks cl = Map.empty"

lemma client_receive_ok:
  assumes "client_ok pid w cl"
  shows "client_ok pid w (client_receive err m (cl\<lparr>m_calls := cs\<rparr>)\<lparr>m_calls := cs'\<rparr>)"
  using assms
  by (cases m) (auto simp: client_ok_def onNotification_def onRequestResponse_def onSendCommandResult_def
      onDeliveryStatus_def Let_def call_def split: option.split)

lemma map_option_upd:
  "map_option f \<circ> (w(c := None)) = (map_option f \<circ> w)(c := None)"
  "map_option f \<circ> (w(c \<mapsto> x)) = (map_option f \<circ> w)(c \<mapsto> f x)"
  by (auto simp: fun_eq_iff)

lemma client_subscribe_ok:
  "client_ok pid w cl \<Longrightarrow> client_ok pid (map_insert c obj w) (client_subscribe c (Some (Command_to obj)) cl)"
  by (auto simp: client_ok_def client_subscribe_def map_insert_def post_def map_option_upd)

lemma client_unsubscribe_ok: "client_ok pid w cl \<Longrightarrow> client_ok pid (w(c := None)) (client_unsubscribe c cl)"
  by (auto simp: client_ok_def client_unsubscribe_def post_def map_option_upd)

lemma client_send_ok: "client_ok pid w cl \<Longrightarrow> client_ok pid w (client_send c data cl)"
  by (simp add: client_ok_def client_send_def post_def)

lemma client_new_ok: "client_ok pid Map.empty (initialize (Some (Error_of pid)) (Some Do_nothing) CpuCom_new)"
  by (auto simp: client_ok_def initialize_def CpuCom_new_def fun_eq_iff)

lemma client_initialize_ok: "client_ok pid w cl \<Longrightarrow> client_ok pid w (initialize (Some (Error_of pid)) (Some Do_nothing) cl)"
  by (simp add: client_ok_def initialize_def)

definition slot_ok :: "int \<Rightarrow> (CpuCommand \<rightharpoonup> 'o) \<Rightarrow> ('u, 'o service_callback) CpuCom option \<Rightarrow> bool" where
  "slot_ok pid w slot \<longleftrightarrow> (case slot of None \<Rightarrow> w = Map.empty | Some cl \<Rightarrow> client_ok pid w cl)"

definition service_inv :: "(int \<times> CpuCommand \<rightharpoonup> 'o) \<Rightarrow> (int \<rightharpoonup> 'o) \<Rightarrow> ('u, 'o) Service \<Rightarrow> bool" where
  "service_inv w e s \<longleftrightarrow>
     (\<forall>pid. slot_ok pid (\<lambda>c. w (pid, c)) (gClients s pid)) \<and>
     (\<forall>pid. (case gErrorCallbacks s pid of None \<Rightarrow> None | Some r \<Rightarrow> r) = e pid)"

lemma service_inv_client: "service_inv w e s \<Longrightarrow> gClients s pid = Some cl \<Longrightarrow> client_ok pid (\<lambda>c. w (pid, c)) cl"
  unfolding service_inv_def slot_ok_def by (metis option.simps(5))

lemma service_inv_upd:
  assumes "service_inv w e s" and "slot_ok pid (\<lambda>c. w' (pid, c)) x" and "\<And>p. p \<noteq> pid \<Longrightarrow> (\<lambda>c. w' (p, c)) = (\<lambda>c. w (p, c))"
  shows "service_inv w' e (s\<lparr>gClients := (gClients s)(pid := x)\<rparr>)"
proof -
  have "slot_ok p (\<lambda>c. w' (p, c)) (((gClients s)(pid := x)) p)" for p
  proof (cases "p = pid")
    case False
    have "slot_ok p (\<lambda>c. w (p, c)) (gClients s p)" using assms(1) by (simp add: service_inv_def)
    then show ?thesis using False unfolding assms(3) [OF False] by simp
  qed (simp add: assms(2))
  then show ?thesis using assms(1) by (simp add: service_inv_def)
qed

lemma service_inv_set:
  assumes "service_inv w e s" and "client_ok pid (\<lambda>c. w' (pid, c)) cl" and "\<And>p. p \<noteq> pid \<Longrightarrow> (\<lambda>c. w' (p, c)) = (\<lambda>c. w (p, c))"
  shows "service_inv w' e (s\<lparr>gClients := (gClients s)(pid \<mapsto> cl)\<rparr>)"
  by (rule service_inv_upd [OF assms(1) _ assms(3)]) (simp add: slot_ok_def assms(2))

lemma callErrorCallback_inv: "service_inv w e s \<Longrightarrow> service_inv w e (callErrorCallback pid c r s)"
  by (auto simp: service_inv_def callErrorCallback_def Let_def split: option.split)

lemma run_callback_inv: "service_inv w e s \<Longrightarrow> service_inv w e (run_callback k s)"
  by (cases "(k, s)" rule: run_callback.cases) (simp_all add: callErrorCallback_inv, simp_all add: service_inv_def)

lemma fold_run_callback_inv: "service_inv w e s \<Longrightarrow> service_inv w e (fold run_callback ks s)"
  by (induction ks arbitrary: s) (simp_all add: run_callback_inv)

text \<open>A call on the client of a process, the making of one, and a message to one.\<close>

lemma with_client_inv:
  assumes "with_client pid f s = Ret s'" and "service_inv w e s"
    and "\<And>cl. client_ok pid (\<lambda>c. w (pid, c)) cl \<Longrightarrow> client_ok pid (\<lambda>c. w' (pid, c)) (f cl)"
    and "\<And>p. p \<noteq> pid \<Longrightarrow> (\<lambda>c. w' (p, c)) = (\<lambda>c. w (p, c))"
  shows "service_inv w' e s'"
proof -
  obtain cl where cl: "gClients s pid = Some cl" and s': "s' = s\<lparr>gClients := (gClients s)(pid \<mapsto> f cl)\<rparr>"
    using assms(1) by (auto simp: with_client_def split: option.splits)
  show ?thesis unfolding s' by (rule service_inv_set [OF assms(2) assms(3) [OF service_inv_client [OF assms(2) cl]] assms(4)])
qed

lemma Client_create_inv:
  assumes "service_inv w e s"
  shows "service_inv w e (Client_create pid s)"
proof (cases "gClients s pid")
  case None
  have "(\<lambda>c. w (pid, c)) = Map.empty" using assms None by (auto simp: service_inv_def slot_ok_def dest: spec [of _ pid])
  then have "client_ok pid (\<lambda>c. w (pid, c)) (initialize (Some (Error_of pid)) (Some Do_nothing) CpuCom_new)"
    using client_new_ok by simp
  from service_inv_set [OF assms this] show ?thesis using None by (simp add: Client_create_def map_insert_def)
next
  case (Some cl)
  from service_inv_set [OF assms client_initialize_ok [OF service_inv_client [OF assms Some]]]
  show ?thesis using Some by (simp add: Client_create_def map_insert_def)
qed

lemma service_receive_inv:
  assumes "service_receive err pid m s = Ret s'" and "service_inv w e s"
  shows "service_inv w e s'"
proof (cases "gClients s pid")
  case None
  then show ?thesis using assms by (simp add: service_receive_def)
next
  case (Some cl)
  have "client_ok pid (\<lambda>c. w (pid, c)) ((client_receive err m (cl\<lparr>m_calls := []\<rparr>))\<lparr>m_calls := []\<rparr>)"
    by (rule client_receive_ok [OF service_inv_client [OF assms(2) Some]])
  from service_inv_set [OF assms(2) this] show ?thesis
    using assms(1) Some by (auto simp: service_receive_def Let_def intro: fold_run_callback_inv)
qed

lemma map_insert_process:
  "(\<lambda>c. map_insert (pid, command) obj w (pid, c)) = map_insert command obj (\<lambda>c. w (pid, c))"
  "p \<noteq> pid \<Longrightarrow> (\<lambda>c. map_insert (pid, command) obj w (p, c)) = (\<lambda>c. w (p, c))"
  by (auto simp: map_insert_def fun_eq_iff)

lemma map_remove_process:
  "(\<lambda>c. (w((pid, command) := None)) (pid, c)) = (\<lambda>c. w (pid, c))(command := None)"
  by (auto simp: fun_eq_iff)

lemma service_step_inv:
  assumes "service_step err ev s = Ret s'" and "service_inv w e s"
  shows "service_inv (wanted_after ev w) (errors_after ev e) s'"
proof (cases ev)
  case (Create pid)
  then show ?thesis using assms Client_create_inv by auto
next
  case (Destroy pid)
  then have "s' = s\<lparr>gClients := (gClients s)(pid := None)\<rparr>"
    using assms(1) by (auto simp: Client_destroy_def with_client_def omap_eq_Ret split: option.splits)
  then show ?thesis using Destroy by (auto intro!: service_inv_upd [OF assms(2)] simp: slot_ok_def)
next
  case (Java_send pid a b data)
  then show ?thesis using assms(1)
    by (auto simp: Client_send_def Let_def intro: with_client_inv [OF _ assms(2) client_send_ok])
next
  case (Java_setErrorCallback pid callback)
  then show ?thesis using assms by (auto simp: Client_setErrorCallback_def service_inv_def)
next
  case (Java_subscribe pid a b callback)
  then have c: "with_client pid (client_subscribe (native_command a b) (Some (Command_to callback))) s = Ret s'"
    using assms(1) by (simp add: Client_subscribe_def)
  show ?thesis unfolding Java_subscribe wanted_after.simps errors_after.simps
    by (rule with_client_inv [OF c assms(2)]) (simp only: map_insert_process client_subscribe_ok, simp add: map_insert_process)
next
  case (Java_unsubscribe pid a b)
  then have c: "with_client pid (client_unsubscribe (native_command a b)) s = Ret s'"
    using assms(1) by (simp add: Client_unsubscribe_def)
  show ?thesis unfolding Java_unsubscribe wanted_after.simps errors_after.simps
    by (rule with_client_inv [OF c assms(2)]) (simp only: map_remove_process client_unsubscribe_ok, simp)
next
  case (Receive pid m)
  then show ?thesis using service_receive_inv [OF _ assms(2)] assms(1) by simp
qed

lemma service_run_inv:
  "service_run err es s = Ret s' \<Longrightarrow> service_inv w e s \<Longrightarrow> service_inv (fold wanted_after es w) (fold errors_after es e) s'"
  by (induction es arbitrary: s w e) (auto simp: obind_eq_Ret dest: service_step_inv)

lemma service_new_inv: "service_inv Map.empty Map.empty Service_new"
  by (simp add: service_inv_def Service_new_def slot_ok_def)

section \<open>Properties\<close>

text \<open>
  C28: a command notified to the client of a process is handed to one Java object, the one with which
  that process subscribed for it first since it last unsubscribed or was destroyed, and to none when
  there is no such subscription, whatever the other processes do.
\<close>

theorem service_delivers:
  assumes "service_run err es Service_new = Ret s" and "gClients s pid \<noteq> None"
  shows "\<exists>s'. service_receive err pid (Notification command data) s = Ret s' \<and>
    gJavaThread s' = gJavaThread s @ (case fold wanted_after es Map.empty (pid, command) of
      None \<Rightarrow> [] | Some obj \<Rightarrow> [Call_onCommand obj command data])"
proof -
  obtain cl where cl: "gClients s pid = Some cl" using assms(2) by auto
  have "client_ok pid (\<lambda>c. fold wanted_after es Map.empty (pid, c)) cl"
    by (rule service_inv_client [OF service_run_inv [OF assms(1) service_new_inv] cl])
  then show ?thesis using cl
    by (cases "fold wanted_after es Map.empty (pid, command)")
       (simp_all add: service_receive_def client_ok_def onNotification_def call_def Let_def)
qed

lemma service_delivers_witness:
  "\<exists>s s'. service_run (\<lambda>_. 5) [Create 7, Java_subscribe 7 1 2 ''a'', Java_subscribe 7 1 2 ''b''] (Service_new :: (nat, string) Service) = Ret s \<and>
    service_receive (\<lambda>_. 5) 7 (Notification (1, 2) [9]) s = Ret s' \<and> gJavaThread s' = [Call_onCommand ''a'' (1, 2) [9]]"
proof -
  let ?es = "[Create 7, Java_subscribe 7 1 2 ''a'', Java_subscribe 7 1 2 ''b''] :: (nat, string) service_event list"
  obtain s where s: "service_run (\<lambda>_. 5) ?es Service_new = Ret s" "gClients s 7 \<noteq> None" "gJavaThread s = []"
    by (simp add: Client_create_def Client_subscribe_def with_client_def Service_new_def map_insert_def Let_def)
  then show ?thesis using service_delivers [OF s(1,2), of "(1, 2)" "[9]"]
    by (simp add: native_command_def map_insert_def)
qed

text \<open>
  A failed send of a process is reported to one Java object, the one it last set for errors, and
  to none when it set none; the object is kept when the client of the process is destroyed, so a
  later client of the same process number reports to it too.
\<close>

lemma service_reports_errors:
  assumes "service_run err es Service_new = Ret s" and "gClients s pid \<noteq> None"
  shows "\<exists>s'. service_receive err pid (SendCommandResult command ERR_BUSY) s = Ret s' \<and>
    gJavaThread s' = gJavaThread s @ (case fold errors_after es Map.empty pid of
      None \<Rightarrow> [] | Some obj \<Rightarrow> [Call_onError obj command (err ERR_BUSY)])"
proof -
  obtain cl where cl: "gClients s pid = Some cl" using assms(2) by auto
  have inv: "service_inv (fold wanted_after es Map.empty) (fold errors_after es Map.empty) s"
    by (rule service_run_inv [OF assms(1) service_new_inv])
  have "CpuCom.m_errorCallback cl = Some (Error_of pid)"
    using service_inv_client [OF inv cl] by (simp add: client_ok_def)
  moreover have "(case gErrorCallbacks s pid of None \<Rightarrow> None | Some r \<Rightarrow> r) = fold errors_after es Map.empty pid"
    using inv by (simp add: service_inv_def)
  ultimately show ?thesis using cl
    by (cases "fold errors_after es Map.empty pid")
       (simp_all add: service_receive_def onSendCommandResult_def call_def callErrorCallback_def Let_def)
qed

end
