(* ===== verification/JniLoad.thy ===== *)
theory JniLoad
  imports JniService LogMessages
begin

text \<open>
  The native library of the Java service as it is loaded and unloaded
  (\<^verbatim>\<open>JNI_OnLoad\<close>, \<^verbatim>\<open>JNI_OnUnload\<close> in \<^verbatim>\<open>CpuComService/jni/cpu_com_service_jni.cpp\<close>), and
  the tasks of its Java thread as calls of the methods that loading has looked up. The Java machine
  is a parameter: a record of what its functions answer. So is the thread pool, of which only the
  one worker is kept, which runs its tasks in the order they are pushed.
\<close>

section \<open>State\<close>

text \<open>A class is a value of \<open>'c\<close>, a method identifier one of \<open>'m\<close>, the environment of a thread one of \<open>'e\<close>.\<close>

record ('c, 'm, 'e) JavaVM =
  GetEnv :: int
  FindClass :: "string \<Rightarrow> 'c option"
  GetMethodID :: "'c \<Rightarrow> string \<Rightarrow> string \<Rightarrow> 'm option"
  AttachCurrentThread :: "int \<times> 'e"

record ('c, 'm, 'e) Native =
  gJavaVM :: "('c, 'm, 'e) JavaVM option"
  gJNIEnv :: "'e option"
  gOnCommandMethod :: "'m option"
  gOnErrorMethod :: "'m option"
  java_pool :: bool
  log_formats :: registry

definition Native_new :: "('c, 'm, 'e) Native" where
  "Native_new = \<lparr>gJavaVM = None, gJNIEnv = None, gOnCommandMethod = None, gOnErrorMethod = None, java_pool = False,
     log_formats = Map.empty\<rparr>"

definition JNI_OK :: int where "JNI_OK = 0"
definition JNI_VERSION_1_6 :: int where "JNI_VERSION_1_6 = 0x00010006"

section \<open>Loading and unloading\<close>

text \<open>A method that is not found is a null pointer, which is stored like any other.\<close>

definition find_methods :: "('c, 'm, 'e) JavaVM \<Rightarrow> ('c, 'm, 'e) Native \<Rightarrow> ('c, 'm, 'e) Native option" where
  "find_methods jvm s =
     (if GetEnv jvm = JNI_OK then
        (case FindClass jvm ''com/mitsubishielectric/ahu/efw/cpucomservice/NativeCallbackWrapper'' of
           None \<Rightarrow> None
         | Some c \<Rightarrow> Some (s\<lparr>gOnCommandMethod := GetMethodID jvm c ''onCommand'' ''(II[B)V''\<rparr>))
      else None)"

definition find_error_method :: "('c, 'm, 'e) JavaVM \<Rightarrow> ('c, 'm, 'e) Native \<Rightarrow> ('c, 'm, 'e) Native option" where
  "find_error_method jvm s =
     (case FindClass jvm ''com/mitsubishielectric/ahu/efw/cpucomservice/NativeErrorCallbackWrapper'' of
        None \<Rightarrow> None
      | Some c \<Rightarrow> Some (s\<lparr>gOnErrorMethod := GetMethodID jvm c ''onError'' ''(III)V''\<rparr>))"

text \<open>\<open>common\<close> are the messages of the common library, which loading initializes and unloading terminates.\<close>

definition JNI_OnLoad ::
    "(registry \<Rightarrow> registry) \<Rightarrow> ('c, 'm, 'e) JavaVM \<Rightarrow> ('c, 'm, 'e) Native \<Rightarrow> int \<times> ('c, 'm, 'e) Native" where
  "JNI_OnLoad common jvm s =
     (let s = s\<lparr>log_formats := InitializeLibCpuComLogMessages (common (log_formats s)), gJavaVM := Some jvm\<rparr>
      in case find_methods jvm s of
           None \<Rightarrow> (-1, s)
         | Some s1 \<Rightarrow>
             (case find_error_method jvm s1 of
                None \<Rightarrow> (-1, s1)
              | Some s \<Rightarrow>
                  (case AttachCurrentThread jvm of (result, e) \<Rightarrow>
                     let s = s\<lparr>java_pool := True, gJNIEnv := Some e\<rparr>
                     in if result \<noteq> JNI_OK then (-1, s) else (JNI_VERSION_1_6, s))))"

text \<open>Without a pool, the task that detaches the thread is pushed through a null pointer.\<close>

definition JNI_OnUnload ::
    "(registry \<Rightarrow> registry) \<Rightarrow> ('c, 'm, 'e) Native \<Rightarrow> ('c, 'm, 'e) Native outcome" where
  "JNI_OnUnload common s =
     (if java_pool s
      then Ret (s\<lparr>java_pool := False, gJavaVM := None,
             log_formats := common (TerminateLibCpuComLogMessages (log_formats s))\<rparr>)
      else Throw Undefined_behaviour)"

section \<open>The tasks of the Java thread\<close>

datatype java_value = JInt int | JByteArray "int list"

datatype ('o, 'm, 'e) void_call = CallVoidMethod 'e 'o 'm "java_value list"

text \<open>
  The bytes of a command are promoted to \<^verbatim>\<open>int\<close>; the data are copied into an array of Java bytes,
  which are signed.
\<close>

definition java_command :: "CpuCommand \<Rightarrow> java_value list" where
  "java_command command = [JInt (uint (fst command)), JInt (uint (snd command))]"

definition call_method :: "'e option \<Rightarrow> 'm option \<Rightarrow> 'o \<Rightarrow> java_value list \<Rightarrow> ('o, 'm, 'e) void_call outcome" where
  "call_method env method obj args =
     (case (env, method) of
        (Some e, Some m) \<Rightarrow> Ret (CallVoidMethod e obj m args)
      | _ \<Rightarrow> Throw Undefined_behaviour)"

fun run_java_call :: "('c, 'm, 'e) Native \<Rightarrow> 'o java_call \<Rightarrow> ('o, 'm, 'e) void_call outcome" where
  "run_java_call s (Call_onCommand obj command data) =
     call_method (gJNIEnv s) (gOnCommandMethod s) obj (java_command command @ [JByteArray (map sint data)])"
| "run_java_call s (Call_onError obj command errorCode) =
     call_method (gJNIEnv s) (gOnErrorMethod s) obj (java_command command @ [JInt errorCode])"

section \<open>Descriptors\<close>

datatype java_type = TInt | TByteArray

fun descriptor_types :: "string \<Rightarrow> java_type list option" where
  "descriptor_types (c # cs) =
     (if c = CHR ''I'' then map_option (\<lambda>ts. TInt # ts) (descriptor_types cs)
      else if c = CHR ''['' then (case cs of
          d # cs \<Rightarrow> if d = CHR ''B'' then map_option (\<lambda>ts. TByteArray # ts) (descriptor_types cs) else None
        | [] \<Rightarrow> None)
      else if c # cs = '')V'' then Some [] else None)"
| "descriptor_types [] = None"

text \<open>The types of the parameters of a method without a result.\<close>

definition parameter_types :: "string \<Rightarrow> java_type list option" where
  "parameter_types d = (case d of c # cs \<Rightarrow> if c = CHR ''('' then descriptor_types cs else None | [] \<Rightarrow> None)"

fun has_type :: "java_value \<Rightarrow> java_type \<Rightarrow> bool" where
  "has_type (JInt n) TInt \<longleftrightarrow> - (2 ^ 31) \<le> n \<and> n < 2 ^ 31"
| "has_type (JByteArray bs) TByteArray \<longleftrightarrow> list_all (\<lambda>b. - 128 \<le> b \<and> b < 128) bs"
| "has_type _ _ \<longleftrightarrow> False"

text \<open>The method a call is meant for, as its wrapper in Java declares it.\<close>

fun java_method :: "'o java_call \<Rightarrow> string \<times> string \<times> string" where
  "java_method (Call_onCommand _ _ _) =
     (''com/mitsubishielectric/ahu/efw/cpucomservice/NativeCallbackWrapper'', ''onCommand'', ''(II[B)V'')"
| "java_method (Call_onError _ _ _) =
     (''com/mitsubishielectric/ahu/efw/cpucomservice/NativeErrorCallbackWrapper'', ''onError'', ''(III)V'')"

fun call_object :: "'o java_call \<Rightarrow> 'o" where
  "call_object (Call_onCommand obj _ _) = obj"
| "call_object (Call_onError obj _ _) = obj"

fun int_code :: "'o java_call \<Rightarrow> bool" where
  "int_code (Call_onError _ _ errorCode) \<longleftrightarrow> - (2 ^ 31) \<le> errorCode \<and> errorCode < 2 ^ 31"
| "int_code _ \<longleftrightarrow> True"

section \<open>Properties\<close>

lemma parameter_types_simps:
  "parameter_types ''(II[B)V'' = Some [TInt, TInt, TByteArray]" "parameter_types ''(III)V'' = Some [TInt, TInt, TInt]"
  by code_simp+

lemma loaded:
  assumes "JNI_OnLoad common jvm s = (JNI_VERSION_1_6, s')"
  obtains c d e where
    "FindClass jvm ''com/mitsubishielectric/ahu/efw/cpucomservice/NativeCallbackWrapper'' = Some c"
    "FindClass jvm ''com/mitsubishielectric/ahu/efw/cpucomservice/NativeErrorCallbackWrapper'' = Some d"
    "gOnCommandMethod s' = GetMethodID jvm c ''onCommand'' ''(II[B)V''" "gOnErrorMethod s' = GetMethodID jvm d ''onError'' ''(III)V''"
    "AttachCurrentThread jvm = (JNI_OK, e)" "gJNIEnv s' = Some e" "java_pool s'"
    "log_formats s' = InitializeLibCpuComLogMessages (common (log_formats s))" "gJavaVM s' = Some jvm"
  using assms
  by (auto simp: JNI_OnLoad_def find_methods_def find_error_method_def Let_def JNI_VERSION_1_6_def
      split: option.splits prod.splits if_splits)

lemma byte_args: "has_type (JInt (uint (b :: byte))) TInt" "has_type (JByteArray (map sint (bs :: byte list))) TByteArray"
proof -
  have "uint b < 2 ^ 8" using uint_bounded [of b] by simp
  moreover have "- (2 ^ 31) \<le> uint b" by (rule order_trans [of _ 0]) simp_all
  ultimately show "has_type (JInt (uint b)) TInt" by simp
  have "- 128 \<le> sint x \<and> sint x < 128" for x :: byte using sint_ge [of x] sint_lt [of x] by simp
  then show "has_type (JByteArray (map sint bs)) TByteArray" by (simp add: list_all_iff)
qed


text \<open>A machine that has the two classes and every method; a class is its name.\<close>

definition plain_vm :: "(string, string, nat) JavaVM" where
  "plain_vm = \<lparr>GetEnv = JNI_OK, FindClass = Some, GetMethodID = (\<lambda>c n d. Some n), AttachCurrentThread = (JNI_OK, 0)\<rparr>"


text \<open>
  Unloading a library that was loaded takes back what loading has set up; after a load that failed
  before the thread was started, it goes through a null pointer.
\<close>

lemma load_unload:
  assumes "JNI_OnLoad id jvm s = (JNI_VERSION_1_6, s')"
  shows "\<exists>s''. JNI_OnUnload id s' = Ret s'' \<and> \<not> java_pool s'' \<and> gJavaVM s'' = None \<and>
    log_formats s'' = (log_formats s)(cpuc_lib := None)"
  using assms by (rule loaded) (simp add: JNI_OnUnload_def InitializeLibCpuComLogMessages_def TerminateLibCpuComLogMessages_def)

lemma failed_load_unload:
  assumes "JNI_OnLoad common jvm s = (r, s')" "\<not> java_pool s" "find_methods jvm s = None"
  shows "r = -1 \<and> JNI_OnUnload common s' = Throw Undefined_behaviour"
  using assms by (auto simp: JNI_OnLoad_def JNI_OnUnload_def find_methods_def Let_def split: if_splits option.splits)

end
