(* ===== verification/TestApp.thy ===== *)
theory TestApp
  imports ClientV1 EmulatorUtils
begin

text \<open>
  The interactive client (\<^verbatim>\<open>tools/CpuComDaemonTestApp\<close>): a program on the client library, version 1,
  that reads commands from the console or a file and subscribes, unsubscribes, sends and sends
  repeatedly. The console is the text that is still to be read; what is printed is the list of the
  answers \<^verbatim>\<open>ret\<close>. Files are a function from names to contents.
\<close>

section \<open>The standard library\<close>

text \<open>\<^verbatim>\<open>std::stoi(s, 0, 16)\<close> of a text of hexadecimal digits.\<close>

definition stoi_base16 :: "string \<Rightarrow> nat outcome" where
  "stoi_base16 s = (if s = [] then Throw Invalid_argument else stoi_hex s)"

definition newline :: char where "newline = CHR 0x0A"

text \<open>
  \<^verbatim>\<open>std::cin\<close>: the text to come, and whether the end has been met. A read from a stream that met its
  end leaves the variable as it was.
\<close>

record console =
  cin_text :: string
  cin_ended :: bool

definition cin_getline :: "string \<Rightarrow> console \<Rightarrow> string \<times> console" where
  "cin_getline old cin =
     (if cin_ended cin then (old, cin)
      else case getline (cin_text cin) newline of (line, rest) \<Rightarrow>
        (line, \<lparr>cin_text = rest, cin_ended = (newline \<notin> set (cin_text cin))\<rparr>))"

definition isspace :: "char \<Rightarrow> bool" where
  "isspace c \<longleftrightarrow> c \<in> {CHR '' '', CHR 0x09, CHR 0x0A, CHR 0x0B, CHR 0x0C, CHR 0x0D}"

definition cin_word :: "string \<Rightarrow> console \<Rightarrow> string \<times> console" where
  "cin_word old cin =
     (let text = dropWhile isspace (cin_text cin) in
      if cin_ended cin then (old, cin)
      else if text = [] then (old, \<lparr>cin_text = [], cin_ended = True\<rparr>)
      else (takeWhile (\<lambda>c. \<not> isspace c) text,
            \<lparr>cin_text = dropWhile (\<lambda>c. \<not> isspace c) text,
             cin_ended = (dropWhile (\<lambda>c. \<not> isspace c) text = [])\<rparr>))"

section \<open>The client\<close>

text \<open>The listener that is registered is always the client itself.\<close>

record 'u TestClient =
  m_libCpuCom :: "('u, unit) CpuComImpl"
  m_repeaters :: "CpuCommand \<rightharpoonup> byte list \<times> u32"
  answers :: "string list"

definition TestClient_new :: "bool \<Rightarrow> int \<Rightarrow> 'u TestClient" where
  "TestClient_new valid fd =
     \<lparr>m_libCpuCom = setErrorCallback (Some ()) (CpuComImpl_new valid fd), m_repeaters = Map.empty, answers = []\<rparr>"

definition say :: "string \<Rightarrow> 'u TestClient \<Rightarrow> 'u TestClient" where
  "say ret c = c\<lparr>answers := answers c @ [ret]\<rparr>"

definition lib_send :: "CpuCommand \<Rightarrow> byte list \<Rightarrow> 'u TestClient \<Rightarrow> 'u TestClient" where
  "lib_send command data c = c\<lparr>m_libCpuCom := impl_send command data (m_libCpuCom c)\<rparr>"

definition lib_subscribe :: "CpuCommand list \<Rightarrow> 'u TestClient \<Rightarrow> 'u TestClient outcome" where
  "lib_subscribe commands c =
     omap (\<lambda>l. c\<lparr>m_libCpuCom := l\<rparr>) (impl_subscribe_all commands () (m_libCpuCom c))"

definition lib_unsubscribe :: "CpuCommand \<Rightarrow> 'u TestClient \<Rightarrow> 'u TestClient" where
  "lib_unsubscribe command c = c\<lparr>m_libCpuCom := impl_unsubscribe command () (m_libCpuCom c)\<rparr>"

section \<open>Commands and data from text\<close>

definition app_split :: "string \<Rightarrow> char \<Rightarrow> string list" where
  "app_split s delimiter = tokenize s delimiter"

definition isXdigits :: "string \<Rightarrow> bool" where
  "isXdigits str \<longleftrightarrow> list_all isxdigit str"

definition check :: "string \<Rightarrow> string \<Rightarrow> bool" where
  "check cmnd subCmnd = (if isXdigits cmnd then (if \<not> isXdigits subCmnd then False else True) else False)"

text \<open>The command is \<open>None\<close> when the result is false.\<close>

definition parseCommand :: "string \<Rightarrow> CpuCommand option outcome" where
  "parseCommand str =
     (let raw_command = app_split str CHR '','' in
      obind (vec_index raw_command 0) (\<lambda>cmnd.
      obind (vec_index raw_command 1) (\<lambda>subCmnd.
        if check cmnd subCmnd
        then obind (stoi_base16 cmnd) (\<lambda>command.
             obind (stoi_base16 subCmnd) (\<lambda>subCommand.
               Ret (Some (word_of_nat command, word_of_nat subCommand))))
        else Ret None)))"

fun parseData_loop :: "string list \<Rightarrow> byte list \<Rightarrow> (bool \<times> byte list) outcome" where
  "parseData_loop [] resultsData = Ret (True, resultsData)"
| "parseData_loop (i # raw_data) resultsData =
     (if isXdigits i
      then obind (stoi_base16 i) (\<lambda>v. parseData_loop raw_data (resultsData @ [word_of_nat v]))
      else Ret (False, resultsData))"

definition parseData :: "string \<Rightarrow> (bool \<times> byte list) outcome" where
  "parseData str = parseData_loop (app_split str CHR '','') []"

text \<open>The loop over several commands, which a bad one ends.\<close>

fun parse_commands :: "string list \<Rightarrow> CpuCommand list option outcome" where
  "parse_commands [] = Ret (Some [])"
| "parse_commands (i # results) =
     obind (parseCommand i) (\<lambda>r.
       case r of
         None \<Rightarrow> Ret None
       | Some command \<Rightarrow> omap (map_option ((#) command)) (parse_commands results))"

section \<open>Operations\<close>

definition app_repeat :: "CpuCommand \<Rightarrow> byte list \<Rightarrow> u32 \<Rightarrow> 'u TestClient \<Rightarrow> 'u TestClient" where
  "app_repeat command data interval c =
     (if m_repeaters c command = None
      then c\<lparr>m_repeaters := (m_repeaters c)(command \<mapsto> (data, interval))\<rparr> else c)"

definition app_stoprepeat :: "CpuCommand \<Rightarrow> 'u TestClient \<Rightarrow> 'u TestClient" where
  "app_stoprepeat command c =
     (if m_repeaters c command \<noteq> None then c\<lparr>m_repeaters := (m_repeaters c)(command := None)\<rparr> else c)"

definition app_answer :: "string \<Rightarrow> string" where
  "app_answer s = s @ [newline]"

text \<open>
  The branches of \<^verbatim>\<open>parseGotSource\<close>. \<^verbatim>\<open>results\<close> are the words of the line; the indices \<open>Word\<close>,
  \<open>Command\<close> and \<open>Data\<close> are 0, 1 and 2.
\<close>

definition source_command ::
    "string \<Rightarrow> (CpuCommand \<Rightarrow> 'u TestClient \<Rightarrow> 'u TestClient outcome) \<Rightarrow> string \<Rightarrow> 'u TestClient \<Rightarrow>
     (string \<times> 'u TestClient) outcome" where
  "source_command str f answer c =
     obind (parseCommand str) (\<lambda>r.
       case r of
         None \<Rightarrow> Ret (app_answer ''bad command'', c)
       | Some command \<Rightarrow> omap (\<lambda>c. (app_answer answer, c)) (f command c))"

definition source_list :: "string list \<Rightarrow> 'u TestClient \<Rightarrow> (string \<times> 'u TestClient) outcome" where
  "source_list results c =
     obind (parse_commands results) (\<lambda>r.
       case r of
         None \<Rightarrow> Ret (app_answer ''bad command'', c)
       | Some commands \<Rightarrow> omap (\<lambda>c. (app_answer ''list was subscribed'', c)) (lib_subscribe commands c))"

definition source_send :: "string list \<Rightarrow> 'u TestClient \<Rightarrow> (string \<times> 'u TestClient) outcome" where
  "source_send results c =
     obind (vec_index results 1) (\<lambda>str.
     obind (parseCommand str) (\<lambda>r.
       case r of
         None \<Rightarrow> Ret (app_answer ''bad command'', c)
       | Some command \<Rightarrow>
           obind (vec_index results 2) (\<lambda>str.
           obind (parseData str) (\<lambda>(good, resultsData).
             Ret (if good then (app_answer ''was sent'', lib_send command resultsData c)
                  else (app_answer ''bad data'', c))))))"

definition parseGotSource :: "string \<Rightarrow> 'u TestClient \<Rightarrow> (string \<times> 'u TestClient) outcome" where
  "parseGotSource in_line c =
     (let results = app_split in_line CHR '' '' in
      obind (vec_index results 0) (\<lambda>wordCommand.
        if wordCommand = ''sendextlen''
        then Ret (app_answer ''done'', lib_send (0xfd, 0x01) (replicate 512 0x17) c)
        else if wordCommand = ''sendextlenfd''
        then Ret (app_answer ''done'', lib_send (0xfd, 0x01) (replicate 2048 0x17) c)
        else if 1 < length results then
          (if wordCommand = ''subscribe''
           then source_command (results ! 1) (\<lambda>command. lib_subscribe [command]) ''was subscribed'' c
           else if wordCommand = ''unsubscribe''
           then source_command (results ! 1) (\<lambda>command c. Ret (lib_unsubscribe command c)) ''was unsubscribed'' c
           else if wordCommand = ''subscribelist'' then source_list (tl results) c
           else if wordCommand = ''send'' then source_send results c
           else Ret (app_answer ''bad command'', c))
        else Ret (app_answer ''bad command'', c)))"

fun parse_lines :: "string list \<Rightarrow> 'u TestClient \<Rightarrow> 'u TestClient outcome" where
  "parse_lines [] c = Ret c"
| "parse_lines (line # lines) c = obind (parseGotSource line c) (\<lambda>(ret, c). parse_lines lines (say ret c))"

text \<open>A file is read by lines, as the console is.\<close>

definition readFile ::
    "(string \<Rightarrow> string option) \<Rightarrow> console \<Rightarrow> 'u TestClient \<Rightarrow> (string \<times> console \<times> 'u TestClient) outcome" where
  "readFile files cin c =
     (case cin_word [] cin of (file_name, cin) \<Rightarrow>
        (case files file_name of
           None \<Rightarrow> Ret (app_answer ''Could not open file to read.'', cin, say (app_answer ''Could not open file to read.'') c)
         | Some content \<Rightarrow>
             omap (\<lambda>c. (app_answer ''file has readed.'', cin, c)) (parse_lines (tokenize content newline) c)))"

definition app_subscribe :: "console \<Rightarrow> 'u TestClient \<Rightarrow> (console \<times> 'u TestClient) outcome" where
  "app_subscribe cin c =
     (case cin_getline [] cin of (in_line, cin) \<Rightarrow>
        (let results = app_split in_line CHR '' '' in
         omap (\<lambda>(ret, c). (cin, say ret c))
           (if length results = 1
            then source_command (results ! 0) (\<lambda>command. lib_subscribe [command]) ''was subscribed'' c
            else if 1 < length results then source_list results c
            else Ret (app_answer ''bad command'', c))))"

definition app_unsubscribe :: "console \<Rightarrow> 'u TestClient \<Rightarrow> (console \<times> 'u TestClient) outcome" where
  "app_unsubscribe cin c =
     (case cin_word [] cin of (in_line, cin) \<Rightarrow>
        obind (vec_index (app_split in_line CHR '' '') 0) (\<lambda>str.
          omap (\<lambda>(ret, c). (cin, say ret c))
            (source_command str (\<lambda>command c. Ret (lib_unsubscribe command c)) ''was unsubscribed'' c)))"

definition app_send :: "console \<Rightarrow> 'u TestClient \<Rightarrow> (console \<times> 'u TestClient) outcome" where
  "app_send cin c =
     (case cin_getline [] cin of (in_line, cin) \<Rightarrow>
        if in_line = [] then Ret (cin, say (app_answer ''bad command'') c)
        else obind (vec_index (app_split in_line CHR '' '') 0) (\<lambda>str.
             obind (parseCommand str) (\<lambda>r.
               case r of
                 None \<Rightarrow> Ret (cin, say (app_answer ''bad command'') c)
               | Some command \<Rightarrow>
                   (case cin_getline in_line cin of (in_line, cin) \<Rightarrow>
                      if in_line = [] then Ret (cin, say (app_answer ''bad data'') c)
                      else obind (parseData in_line) (\<lambda>(good, resultsData).
                             Ret (cin, if good then say (app_answer ''was sent'') (lib_send command resultsData c)
                                       else say (app_answer ''bad data'') c))))))"

definition app_file ::
    "(string \<Rightarrow> string option) \<Rightarrow> console \<Rightarrow> 'u TestClient \<Rightarrow> (console \<times> 'u TestClient) outcome" where
  "app_file files cin c = omap (\<lambda>(ret, cin, c). (cin, say [] c)) (readFile files cin c)"

definition farm_data :: "byte list" where
  "farm_data = [0xd1, 0xd2, 0xd3, 0xd4, 0xd5, 0xd6, 0xd7, 0xd8, 0xd9, 0xda, 0xdb, 0xdc, 0xdd, 0xde, 0xdf]"

definition testFarmStart :: "console \<Rightarrow> 'u TestClient \<Rightarrow> (console \<times> 'u TestClient) outcome" where
  "testFarmStart cin c =
     (case cin_getline [] cin of (in_line, cin) \<Rightarrow>
        if in_line = [] then Ret (cin, say [] c)
        else if list_all isdigit in_line then
          obind (stoi_dec in_line) (\<lambda>interval.
          obind (lib_subscribe [(0xfd, 0x81)] c) (\<lambda>c.
            Ret (cin, say ''Test farm was started'' (app_repeat (0xfd, 0x01) farm_data (word_of_nat interval) c))))
        else Ret (cin, say ''bad interval'' c))"

definition testFarmStop :: "'u TestClient \<Rightarrow> 'u TestClient" where
  "testFarmStop c =
     say ''Test farm was stoped'' (app_stoprepeat (0xfd, 0x01) (lib_unsubscribe (0xfd, 0x81) c))"

text \<open>The command line mode: a loop with the last line, the stop flag, the console and the client.\<close>

type_synonym 'u command_mode = "string \<times> bool \<times> console \<times> 'u TestClient"

definition mode_on :: "'u command_mode \<Rightarrow> bool" where
  "mode_on s \<longleftrightarrow> \<not> fst (snd s)"

definition cmndLine_body :: "(string \<Rightarrow> string option) \<Rightarrow> 'u command_mode \<Rightarrow> 'u command_mode outcome" where
  "cmndLine_body files s = (case s of (in_line, stopFlag, cin, c) \<Rightarrow>
     (case cin_getline in_line cin of (in_line, cin) \<Rightarrow>
        if in_line = [] then Ret (in_line, stopFlag, cin, c)
        else if in_line = ''file''
        then omap (\<lambda>(ret, cin, c). (in_line, stopFlag, cin, say ret c)) (readFile files cin c)
        else if in_line = ''exit'' then Ret (in_line, True, cin, say ''exit'' c)
        else omap (\<lambda>(ret, c). (in_line, stopFlag, cin, say ret c)) (parseGotSource in_line c)))"

definition cmndLineMod ::
    "(string \<Rightarrow> string option) \<Rightarrow> console \<Rightarrow> 'u TestClient \<Rightarrow> (console \<times> 'u TestClient) outcome" where
  "cmndLineMod files cin c =
     omap (\<lambda>s. snd (snd s)) (run_while mode_on (cmndLine_body files) ([], False, cin, c))"

text \<open>The listener only prints, and the destructor stops the test farm.\<close>

definition TestClient_delete :: "'u TestClient \<Rightarrow> 'u TestClient" where
  "TestClient_delete c = testFarmStop c"

section \<open>The menu\<close>

datatype MenuID = Exit | Menu_Subscribe | Menu_Unsubscribe | Menu_Send | Menu_File | TestFarmStart | TestFarmStop
  | CmndLineMod | Idle | DefaultAnsw

definition menu_of_number :: "nat \<Rightarrow> MenuID" where
  "menu_of_number n =
     (if n < 9 then [Exit, Menu_Subscribe, Menu_Unsubscribe, Menu_Send, Menu_File, TestFarmStart, TestFarmStop,
        CmndLineMod, Idle] ! n else DefaultAnsw)"

type_synonym 'u menu = "MenuID \<times> string \<times> bool \<times> console \<times> 'u TestClient"

definition menu_choice :: "string \<Rightarrow> MenuID \<Rightarrow> MenuID outcome" where
  "menu_choice temp answer =
     (if temp = [] then Ret answer
      else if list_all isdigit temp then omap menu_of_number (stoi_dec temp)
      else Ret DefaultAnsw)"

definition menu_body :: "(string \<Rightarrow> string option) \<Rightarrow> 'u menu \<Rightarrow> 'u menu outcome" where
  "menu_body files s = (case s of (answer, temp, stopFlag, cin, c) \<Rightarrow>
     let idle = omap (\<lambda>(cin, c). (Idle, temp, stopFlag, cin, c)) in
     (case answer of
        Menu_Subscribe \<Rightarrow> idle (app_subscribe cin c)
      | Menu_Unsubscribe \<Rightarrow> idle (app_unsubscribe cin c)
      | Menu_Send \<Rightarrow> idle (app_send cin c)
      | Menu_File \<Rightarrow> idle (app_file files cin c)
      | TestFarmStart \<Rightarrow> idle (testFarmStart cin c)
      | TestFarmStop \<Rightarrow> idle (Ret (cin, testFarmStop c))
      | CmndLineMod \<Rightarrow> idle (cmndLineMod files cin c)
      | Exit \<Rightarrow> Ret (answer, temp, True, cin, c)
      | Idle \<Rightarrow> (case cin_getline temp cin of (temp, cin) \<Rightarrow>
                  omap (\<lambda>answer. (answer, temp, stopFlag, cin, c)) (menu_choice temp Idle))
      | DefaultAnsw \<Rightarrow> Ret (Idle, temp, stopFlag, cin, c)))"

definition menu_on :: "'u menu \<Rightarrow> bool" where
  "menu_on s \<longleftrightarrow> \<not> fst (snd (snd s))"

definition menu_client :: "'u menu \<Rightarrow> 'u TestClient" where
  "menu_client s = snd (snd (snd (snd s)))"

text \<open>\<^verbatim>\<open>main\<close>: the menu runs on a new client until it is left, and then the client is destroyed.\<close>

definition app_main :: "(string \<Rightarrow> string option) \<Rightarrow> bool \<Rightarrow> int \<Rightarrow> console \<Rightarrow> 'u TestClient outcome" where
  "app_main files valid fd cin =
     omap (\<lambda>s. TestClient_delete (menu_client s))
       (run_while menu_on (menu_body files) (Idle, [], False, cin, TestClient_new valid fd))"

section \<open>Lines that commands are written as\<close>

lemma stoi_base16_hex:
  "stoi_base16 (hex2 b) = Ret (unat b)" "stoi_base16 (hex1 b) = Ret (unat b)"
  by (simp_all add: stoi_base16_def hex1_props hex2_props stoi_hex_byte)

lemma parseCommand_text: "parseCommand (command_text command) = Ret (Some command)"
proof -
  have "app_split (command_text command) CHR '','' = [hex2 (fst command), hex2 (snd command)]"
    by (simp add: app_split_def command_text_def tokenize_append tokenize_last hex2_props)
  then show ?thesis
    by (simp add: parseCommand_def vec_index_def check_def isXdigits_def hex2_props stoi_base16_hex)
qed

lemma parseData_loop_hex: "parseData_loop (map hex1 data) acc = Ret (True, acc @ data)"
  by (induction data arbitrary: acc) (simp_all add: isXdigits_def hex1_props stoi_base16_hex)

lemma parseData_text: "parseData (data_text data) = Ret (True, data)"
  by (simp add: parseData_def app_split_def tokenize_data_text parseData_loop_hex)

lemma command_text_nonempty: "command_text command \<noteq> []"
  by (simp add: command_text_def)

lemma data_text_nonempty: "data \<noteq> [] \<Longrightarrow> data_text data \<noteq> []"
  by (simp add: data_text_def hex1_props)

lemma split_words:
  assumes "CHR '' '' \<notin> set w" and "CHR '' '' \<notin> set v" and "v \<noteq> []"
  shows "app_split (w @ CHR '' '' # v) CHR '' '' = [w, v]"
  using assms by (simp add: app_split_def tokenize_append tokenize_last)

lemma parse_lines_append: "parse_lines (ls @ ls') c = obind (parse_lines ls c) (parse_lines ls')"
proof (induction ls arbitrary: c)
  case (Cons l ls)
  then show ?case by (cases "parseGotSource l c") (auto simp: case_prod_beta)
qed simp

lemma parseGotSource_empty: "parseGotSource [] c = Throw Undefined_behaviour"
  by (simp add: parseGotSource_def app_split_def tokenize.simps vec_index_def)

lemma parse_lines_empty: "[] \<in> set ls \<Longrightarrow> parse_lines ls c \<noteq> Ret c'"
proof (induction ls arbitrary: c)
  case (Cons l ls)
  then show ?case by (cases "l = []") (auto simp: parseGotSource_empty obind_eq_Ret)
qed simp

section \<open>The command line mode\<close>

definition typed :: "string list \<Rightarrow> string" where
  "typed ls = concat (map (\<lambda>l. l @ [newline]) ls)"

lemma getline_typed: "newline \<notin> set l \<Longrightarrow>
  cin_getline old \<lparr>cin_text = l @ newline # rest, cin_ended = False\<rparr> = (l, \<lparr>cin_text = rest, cin_ended = False\<rparr>)"
  by (simp add: cin_getline_def getline_append)

lemma cmndLine_body_apply:
  "cmndLine_body files (in_line, stopFlag, cin, c) =
     (case cin_getline in_line cin of (in_line, cin) \<Rightarrow>
        if in_line = [] then Ret (in_line, stopFlag, cin, c)
        else if in_line = ''file''
        then omap (\<lambda>(ret, cin, c). (in_line, stopFlag, cin, say ret c)) (readFile files cin c)
        else if in_line = ''exit'' then Ret (in_line, True, cin, say ''exit'' c)
        else omap (\<lambda>(ret, c). (in_line, stopFlag, cin, say ret c)) (parseGotSource in_line c))"
  by (simp add: cmndLine_body_def)

lemma mode_on_apply [simp]: "mode_on (in_line, stopFlag, cin, c) = (\<not> stopFlag)"
  by (simp add: mode_on_def)

lemma command_mode_lines:
  assumes "\<forall>l\<in>set ls. newline \<notin> set l \<and> l \<noteq> ''file'' \<and> l \<noteq> ''exit''"
  shows "omap (\<lambda>s. snd (snd s)) (run_while mode_on (cmndLine_body files)
      (old, False, \<lparr>cin_text = typed ls @ ''exit'' @ newline # rest, cin_ended = False\<rparr>, c)) =
    omap (\<lambda>c. (\<lparr>cin_text = rest, cin_ended = False\<rparr>, say ''exit'' c)) (parse_lines (filter (\<lambda>l. l \<noteq> []) ls) c)"
  using assms
proof (induction ls arbitrary: old c)
  case Nil
  have n: "newline \<notin> set ''exit''" by (simp add: newline_def)
  show ?case using getline_typed [OF n, of old rest]
    by (subst run_while_unfold) (simp add: cmndLine_body_apply typed_def run_while_unfold [of _ _ "(''exit'', True, _)"])
next
  case (Cons l ls)
  have l: "newline \<notin> set l" "l \<noteq> ''file''" "l \<noteq> ''exit''" using Cons.prems by simp_all
  have ls: "\<forall>l\<in>set ls. newline \<notin> set l \<and> l \<noteq> ''file'' \<and> l \<noteq> ''exit''" using Cons.prems by simp
  have t: "typed (l # ls) @ ''exit'' @ newline # rest = l @ newline # (typed ls @ ''exit'' @ newline # rest)"
    by (simp add: typed_def)
  note g = getline_typed [OF l(1), of old "typed ls @ ''exit'' @ newline # rest"]
  show ?case
  proof (cases "l = []")
    case True
    then show ?thesis using Cons.IH [OF ls, of "[]" c] g unfolding t
      by (subst run_while_unfold) (simp add: cmndLine_body_apply)
  next
    case False
    show ?thesis
    proof (cases "parseGotSource l c")
      case (Ret r)
      obtain ret c' where r: "r = (ret, c')" by (cases r)
      show ?thesis using Cons.IH [OF ls, of l "say ret c'"] g l False Ret r unfolding t
        by (subst run_while_unfold) (simp add: cmndLine_body_apply)
    qed (unfold t, insert g l False, (subst run_while_unfold, simp add: cmndLine_body_apply)+)
  qed
qed

section \<open>What is left when the program ends\<close>

text \<open>
  The test farm is the only thing that repeats, and the library's lists and messages agree: this is
  kept by every operation.
\<close>

definition app_inv :: "'u TestClient \<Rightarrow> bool" where
  "app_inv c \<longleftrightarrow> dom (m_repeaters c) \<subseteq> {(0xfd, 0x01)} \<and> impl_inv (m_libCpuCom c)"

definition keeps_app :: "('a \<Rightarrow> 'u TestClient) \<Rightarrow> 'a outcome \<Rightarrow> bool" where
  "keeps_app client r \<longleftrightarrow> (\<forall>x. r = Ret x \<longrightarrow> app_inv (client x))"

lemma keeps_app_simps [simp]:
  "keeps_app client (Ret x) \<longleftrightarrow> app_inv (client x)" "keeps_app client (Throw e)"
  "keeps_app client (omap f r) \<longleftrightarrow> keeps_app (client \<circ> f) r"
  by (auto simp: keeps_app_def omap_eq_Ret)

lemma keeps_app_obind: "(\<And>x. r = Ret x \<Longrightarrow> keeps_app client (f x)) \<Longrightarrow> keeps_app client (obind r f)"
  by (auto simp: keeps_app_def obind_eq_Ret)

lemma app_inv_say [simp]: "app_inv (say ret c) = app_inv c"
  by (simp add: app_inv_def say_def)

lemma app_inv_send [simp]: "app_inv c \<Longrightarrow> app_inv (lib_send command data c)"
  using impl_step_inv [of "m_libCpuCom c" _ "ISend command data"] by (simp add: app_inv_def lib_send_def)

lemma app_inv_unsubscribe [simp]: "app_inv c \<Longrightarrow> app_inv (lib_unsubscribe command c)"
  using impl_step_inv [of "m_libCpuCom c" _ "IUnsubscribe command ()"] by (simp add: app_inv_def lib_unsubscribe_def)

lemma impl_subscribe_all_inv: "impl_subscribe_all commands l c = Ret c' \<Longrightarrow> impl_inv c \<Longrightarrow> impl_inv c'"
proof (induction commands arbitrary: c)
  case (Cons command commands)
  then obtain c1 where "impl_subscribe command l c = Ret c1" "impl_subscribe_all commands l c1 = Ret c'"
    by (auto simp: obind_eq_Ret)
  then show ?case using Cons.IH Cons.prems(2) impl_step_inv [of c _ "ISubscribe command l" c1] by simp
qed simp

lemma keeps_subscribe: "app_inv c \<Longrightarrow> keeps_app (\<lambda>c. c) (lib_subscribe commands c)"
  unfolding keeps_app_def lib_subscribe_def omap_eq_Ret app_inv_def using impl_subscribe_all_inv by force

lemma app_inv_repeat [simp]: "app_inv c \<Longrightarrow> app_inv (app_repeat (0xfd, 0x01) data interval c)"
  by (auto simp: app_inv_def app_repeat_def)

lemma app_inv_stop: "app_inv c \<Longrightarrow> app_inv (testFarmStop c)"
  using app_inv_unsubscribe [of c "(0xfd, 0x81)"] by (auto simp: app_inv_def testFarmStop_def app_stoprepeat_def say_def)

lemma app_inv_Ret: "keeps_app client r \<Longrightarrow> r = Ret x \<Longrightarrow> app_inv (client x)"
  by (simp add: keeps_app_def)

lemma keeps_source_command:
  assumes "app_inv c" and "\<And>command. keeps_app (\<lambda>c. c) (f command c)"
  shows "keeps_app snd (source_command str f answer c)"
  unfolding source_command_def
  by (rule keeps_app_obind) (use assms in \<open>auto split: option.split simp: comp_def\<close>)

lemma keeps_source_list: "app_inv c \<Longrightarrow> keeps_app snd (source_list results c)"
  unfolding source_list_def
  by (rule keeps_app_obind) (auto split: option.split simp: comp_def intro: keeps_subscribe)

lemma keeps_source_send: "app_inv c \<Longrightarrow> keeps_app snd (source_send results c)"
  unfolding source_send_def
  by (intro keeps_app_obind) (auto split: option.split intro!: keeps_app_obind)

lemma keeps_parseGotSource: "app_inv c \<Longrightarrow> keeps_app snd (parseGotSource in_line c)"
  unfolding parseGotSource_def Let_def
  by (rule keeps_app_obind)
     (auto intro!: keeps_source_command keeps_source_list keeps_source_send keeps_subscribe)

lemma parse_lines_inv: "parse_lines ls c = Ret c' \<Longrightarrow> app_inv c \<Longrightarrow> app_inv c'"
proof (induction ls arbitrary: c)
  case (Cons l ls)
  then obtain ret c1 where "parseGotSource l c = Ret (ret, c1)" "parse_lines ls (say ret c1) = Ret c'"
    by (auto simp: obind_eq_Ret)
  then show ?case using Cons.IH Cons.prems(2) app_inv_Ret [OF keeps_parseGotSource] by fastforce
qed simp

lemma keeps_readFile: "app_inv c \<Longrightarrow> keeps_app (\<lambda>(ret, cin, c). c) (readFile files cin c)"
  by (auto simp: readFile_def keeps_app_def omap_eq_Ret intro: parse_lines_inv split: prod.splits option.splits)

lemma keeps_dialogues:
  assumes "app_inv c"
  shows "keeps_app snd (app_subscribe cin c)" and "keeps_app snd (app_unsubscribe cin c)"
    and "keeps_app snd (app_send cin c)" and "keeps_app snd (testFarmStart cin c)"
    and "keeps_app snd (app_file files cin c)"
proof -
  have k: "keeps_app (\<lambda>x. say (fst x) (snd x)) r" if "keeps_app snd r" for r :: "(string \<times> 'a TestClient) outcome"
    using that by (simp add: keeps_app_def)
  show "keeps_app snd (app_subscribe cin c)" unfolding app_subscribe_def Let_def
    using assms by (auto simp: comp_def case_prod_beta intro!: k keeps_source_command keeps_source_list keeps_subscribe)
  show "keeps_app snd (app_unsubscribe cin c)" unfolding app_unsubscribe_def
    using assms by (auto simp: comp_def case_prod_beta intro!: keeps_app_obind k keeps_source_command)
  show "keeps_app snd (app_send cin c)" unfolding app_send_def
    using assms by (auto simp: case_prod_beta split: option.split intro!: keeps_app_obind)
  show "keeps_app snd (testFarmStart cin c)" unfolding testFarmStart_def
    using assms by (auto simp: case_prod_beta intro!: keeps_app_obind dest: app_inv_Ret [OF keeps_subscribe])
  show "keeps_app snd (app_file files cin c)" unfolding app_file_def
    using keeps_readFile [OF assms, of files cin] by (auto simp: keeps_app_def comp_def case_prod_beta omap_eq_Ret)
qed

lemma keeps_cmndLine: "app_inv c \<Longrightarrow> keeps_app (\<lambda>s. snd (snd (snd s))) (cmndLine_body files (in_line, stopFlag, cin, c))"
  using keeps_readFile [of c files] keeps_parseGotSource [of c]
  by (auto simp: cmndLine_body_apply keeps_app_def omap_eq_Ret case_prod_beta)

lemma keeps_cmndLineMod: "app_inv c \<Longrightarrow> keeps_app snd (cmndLineMod files cin c)"
proof -
  assume c: "app_inv c"
  have "app_inv (snd (snd (snd s)))" if "run_while mode_on (cmndLine_body files) ([], False, cin, c) = Ret s" for s
    by (rule run_while_invariant [OF that, where P = "\<lambda>s. app_inv (snd (snd (snd s)))"])
       (use c app_inv_Ret [OF keeps_cmndLine] in \<open>auto split: prod.splits\<close>)
  then show ?thesis by (auto simp: cmndLineMod_def keeps_app_def omap_eq_Ret)
qed

lemma menu_body_inv:
  assumes "menu_body files s = Ret s'" and "app_inv (menu_client s)"
  shows "app_inv (menu_client s')"
proof -
  obtain answer temp stopFlag cin c where s: "s = (answer, temp, stopFlag, cin, c)" by (cases s)
  have c: "app_inv c" using assms(2) by (simp add: s menu_client_def)
  note k = keeps_dialogues [OF c] keeps_cmndLineMod [OF c]
  show ?thesis
    using assms(1) c k(1-4) [of cin] k(5) [of files cin] k(6) [of files cin] unfolding s
    by (cases answer)
       (auto simp: menu_body_def menu_client_def omap_eq_Ret Let_def case_prod_beta app_inv_stop keeps_app_def)
qed

lemma app_inv_new: "app_inv (TestClient_new valid fd)"
  using impl_step_inv [OF impl_inv_new, of _ "ISetErrorCallback (Some ())"]
  by (auto simp: app_inv_def TestClient_new_def)

section \<open>The end of the console\<close>

text \<open>When the console ends before the program was left, the menu is shown again and again for ever.\<close>

lemma menu_at_end:
  assumes "cin_ended cin"
  shows "run_while menu_on (menu_body files) (Idle, [], False, cin, c) = Diverges"
  by (rule run_while_diverges [where P = "\<lambda>s. \<exists>c. s = (Idle, [], False, cin, c)"])
     (use assms in \<open>auto simp: menu_on_def menu_body_def cin_getline_def menu_choice_def\<close>)

section \<open>Properties\<close>

text \<open>
  A command or data written in hexadecimal is read back by the client and given to the library:
  a subscription, an unsubscription, and a message with the command and the data. A send of no data
  reads a word that is not there.
\<close>

lemma app_lines:
  "parseGotSource (''subscribe '' @ command_text command) c =
     omap (\<lambda>c. (app_answer ''was subscribed'', c)) (lib_subscribe [command] c) \<and>
   parseGotSource (''unsubscribe '' @ command_text command) c =
     Ret (app_answer ''was unsubscribed'', lib_unsubscribe command c) \<and>
   parseGotSource (''send '' @ command_text command @ '' '' @ data_text data) c =
     (if data = [] then Throw Undefined_behaviour else Ret (app_answer ''was sent'', lib_send command data c))"
proof -
  note n = command_text_no_blank [of command] command_text_nonempty [of command]
  have s: "app_split (''subscribe'' @ CHR '' '' # command_text command) CHR '' '' = [''subscribe'', command_text command]"
    "app_split (''unsubscribe'' @ CHR '' '' # command_text command) CHR '' '' = [''unsubscribe'', command_text command]"
    by (rule split_words; simp add: n)+
  have "app_split (''send'' @ CHR '' '' # command_text command @ CHR '' '' # data_text data) CHR '' '' =
      ''send'' # app_split (command_text command @ CHR '' '' # data_text data) CHR '' ''"
    unfolding app_split_def by (rule tokenize_append) simp
  moreover have "app_split (command_text command @ CHR '' '' # data_text data) CHR '' '' =
      command_text command # (if data = [] then [] else [data_text data])"
    using tokenize_append [OF n(1), of "data_text data"] tokenize_last [OF data_text_no_blank data_text_nonempty]
    by (simp add: app_split_def tokenize.simps [of "[]"] data_text_def [of "[]"])
  ultimately have t: "app_split (''send '' @ command_text command @ '' '' @ data_text data) CHR '' '' =
      ''send'' # command_text command # (if data = [] then [] else [data_text data])"
    by simp
  show ?thesis
    using s t by (simp add: parseGotSource_def vec_index_def source_command_def source_send_def parseCommand_text
        parseData_text Let_def)
qed

text \<open>
  Lines typed in the command line mode, up to \<^verbatim>\<open>exit\<close>, do what the same lines do in a file,
  except that an empty line is passed over; what follows is left to be read.
\<close>

lemma app_command_mode:
  assumes "\<forall>l\<in>set ls. newline \<notin> set l \<and> l \<noteq> ''file'' \<and> l \<noteq> ''exit''"
  shows "cmndLineMod files \<lparr>cin_text = typed ls @ ''exit'' @ newline # rest, cin_ended = False\<rparr> c =
    omap (\<lambda>c. (\<lparr>cin_text = rest, cin_ended = False\<rparr>, say ''exit'' c)) (parse_lines (filter (\<lambda>l. l \<noteq> []) ls) c)"
  unfolding cmndLineMod_def by (rule command_mode_lines [OF assms])

text \<open>
  A file with an empty line is never read to its end: its first word is looked up although there
  is none.
\<close>

lemma app_file_empty_line:
  assumes "files (fst (cin_word [] cin)) = Some content" and "[] \<in> set (tokenize content newline)"
  shows "readFile files cin c \<noteq> Ret r"
proof
  assume "readFile files cin c = Ret r"
  then obtain c' where "parse_lines (tokenize content newline) c = Ret c'"
    using assms(1) by (auto simp: readFile_def omap_eq_Ret split: prod.splits)
  then show False using parse_lines_empty [OF assms(2)] by blast
qed

text \<open>
  Whatever is typed and whatever the files hold, when the program ends nothing is sent
  repeatedly any more, and the messages the library sent agree with its lists of listeners.
\<close>

lemma app_main_cleans_up:
  assumes "app_main files valid fd cin = Ret c"
  shows "m_repeaters c = Map.empty \<and> impl_inv (m_libCpuCom c)"
proof -
  obtain s where s: "run_while menu_on (menu_body files) (Idle, [], False, cin, TestClient_new valid fd) = Ret s"
    and c: "c = testFarmStop (menu_client s)"
    using assms by (auto simp: app_main_def omap_eq_Ret TestClient_delete_def)
  have "app_inv (menu_client (Idle, [], False, cin, TestClient_new valid fd))"
    by (simp add: menu_client_def app_inv_new)
  then have inv: "app_inv (menu_client s)"
    by (rule run_while_invariant [OF s, where P = "\<lambda>s. app_inv (menu_client s)"]) (erule menu_body_inv)
  have "dom (m_repeaters c) \<subseteq> dom (m_repeaters (menu_client s)) - {(0xfd, 0x01)}"
    unfolding c by (auto simp: testFarmStop_def say_def app_stoprepeat_def lib_unsubscribe_def split: if_splits)
  then have "m_repeaters c = Map.empty" using inv unfolding app_inv_def dom_eq_empty_conv [symmetric] by blast
  then show ?thesis using app_inv_stop [OF inv] by (simp add: c app_inv_def)
qed

end
