(* ===== verification/TestTool.thy ===== *)
theory TestTool
  imports Session LogMessages
begin

text \<open>
  The tool that tests the client library against a running daemon
  (\<^verbatim>\<open>tools/libCpuComTestTool/main.cpp\<close>): what it asks of the library, in order, and what it
  prints from what it observes. Each test is a block; the response objects of a block are dropped
  where the code destroys them. The identifiers that the library draws are given in a record, and so
  are the things the tool can see only when it runs: the results of its timed waits, the number of
  delivery callbacks, and the durations it prints.
\<close>

section \<open>What the tool asks\<close>

datatype tool_callback = Set_value | Count_up

definition requestCommand :: CpuCommand where "requestCommand = (0xfd, 0x01)"
definition requestData :: "byte list" where "requestData = [0x01, 0x02, 0x03, 0x04, 0x05]"
definition responseCommand :: CpuCommand where "responseCommand = (0xfd, 0x81)"
definition kTimesRepeat :: nat where "kTimesRepeat = 300"

record 'u tool_ids =
  status_id :: 'u
  delivery_ids :: "'u list"
  delivery_request :: 'u
  dropped_ids :: "'u list"
  waited_ids :: "'u list"
  thread_ids :: "'u list"

definition enough_ids :: "'u tool_ids \<Rightarrow> bool" where
  "enough_ids i \<longleftrightarrow>
     distinct (status_id i # delivery_ids i @ delivery_request i # dropped_ids i @ waited_ids i @ thread_ids i) \<and>
     length (delivery_ids i) = kTimesRepeat \<and> length (dropped_ids i) = kTimesRepeat \<and>
     length (waited_ids i) = kTimesRepeat \<and> length (thread_ids i) = kTimesRepeat"

definition tool_request :: "'u \<Rightarrow> ('u, tool_callback) client_event" where
  "tool_request u = MakeRequest u requestCommand requestData responseCommand"

definition send_test :: "('u, tool_callback) client_event list" where
  "send_test = [Send requestCommand requestData]"

definition status_test :: "'u tool_ids \<Rightarrow> ('u, tool_callback) client_event list" where
  "status_test i = [SendStatus (status_id i) requestCommand requestData (Some Set_value)]"

definition delivery_test :: "'u tool_ids \<Rightarrow> ('u, tool_callback) client_event list" where
  "delivery_test i =
     map (\<lambda>u. SendStatus u (0x11, 0x00) [] (Some Count_up)) (delivery_ids i) @
     [tool_request (delivery_request i), DropResponse (delivery_request i)]"

definition drop_test :: "'u tool_ids \<Rightarrow> ('u, tool_callback) client_event list" where
  "drop_test i = concat (map (\<lambda>u. [tool_request u, DropResponse u]) (dropped_ids i))"

definition response_test :: "'u tool_ids \<Rightarrow> ('u, tool_callback) client_event list" where
  "response_test i = concat (map (\<lambda>u. [tool_request u, DropResponse u]) (waited_ids i))"

text \<open>The responses of the last test are moved into the tasks that wait for them, which end in the order they are asked.\<close>

definition thread_test :: "'u tool_ids \<Rightarrow> ('u, tool_callback) client_event list" where
  "thread_test i = map tool_request (thread_ids i) @ map DropResponse (thread_ids i)"

definition tool_events :: "'u tool_ids \<Rightarrow> ('u, tool_callback) client_event list" where
  "tool_events i = send_test @ status_test i @ delivery_test i @ drop_test i @ response_test i @ thread_test i"

section \<open>What the tool prints\<close>

record TEST =
  m_label :: string
  test_result :: bool

definition TEST_new :: "string \<Rightarrow> TEST \<times> string list" where
  "TEST_new label = (\<lparr>m_label = label, test_result = True\<rparr>, [''[ RUN      ] '' @ label])"

definition setResult :: "bool \<Rightarrow> TEST \<Rightarrow> TEST" where
  "setResult value t = t\<lparr>test_result := value\<rparr>"

definition TEST_delete :: "string \<Rightarrow> TEST \<Rightarrow> string list" where
  "TEST_delete duration t =
     [(if test_result t then ''[       OK ] '' else ''[   FAILED ] '') @ m_label t @ '' ('' @ duration @ ''ms)'']"

text \<open>
  \<open>status\<close> is the value of the first delivery status, if it was there in time, \<open>delivered\<close> the number
  of calls of \<^verbatim>\<open>onCommandDelivered\<close>, and \<open>ready\<close> what each of the waiting tasks returned.
\<close>

record observations =
  status :: "bool option"
  delivered :: nat
  ready :: "bool list"
  durations :: "string list"
  number_text :: "nat \<Rightarrow> string"

definition run_test :: "string \<Rightarrow> bool \<Rightarrow> string list \<Rightarrow> string \<Rightarrow> string list" where
  "run_test label passed lines duration =
     (case TEST_new label of (t, out) \<Rightarrow> out @ lines @ TEST_delete duration (if passed then t else setResult False t))"

definition tool_main :: "(registry \<Rightarrow> registry) \<Rightarrow> (registry \<Rightarrow> registry) \<Rightarrow> observations \<Rightarrow> registry \<Rightarrow> string list \<times> registry" where
  "tool_main common_init common_end obs r =
     (let r = InitializeLibCpuComLogMessages (common_init r);
          responseCounter = length (filter id (ready obs));
          out = run_test ''Send test'' True [] (durations obs ! 0) @
            run_test ''Send test with DeliveryStatus'' (status obs \<noteq> Some False) [] (durations obs ! 1) @
            run_test ''Wait for delivery confirmation'' (delivered obs = kTimesRepeat) [] (durations obs ! 2) @
            run_test ''Drop response immediately'' True [] (durations obs ! 3) @
            run_test ''Wait for response'' True [] (durations obs ! 4) @
            run_test ''Wait for response in another thread'' (kTimesRepeat = responseCounter)
              [''Total Requests : '' @ number_text obs kTimesRepeat, ''Total Responses: '' @ number_text obs responseCounter]
              (durations obs ! 5)
      in (out, common_end (TerminateLibCpuComLogMessages r)))"

section \<open>The delivery test\<close>

text \<open>The number of calls of \<^verbatim>\<open>onCommandDelivered\<close>.\<close>

fun counts :: "tool_callback client_call \<Rightarrow> bool" where
  "counts (StatusCall Count_up r) = True"
| "counts c = False"

definition tool_count :: "('u, tool_callback) CpuCom \<Rightarrow> nat" where
  "tool_count c = length (filter counts (m_calls c))"

lemma counts_status: "filter counts calls = filter counts (filter is_status_call calls)"
proof -
  have "counts c \<Longrightarrow> is_status_call c" for c by (cases c rule: counts.cases) simp_all
  then show ?thesis by (simp add: conj_absorb) (metis (mono_tags, lifting) filter_cong)
qed

lemma length_counts:
  "length us = length rs \<Longrightarrow> length (filter counts (status_calls (map (\<lambda>u. (u, Some Count_up)) us) rs)) = length us"
  by (induction us rs rule: list_induct2) (simp_all add: status_calls_def status_call_def)

text \<open>Only the first two tests that want a status have any.\<close>

lemma sent_tool:
  "sent (send_test @ status_test i @ map (\<lambda>u. SendStatus u (0x11, 0x00) [] (Some Count_up)) (delivery_ids i)) =
     (status_id i, Some Set_value) # map (\<lambda>u. (u, Some Count_up)) (delivery_ids i)"
proof -
  have "sent (map (\<lambda>u. SendStatus u (0x11, 0x00) [] (Some Count_up)) us) = map (\<lambda>u. (u, Some Count_up)) us" for us :: "'a list"
    by (induction us) simp_all
  then show ?thesis by (simp add: send_test_def status_test_def)
qed

lemma sent_rest:
  "sent (DropResponse u # drop_test i @ response_test i @ thread_test i) = []"
  by (auto simp: drop_test_def response_test_def thread_test_def tool_request_def)

definition before_request :: "'u tool_ids \<Rightarrow> ('u, tool_callback) client_event list" where
  "before_request i = send_test @ status_test i @ map (\<lambda>u. SendStatus u (0x11, 0x00) [] (Some Count_up)) (delivery_ids i)"

lemma tool_events_split:
  "tool_events i = before_request i @
     tool_request (delivery_request i) # DropResponse (delivery_request i) # drop_test i @ response_test i @ thread_test i"
  by (simp add: tool_events_def delivery_test_def before_request_def)

text \<open>A request that was not made has no answer.\<close>

lemma asks_makes: "Asks u \<in> set (event_mark e) \<Longrightarrow> makes u e"
  by (cases e) auto

lemma promise_made:
  assumes "session_inv s es x" "m_promises (client x) u \<noteq> None"
  shows "\<exists>e\<in>set es. makes u e"
proof -
  obtain m where m: "m \<in> set (take (received x) (outbox s (server x)))" "responds u m"
    using assms unfolding session_inv_def client_side_def by blast
  then have "Asks u \<in> set (marks (take (handled x) (m_messenger (client x))))"
  proof -
    have "\<exists>m\<in>set (outbox s (server x)). responds u m" using m by (auto dest: in_set_takeD)
    then show ?thesis using assms(1) unfolding session_inv_def daemon_side_def by blast
  qed
  then have "Asks u \<in> set (marks (m_messenger (client x)))" by (auto dest: in_set_takeD)
  moreover have "marks (m_messenger (client x)) = concat (map event_mark es)" using assms(1) unfolding session_inv_def by blast
  ultimately have "Asks u \<in> set (concat (map event_mark es))" by (simp only:)
  then obtain e where "e \<in> set es" "Asks u \<in> set (event_mark e)" by auto
  then show ?thesis by (intro bexI [of _ e]) (rule asks_makes)
qed

text \<open>The part of the tool's run up to a time, if it has made the request of the delivery test.\<close>

lemma tool_prefix:
  assumes "es @ rest = tool_events i" "e \<in> set es" "makes (delivery_request i) e"
  shows "\<exists>es'. es = before_request i @ tool_request (delivery_request i) # es' \<and> sent es' = []"
proof -
  let ?u = "delivery_request i" and ?b = "before_request i"
  have "\<not> length es \<le> length ?b"
  proof
    assume "length es \<le> length ?b"
    then have "es = take (length es) ?b"
      using arg_cong [OF assms(1), of "take (length es)"] unfolding tool_events_split by simp
    then have "e \<in> set ?b" using assms(2) by (metis in_set_takeD)
    then show False using assms(3) by (auto simp: before_request_def send_test_def status_test_def)
  qed
  then have longer: "length ?b < length es" by simp
  let ?us = "drop (length ?b) es"
  have "take (length ?b) es = ?b"
    using arg_cong [OF assms(1), of "take (length ?b)"] longer unfolding tool_events_split by simp
  then have us: "es = ?b @ ?us" by (metis append_take_drop_id)
  have "?us @ rest = tool_request ?u # DropResponse ?u # drop_test i @ response_test i @ thread_test i"
    using arg_cong [OF assms(1), of "drop (length ?b)"] longer unfolding tool_events_split by simp
  moreover have "?us \<noteq> []" using longer by simp
  ultimately obtain es' where "?us = tool_request ?u # es'"
      and es': "es' @ rest = DropResponse ?u # drop_test i @ response_test i @ thread_test i"
    by (cases ?us) auto
  moreover have "sent es' = []" using sent_rest [of ?u i] unfolding es' [symmetric] by simp
  ultimately show ?thesis using us by auto
qed

lemma sent_tool_events: "sent (tool_events i) = (status_id i, Some Set_value) # map (\<lambda>u. (u, Some Count_up)) (delivery_ids i)"
proof -
  let ?u = "delivery_request i"
  have "sent (tool_events i) = sent (before_request i) @ sent_by (tool_request ?u) @
      sent (DropResponse ?u # drop_test i @ response_test i @ thread_test i)"
    unfolding tool_events_split by (simp only: map_append concat_append list.map concat.simps)
  also have "\<dots> = (status_id i, Some Set_value) # map (\<lambda>u. (u, Some Count_up)) (delivery_ids i)"
    by (simp only: before_request_def sent_tool sent_rest) (simp add: tool_request_def)
  finally show ?thesis .
qed

section \<open>Properties\<close>

text \<open>
  C37: The tool's test of delivery confirmations passes whenever its request is answered, in every run
  of the tool beside the daemon: by then each of the 300 callbacks has been called exactly once. The
  test asks for nothing that the library and the daemon do not give.
\<close>

theorem tool_delivery_test_passes:
  assumes "enough_ids i" and "new_to s d" and "session_run C s code evs (session_start d) = Ret x"
    and "list_all (proper s) evs" and "client_events evs @ rest = tool_events i"
    and "m_promises (client x) (delivery_request i) \<noteq> None"
  shows "tool_count (client x) = kTimesRepeat"
proof -
  let ?u = "delivery_request i"
  have ids: "distinct (status_id i # delivery_ids i)" "length (delivery_ids i) = kTimesRepeat"
    using assms(1) by (auto simp: enough_ids_def)
  have "map fst (sent (tool_events i)) = status_id i # delivery_ids i" by (simp add: sent_tool_events comp_def)
  then have "distinct (map fst (sent (client_events evs @ rest)))" using ids(1) assms(5) by simp
  then have dist: "distinct (map fst (sent (client_events evs)))" by simp
  have none: "\<forall>e\<in>set (before_request i). \<not> makes ?u e"
    by (auto simp: before_request_def send_test_def status_test_def)
  obtain e where e: "e \<in> set (client_events evs)" "makes ?u e"
    using promise_made [OF session_run_inv [OF assms(2-4) dist] assms(6)] by blast
  obtain es' where es: "client_events evs = before_request i @ tool_request ?u # es'" and none_left: "sent es' = []"
    using tool_prefix [OF assms(5) e] by blast
  note first = sent_tool [of i, folded before_request_def]
  obtain results others where r: "map fst results = map fst (sent (before_request i))"
      "filter is_status_call (m_calls (client x)) = status_calls (sent (before_request i)) results @ status_calls (sent es') others"
    using statuses_before [OF assms(2-4) dist es [unfolded tool_request_def] none assms(6)] by blast
  have calls: "filter is_status_call (m_calls (client x)) =
      status_calls ((status_id i, Some Set_value) # map (\<lambda>u. (u, Some Count_up)) (delivery_ids i)) results"
    using r(2) unfolding none_left first by (simp add: status_calls_def)
  obtain y ys where ys: "results = y # ys" "length (delivery_ids i) = length ys"
    using arg_cong [OF r(1), of length] unfolding first by (cases results) simp_all
  have "filter counts (m_calls (client x)) = filter counts (status_calls (map (\<lambda>u. (u, Some Count_up)) (delivery_ids i)) ys)"
    unfolding counts_status [of "m_calls (client x)"] calls ys(1) by (simp add: status_calls_def status_call_def)
  then show ?thesis using length_counts [OF ys(2)] ids(2) by (simp add: tool_count_def)
qed

text \<open>A run of the first three tests: the application, then the daemon, the CPU's answer, and the client.\<close>

lemma run_application:
  "session_run C s code (map Client_does es) x = Ret (x\<lparr>client := fold (client_step code) es (client x)\<rparr>)"
  by (induction es arbitrary: x) simp_all

lemma run_daemon:
  assumes "length ms = n" "m_messenger (client x) = ms' @ ms" "handled x = length ms'"
    and "daemon_run C (map (Message s) ms) (server x) = Ret d"
  shows "session_run C s code (replicate n Daemon_handles) x = Ret (x\<lparr>server := d, handled := handled x + n\<rparr>)"
  using assms
proof (induction ms arbitrary: n x ms')
  case (Cons m ms)
  then obtain d1 where d1: "handle_message C s m (server x) = Ret d1" "daemon_run C (map (Message s) ms) d1 = Ret d"
    by (auto simp: obind_eq_Ret)
  let ?x = "x\<lparr>server := d1, handled := Suc (handled x)\<rparr>"
  have "session_run C s code (replicate (length ms) Daemon_handles) ?x =
      Ret (?x\<lparr>server := d, handled := handled ?x + length ms\<rparr>)"
    by (rule Cons.IH [OF refl, of _ "ms' @ [m]"]) (use Cons.prems d1(2) in simp_all)
  then show ?case using Cons.prems(1-3) d1(1) by (auto simp: nth_append)
qed simp

lemma run_client:
  assumes "length ms = n" "outbox s (server x) = ms' @ ms" "received x = length ms'"
  shows "session_run C s code (replicate n Client_handles) x =
    Ret (x\<lparr>client := fold (client_receive code) ms (client x), received := received x + n\<rparr>)"
  using assms
proof (induction ms arbitrary: n x ms')
  case (Cons m ms)
  let ?x = "x\<lparr>client := client_receive code m (client x), received := Suc (received x)\<rparr>"
  have "session_run C s code (replicate (length ms) Client_handles) ?x =
      Ret (?x\<lparr>client := fold (client_receive code) ms (client ?x), received := received ?x + length ms\<rparr>)"
    by (rule Cons.IH [OF refl, of _ "ms' @ [m]"]) (use Cons.prems in simp_all)
  then show ?case using Cons.prems by (auto simp: nth_append)
qed simp

lemma application_messages:
  "m_messenger (fold (client_step code) (before_request i) CpuCom_new) =
     SendCommand requestCommand requestData # SendCommandWithDeliveryStatus (status_id i) requestCommand requestData #
     map (\<lambda>u. SendCommandWithDeliveryStatus u (0x11, 0x00) []) (delivery_ids i)" (is "?a")
  "v2_requests (fold (client_step code) (before_request i) CpuCom_new) = {}"
proof -
  have "m_messenger (fold (client_step code) (map (\<lambda>u. SendStatus u (0x11, 0x00) [] (Some Count_up)) us) c) =
      m_messenger c @ map (\<lambda>u. SendCommandWithDeliveryStatus u (0x11, 0x00) []) us \<and>
    v2_requests (fold (client_step code) (map (\<lambda>u. SendStatus u (0x11, 0x00) [] (Some Count_up)) us) c) = v2_requests c"
    for us :: "'a list" and c :: "('a, tool_callback) CpuCom"
    by (induction us arbitrary: c) (simp_all add: client_defs)
  then show ?a "v2_requests (fold (client_step code) (before_request i) CpuCom_new) = {}"
    by (simp_all add: before_request_def send_test_def status_test_def client_defs CpuCom_new_def)
qed

lemma script_daemon:
  "daemon_run script_cpu (map (Message s) (SendCommand a b # SendCommandWithDeliveryStatus u a' b' #
      map (\<lambda>u. SendCommandWithDeliveryStatus u c e) us @ [Request v f g h])) d =
    Ret (d\<lparr>m_requests := m_requests d @ [(v, h, s)],
      m_messageServer := m_messageServer d @ map (\<lambda>u. (s, DeliveryStatus u True)) (u # us)\<rparr>)"
proof -
  have "daemon_run script_cpu (map (Message s) (map (\<lambda>u. SendCommandWithDeliveryStatus u c e) us @ [Request v f g h])) d =
      Ret (d\<lparr>m_requests := m_requests d @ [(v, h, s)],
        m_messageServer := m_messageServer d @ map (\<lambda>u. (s, DeliveryStatus u True)) us\<rparr>)" for d us
    by (induction us arbitrary: d) (simp_all add: script_cpu_def onRequest_def onSendCommandWithDeliveryStatus_def
        cpu_write_daemon_def send_message_def Let_def)
  then show ?thesis
    by (simp add: script_cpu_def onSendCommand_def onSendCommandWithDeliveryStatus_def cpu_write_daemon_def send_message_def)
qed

definition sample_ids :: "nat tool_ids" where
  "sample_ids = \<lparr>status_id = 0, delivery_ids = [1..<301], delivery_request = 301, dropped_ids = [302..<602],
     waited_ids = [602..<902], thread_ids = [902..<1202]\<rparr>"

definition sample_run :: "(nat, nat, tool_callback) session_event list" where
  "sample_run = map Client_does (before_request sample_ids @ [tool_request 301]) @ replicate 303 Daemon_handles @
     [Daemon_does VcpuRound] @ replicate 302 Client_handles"

lemma statuses_keep_requests:
  "v2_requests (fold (client_receive code) (map (\<lambda>u. DeliveryStatus u True) us) c) = v2_requests c"
  by (induction us arbitrary: c) (simp_all add: client_defs)

lemma sample_run_answers:
  "\<exists>x. session_run script_cpu 3 (\<lambda>e. 1) sample_run (session_start (running_daemon [(responseCommand, [9])])) = Ret x \<and>
    m_promises (client x) 301 = Some [9]"
proof -
  let ?d = "running_daemon [(responseCommand, [9])]" and ?r = "session_run script_cpu 3 (\<lambda>e. 1 :: int)"
  let ?c = "fold (client_step (\<lambda>e. 1)) (before_request sample_ids @ [tool_request 301]) CpuCom_new :: (nat, tool_callback) CpuCom"
  let ?ms = "SendCommand requestCommand requestData # SendCommandWithDeliveryStatus 0 requestCommand requestData #
     map (\<lambda>u. SendCommandWithDeliveryStatus u (0x11, 0x00) []) [1..<301] @ [Request 301 requestCommand requestData responseCommand]"
  let ?st = "map (\<lambda>u. DeliveryStatus u True) (0 # [1..<301])"
  let ?d1 = "?d\<lparr>m_requests := [(301, responseCommand, 3)], m_messageServer := map (Pair 3) ?st\<rparr>"
  let ?d2 = "?d1\<lparr>m_vcpu := [], m_subscribers := (m_subscribers ?d)(responseCommand \<mapsto> []), m_requests := [],
      m_messageServer := map (Pair 3) (?st @ [RequestResponse 301 [9]])\<rparr>"
  have c: "m_messenger ?c = ?ms" "v2_requests ?c = {301}"
    using application_messages [of "\<lambda>e. 1" sample_ids]
    by (simp_all add: sample_ids_def tool_request_def client_defs)
  have d: "daemon_run script_cpu (map (Message 3) ?ms) ?d = Ret ?d1"
    unfolding script_daemon by (simp add: running_daemon_def daemon_start_def script_cpu_def CpuComDaemon_new_def comp_def)
  have v: "daemon_step script_cpu VcpuRound ?d1 = Ret ?d2"
    by (simp add: daemon_run_simps running_daemon_def send_message_def)
  have o: "outbox 3 ?d2 = ?st @ [RequestResponse 301 [9]]" by (simp add: outbox_def comp_def)
  let ?x = "(session_start ?d)\<lparr>client := ?c, server := ?d2, handled := 303, received := 302\<rparr>"
  let ?c' = "fold (client_receive (\<lambda>e. 1)) (?st @ [RequestResponse 301 [9]]) ?c"
  have 1: "?r (map Client_does (before_request sample_ids @ [tool_request 301])) (session_start ?d) = Ret ((session_start ?d)\<lparr>client := ?c\<rparr>)"
    unfolding run_application by (simp add: session_start_def)
  have 2: "?r (replicate 303 Daemon_handles) ((session_start ?d)\<lparr>client := ?c\<rparr>) =
      Ret ((session_start ?d)\<lparr>client := ?c, server := ?d1, handled := 303\<rparr>)"
    using run_daemon [of ?ms 303 "(session_start ?d)\<lparr>client := ?c\<rparr>" "[]" script_cpu 3 ?d1 "\<lambda>e. 1"] c(1) d by (simp add: session_start_def)
  have 3: "?r [Daemon_does VcpuRound] ((session_start ?d)\<lparr>client := ?c, server := ?d1, handled := 303\<rparr>) =
      Ret ((session_start ?d)\<lparr>client := ?c, server := ?d2, handled := 303\<rparr>)"
    using v by (simp add: session_start_def)
  have 4: "?r (replicate 302 Client_handles) ((session_start ?d)\<lparr>client := ?c, server := ?d2, handled := 303\<rparr>) =
      Ret (?x\<lparr>client := ?c'\<rparr>)"
    using run_client [of "?st @ [RequestResponse 301 [9]]" 302 3 "(session_start ?d)\<lparr>client := ?c, server := ?d2, handled := 303\<rparr>" "[]"
        script_cpu "\<lambda>e. 1"] o by (simp add: session_start_def)
  have "?r sample_run (session_start ?d) = Ret (?x\<lparr>client := ?c'\<rparr>)"
    unfolding sample_run_def session_run_append 1 obind.simps 2 3 4 ..
  moreover have "m_promises ?c' 301 = Some [9]"
    unfolding fold_append comp_apply
    using statuses_keep_requests [of "\<lambda>e. 1" "0 # [1..<301]" ?c] c(2) by (simp add: onRequestResponse_def Let_def)
  ultimately show ?thesis by simp
qed

lemma tool_delivery_test_passes_witness:
  "\<exists>x. session_run script_cpu 3 (\<lambda>e. 1) sample_run (session_start (running_daemon [(responseCommand, [9])])) = Ret x \<and>
    m_promises (client x) 301 = Some [9] \<and> tool_count (client x) = 300"
proof -
  obtain x where x: "session_run script_cpu 3 (\<lambda>e. 1) sample_run (session_start (running_daemon [(responseCommand, [9])])) = Ret x"
      "m_promises (client x) 301 = Some [9]"
    using sample_run_answers by blast
  have ids: "enough_ids sample_ids" by (auto simp: enough_ids_def sample_ids_def kTimesRepeat_def simp del: upt_rec_numeral)
  have n: "new_to 3 (running_daemon [(responseCommand, [9])])"
    by (simp add: new_to_def outbox_def running_daemon_def daemon_start_def script_cpu_def CpuComDaemon_new_def)
  have "\<forall>m. e \<noteq> Incoming m \<Longrightarrow> proper (3 :: nat) (Client_does e)" for e :: "(nat, tool_callback) client_event"
    by (cases e) auto
  then have "list_all (proper (3 :: nat)) (map Client_does es)" if "\<forall>e\<in>set es. \<forall>m. e \<noteq> Incoming m"
      for es :: "(nat, tool_callback) client_event list"
    using that by (simp add: list_all_iff)
  moreover have "\<forall>e\<in>set (before_request sample_ids @ [tool_request 301]). \<forall>m. e \<noteq> Incoming m"
    by (auto simp: before_request_def send_test_def status_test_def tool_request_def)
  ultimately have "list_all (proper 3) (map Client_does (before_request sample_ids @ [tool_request 301]) :: (nat, nat, tool_callback) session_event list)"
    by blast
  moreover have "list_all (proper 3) (replicate k Daemon_handles :: (nat, nat, tool_callback) session_event list)"
    "list_all (proper 3) (replicate k Client_handles :: (nat, nat, tool_callback) session_event list)" for k
    by (simp_all add: list_all_iff)
  ultimately have p: "list_all (proper 3) sample_run" unfolding sample_run_def list_all_append by simp
  have "client_events (map Client_does es :: (nat, nat, tool_callback) session_event list) = es" for es :: "(nat, tool_callback) client_event list"
    by (induction es) (simp_all add: client_events_def)
  moreover have "client_events (replicate k Daemon_handles :: (nat, nat, tool_callback) session_event list) = []"
    "client_events (replicate k Client_handles :: (nat, nat, tool_callback) session_event list) = []" for k
    by (simp_all add: client_events_def)
  ultimately have "client_events sample_run = before_request sample_ids @ [tool_request 301]"
    unfolding sample_run_def by (simp add: client_events_def)
  then have "client_events sample_run @ (DropResponse 301 # drop_test sample_ids @ response_test sample_ids @ thread_test sample_ids) =
      tool_events sample_ids"
    by (simp add: tool_events_split sample_ids_def del: upt_rec_numeral)
  from tool_delivery_test_passes [OF ids n x(1) p this] x show ?thesis
    by (intro exI [of _ x]) (simp add: sample_ids_def kTimesRepeat_def)
qed
end
