(* ===== verification/Spec2Isabelle.thy ===== *)
theory Spec2Isabelle
  imports Library Programs RoundTrip Texts Duplex FrameGrammar Resend EmulatorProperties Repeater GlobalReference JniLoad TestApp TestTool
begin

text \<open>
  A model of the CPU communication stack of this repository: the daemon that exchanges commands with
  the vehicle CPU (V-CPU) over a serial line, the libraries with which applications talk to the
  daemon, and the emulator that stands in for the V-CPU.

  \<^bold>\<open>The program.\<close> A command is a pair of bytes with data. An application calls a client library
  (\<^verbatim>\<open>libCpuCom\<close>), which sends messages over a socket to the daemon (\<^verbatim>\<open>CpuComDaemon.cpp\<close>). The
  daemon writes commands to a CPU object (\<^verbatim>\<open>vcpu/CPU.cpp\<close>, \<^verbatim>\<open>vcpu/MultipleCPU.cpp\<close>), which packs
  them and hands them to a protocol object (\<^verbatim>\<open>vcpu/protocol/Protocol.cpp\<close>). The protocol cuts a
  message into frames and runs one state machine to send and one to receive; the two run in
  different threads, take turns on the device by a mutex, and retry. What is received goes up the
  same way, to the sessions that subscribed for the command and to the request that waits for it.

  \<^bold>\<open>The theories\<close>, in the order of their dependence:

  \<^item> \<open>CpuPrelude\<close>: bytes and 32-bit integers, the outcome of a call (a value, a fault, a wait on a
    mutex, or no return), operations on \<^verbatim>\<open>std::vector\<close> that can fail.
  \<^item> \<open>StateMachine\<close>: a machine is a table of handlers and transitions. Its step relation and paths,
    the locale \<open>fsm_runner\<close> of what \<^verbatim>\<open>common::FiniteStateMachine\<close> (not in this repository) is
    relied on for, and \<open>fsm_run\<close>, which meets it. Invariants, termination measures and simulation
    are proved in the locale, for any runner.
  \<^item> \<open>Framing\<close>: \<^verbatim>\<open>prepareFrames\<close> and the second half of \<^verbatim>\<open>Protocol::receive\<close>; the frames of a
    message and what is taken out of them again.
  \<^item> \<open>ProtocolState\<close>: the device as a record of operations, the mutex, the contexts, and a device
    that records what is done to it.
  \<^item> \<open>SendMachine\<close>, \<open>SendProperties\<close>: the twelve send states, their handlers and transitions;
    invariant, termination measure, and what a send promises.
  \<^item> \<open>RecvMachine\<close>, \<open>RecvProperties\<close>: the same for the receive states; what is delivered was
    framed and checked, what was framed is delivered, and the ways in which a reception fails.
  \<^item> \<open>Duplex\<close>: the sending and the receiving thread on one protocol object, a handler at a time in
    any order: exclusion, no deadlock, the guarantee of a send beside the receiver, and the race in
    \<^verbatim>\<open>sendRetry\<close>.
  \<^item> \<open>Link\<close>: two protocol objects at the two ends of a line, one that sends and one that receives:
    however their handlers interleave, the message arrives when no wait ends late.
  \<^item> \<open>FrameGrammar\<close>: well formed frames, stated on their bytes; the receiver accepts exactly these,
    and \<^verbatim>\<open>prepareFrames\<close> builds no others.
  \<^item> \<open>Resend\<close>: the same line with one wait that ends late, where a frame is sent again and the
    message that arrives is not the message that was sent.
  \<^item> \<open>DeviceMap\<close>: the locale \<open>device_map\<close>, of devices whose states correspond; sends and
    receives on such devices agree, so that recording what is done to a device changes nothing.
  \<^item> \<open>CpuInterface\<close>, \<open>Cpu\<close>: the interface \<^verbatim>\<open>ICPU\<close> as a record and its contract as the locale
    \<open>icpu\<close>; \<^verbatim>\<open>CPUCommon\<close>, \<^verbatim>\<open>CPU\<close> and \<^verbatim>\<open>MultipleCPU\<close>, and the interpretations of the locale on
    them.
  \<^item> \<open>Daemon\<close>, \<open>DaemonProperties\<close>: \<^verbatim>\<open>CpuComDaemon\<close> over any CPU, as steps on the events that
    reach it; the table of subscribers refines a relation, requests are answered at most once.
  \<^item> \<open>System\<close>: the daemon on the CPU on the protocol on a device.
  \<^item> \<open>Startup\<close>: the configuration of the devices, the socket devices, and \<^verbatim>\<open>main\<close> of the daemon:
    from there on the daemon keeps running, with either CPU.
  \<^item> \<open>ClientInterface\<close>: the locale \<open>subscribing_client\<close>, what the daemon and the user of a library
    rely on: the messages sent tell the daemon what the client wants to hear.
  \<^item> \<open>ClientV2\<close> and \<open>ClientV1\<close>: the two client libraries (\<^verbatim>\<open>CpuComImpl_v2.cpp\<close>,
    \<^verbatim>\<open>impl_CpuComImpl.h\<close>), which meet this contract.
  \<^item> \<open>Messaging\<close>: the interfaces \<^verbatim>\<open>IMessageServer\<close> and \<^verbatim>\<open>IMessenger\<close>, the classes that implement them,
    and the handlers the daemon and a client register: each message that one side sends is delivered to
    the method of the other side that the model calls for it. What the common library does is the contract of two
    locales, which give those of the two interfaces.
  \<^item> \<open>Library\<close>: \<^verbatim>\<open>ICpuCom\<close>, \<^verbatim>\<open>v2::ICpuCom\<close> and \<^verbatim>\<open>ICpuComResponse\<close>, and the contract \<open>command_library\<close> by
    which the second library can replace the first.
  \<^item> \<open>Session\<close>: a client and the daemon with the two queues of messages between them, in any
    interleaving with the application, the CPU and the other clients.
  \<^item> \<open>RoundTrip\<close>: a request from the application to the V-CPU and the answer back, through the client
    library, the daemon, \<^verbatim>\<open>MultipleCPU\<close> and its two lines.
  \<^item> \<open>EmulatorUtils\<close>, \<open>Emulator\<close>, \<open>EmulatorProperties\<close>: the emulator's text functions, its
    configuration, rules, actions, input rounds, worker tasks and command line
    (\<^verbatim>\<open>tools/VcpuEmulator/src\<close>).
  \<^item> \<open>Repeater\<close>: the thread that calls a function at an interval (\<^verbatim>\<open>Internal/src/Repeater.cpp\<close>)
    beside the caller that stops it.
  \<^item> \<open>TestApp\<close>: the interactive client (\<^verbatim>\<open>tools/CpuComDaemonTestApp\<close>) on the client library,
    with its command lines, files and menu.
  \<^item> \<open>TestTool\<close>: the tool that tests the client library (\<^verbatim>\<open>tools/libCpuComTestTool\<close>), in a
    session with the daemon.
  \<^item> \<open>LogMessages\<close>: the identifiers and formats of what is logged, and the calls that log: each
    passes what its format displays.
  \<^item> \<open>Texts\<close>: the texts in which the daemon logs commands and the interactive client prints them.
  \<^item> \<open>Programs\<close>: the moves and the life of a socket device, the callbacks and log messages of the daemon's \<^verbatim>\<open>main\<close>, the
    CPUs of the emulator's \<^verbatim>\<open>main\<close> and its command line, and the program that writes the formats of the log to files.
  \<^item> \<open>JniService\<close>, \<open>JniLoad\<close>, \<open>GlobalReference\<close>: the native half of the Java service
    (\<^verbatim>\<open>CpuComService/jni\<close>), with the clients and callbacks of its processes, its loading and the calls into Java, and the counted
    references to Java objects that it shares between threads.

  \<^bold>\<open>State and operations.\<close> A class is a record with the names of its members, a method is a
  definition that takes and returns the record. A call that can throw, block or not return gives an
  \<open>outcome\<close>. Locks that are taken and released inside one method are not modelled, since the method
  is one step; the mutex of the protocol, which is held from one handler to another, is a field, with
  its owner. Where two threads meet between the steps of a method (\<^verbatim>\<open>CpuComImpl::subscribe\<close>, the
  repeater, the two machines of a protocol) the steps are separate and their interleavings are considered.

  \<^bold>\<open>Bounds.\<close> Attempt counters, data lengths and frame counts have the width they have in the code,
  with wrap-around. A machine that may run for ever is a runner whose value can be \<open>Diverges\<close>; where
  a call returns, a measure shows it (\<open>send_measure\<close>, and \<open>to_go\<close> for the two ends of a line). The loop that drains the device is
  \<open>while_option\<close>, so that a line that never stops delivering is the value \<open>None\<close>.

  \<^bold>\<open>Parameters.\<close> Not under \<^verbatim>\<open>src/\<close>, and therefore arguments of the definitions: the state machine
  runner, the device, the checksum, unpacking of messages, identifiers of requests, the JSON library,
  regular expressions, and the system calls that open and configure devices. The message transport between client and daemon is the list of messages
  each side has sent; \<open>Messaging\<close> relates it to the operations of the common library's \<^verbatim>\<open>MessageServer\<close> and \<^verbatim>\<open>Messenger\<close>.

  \<^bold>\<open>Not modelled\<close>: what the log does with the messages it is given, and the executors and threads that
  \<^verbatim>\<open>main\<close> starts; they are code of the common library.
\<close>

end
